(* ===== verification/Prelude.thy ===== *)
theory Prelude
  imports "HOL-Library.Word"
begin

text \<open>
  The vocabulary the component theories share.

  \<^item> The widths of the Rust integers as word types; an \<open>U256\<close> and a \<open>B256\<close> are the
    same 256 bits, read as a number or as a 32-byte string, so both are \<open>u256\<close>.
  \<^item> The outcome of a Rust call: a value, an error of the function's error type, or a
    panic; and the state-passing computations that return one. A failing call keeps
    what it had written before it failed, so the state is returned on every branch.
  \<^item> The saturating, checked and narrowing integer operations of the Rust standard
    library and of \<open>U256\<close>, with their meaning in \<open>nat\<close>.
  \<^item> Big-endian byte strings and their round trips with words.
\<close>

unbundle bit_operations_syntax

section \<open>Integer widths\<close>

type_synonym u8 = "8 word"
type_synonym u16 = "16 word"
type_synonym u32 = "32 word"
type_synonym u64 = "64 word"
type_synonym u128 = "128 word"
type_synonym u256 = "256 word"
type_synonym address = "160 word"
type_synonym bytes = "8 word list"

section \<open>Outcomes and state-passing computations\<close>

datatype ('a, 'e) result = Ok 'a | Err 'e | Panic

type_synonym ('s, 'a, 'e) comp = "'s \<Rightarrow> ('a, 'e) result \<times> 's"

named_theorems run_simps \<open>execution of the state-passing combinators\<close>

definition ret :: "'a \<Rightarrow> ('s, 'a, 'e) comp" where
  "ret x s = (Ok x, s)"

definition throw :: "'e \<Rightarrow> ('s, 'a, 'e) comp" where
  "throw e s = (Err e, s)"

definition panic :: "('s, 'a, 'e) comp" where
  "panic s = (Panic, s)"

definition bnd :: "('s, 'a, 'e) comp \<Rightarrow> ('a \<Rightarrow> ('s, 'b, 'e) comp) \<Rightarrow> ('s, 'b, 'e) comp" where
  "bnd m f s = (case m s of
      (Ok x, s') \<Rightarrow> f x s'
    | (Err e, s') \<Rightarrow> (Err e, s')
    | (Panic, s') \<Rightarrow> (Panic, s'))"

text \<open>The \<open>From\<close> conversion that Rust's \<open>?\<close> applies to an error.\<close>

definition map_err :: "('e \<Rightarrow> 'f) \<Rightarrow> ('s, 'a, 'e) comp \<Rightarrow> ('s, 'a, 'f) comp" where
  "map_err g m s = (case m s of
      (Ok x, s') \<Rightarrow> (Ok x, s')
    | (Err e, s') \<Rightarrow> (Err (g e), s')
    | (Panic, s') \<Rightarrow> (Panic, s'))"

text \<open>\<open>let _ = call(..)\<close>: the value and the error of the call are dropped, a panic is not.\<close>

definition ignore :: "('s, 'a, 'e) comp \<Rightarrow> ('s, unit, 'f) comp" where
  "ignore m s = (case m s of
      (Ok x, s') \<Rightarrow> (Ok (), s')
    | (Err e, s') \<Rightarrow> (Ok (), s')
    | (Panic, s') \<Rightarrow> (Panic, s'))"

text \<open>A \<open>for\<close> loop whose body may fail: the first failure leaves the loop.\<close>

primrec for_each :: "'i list \<Rightarrow> ('i \<Rightarrow> ('s, unit, 'e) comp) \<Rightarrow> ('s, unit, 'e) comp" where
  "for_each [] f = ret ()"
| "for_each (i # is) f = bnd (f i) (\<lambda>_. for_each is f)"

text \<open>The same loop with an accumulator of local variables.\<close>

primrec fold_each :: "'i list \<Rightarrow> ('i \<Rightarrow> 'a \<Rightarrow> ('s, 'a, 'e) comp) \<Rightarrow> 'a \<Rightarrow> ('s, 'a, 'e) comp" where
  "fold_each [] f a = ret a"
| "fold_each (i # is) f a = bnd (f i a) (fold_each is f)"

text \<open>The numbers \<open>lo..hi\<close> of a Rust range of \<open>u64\<close>, in order.\<close>

definition u64_range :: "u64 \<Rightarrow> u64 \<Rightarrow> u64 list" where
  "u64_range lo hi = map of_nat [unat lo..<unat hi]"

definition u64_range_incl :: "u64 \<Rightarrow> u64 \<Rightarrow> u64 list" where
  "u64_range_incl lo hi = map of_nat [unat lo..<Suc (unat hi)]"

text \<open>A computation on the state next to a mutable local (a \<open>&mut\<close> parameter), and one
  that only changes the local.\<close>

definition on_state :: "('s, 'a, 'e) comp \<Rightarrow> ('s \<times> 'l, 'a, 'e) comp" where
  "on_state m s = (case m (fst s) of (r, s') \<Rightarrow> (r, s', snd s))"

definition on_local :: "('l \<Rightarrow> 'l) \<Rightarrow> ('s \<times> 'l, unit, 'e) comp" where
  "on_local f s = (Ok (), fst s, f (snd s))"

lemma ret_run [run_simps]: "ret x s = (Ok x, s)"
  by (simp add: ret_def)

lemma throw_run [run_simps]: "throw e s = (Err e, s)"
  by (simp add: throw_def)

lemma panic_run [run_simps]: "panic s = (Panic, s)"
  by (simp add: panic_def)

lemmas [run_simps] = bnd_def map_err_def ignore_def on_state_def on_local_def

lemma bnd_Ok: "m s = (Ok x, s') \<Longrightarrow> bnd m f s = f x s'"
  by (simp add: bnd_def)

lemma bnd_Err: "m s = (Err e, s') \<Longrightarrow> bnd m f s = (Err e, s')"
  by (simp add: bnd_def)

lemma map_err_Ok: "m s = (Ok x, s') \<Longrightarrow> map_err g m s = (Ok x, s')"
  by (simp add: map_err_def)

lemma bnd_if [simp]: "bnd (if b then m else m') f = (if b then bnd m f else bnd m' f)"
  by simp

lemma bnd_assoc: "bnd (bnd m f) g = bnd m (\<lambda>x. bnd (f x) g)"
  by (rule ext) (simp add: bnd_def split: prod.splits result.splits)

lemma bnd_ret_left [simp]: "bnd (ret x) f = f x"
  by (rule ext) (simp add: run_simps)

lemma bnd_ret_right [simp]: "bnd m ret = m"
  by (rule ext) (simp add: run_simps split: prod.splits result.splits)

lemma bnd_OkE:
  assumes "bnd m f s = (Ok y, s'')"
  obtains x s' where "m s = (Ok x, s')" and "f x s' = (Ok y, s'')"
  using assms by (auto simp: bnd_def split: prod.splits result.splits)

lemma for_each_append: "for_each (xs @ ys) f = bnd (for_each xs f) (\<lambda>_. for_each ys f)"
  by (induction xs) (simp_all add: bnd_assoc)

lemma fold_each_append: "fold_each (xs @ ys) f a = bnd (fold_each xs f a) (fold_each ys f)"
proof (induction xs arbitrary: a)
  case Nil
  then show ?case by simp
next
  case (Cons x xs)
  then have "fold_each (xs @ ys) f = (\<lambda>x. bnd (fold_each xs f x) (fold_each ys f))"
    by (intro ext) simp
  then show ?case by (simp add: bnd_assoc)
qed

lemma u64_range_empty [simp]: "unat hi \<le> unat lo \<Longrightarrow> u64_range lo hi = []"
  by (simp add: u64_range_def)

lemma length_u64_range [simp]: "length (u64_range lo hi) = unat hi - unat lo"
  by (simp add: u64_range_def)

section \<open>Integer operations\<close>

definition sat_add :: "'a::len word \<Rightarrow> 'a word \<Rightarrow> 'a word" where
  "sat_add a b = (if unat a + unat b < 2 ^ LENGTH('a) then a + b else - 1)"

definition sat_sub :: "'a::len word \<Rightarrow> 'a word \<Rightarrow> 'a word" where
  "sat_sub a b = (if b \<le> a then a - b else 0)"

definition sat_mul :: "'a::len word \<Rightarrow> 'a word \<Rightarrow> 'a word" where
  "sat_mul a b = (if unat a * unat b < 2 ^ LENGTH('a) then a * b else - 1)"

definition checked_add :: "'a::len word \<Rightarrow> 'a word \<Rightarrow> 'a word option" where
  "checked_add a b = (if unat a + unat b < 2 ^ LENGTH('a) then Some (a + b) else None)"

definition checked_sub :: "'a::len word \<Rightarrow> 'a word \<Rightarrow> 'a word option" where
  "checked_sub a b = (if b \<le> a then Some (a - b) else None)"

definition checked_div :: "'a::len word \<Rightarrow> 'a word \<Rightarrow> 'a word option" where
  "checked_div a b = (if b = 0 then None else Some (a div b))"

text \<open>\<open>value.try_into().unwrap_or(0)\<close>: the value where it fits the narrower type, else 0.\<close>

definition narrow_or_zero :: "'a::len word \<Rightarrow> 'b::len word" where
  "narrow_or_zero w = (if unat w < 2 ^ LENGTH('b) then ucast w else 0)"

text \<open>\<open>U256::to::<u64>()\<close>: panics where the value does not fit.\<close>

definition to_or_panic :: "'a::len word \<Rightarrow> ('s, 'b::len word, 'e) comp" where
  "to_or_panic w = (if unat w < 2 ^ LENGTH('b) then ret (ucast w) else panic)"

lemma unat_bound: "unat w < 2 ^ LENGTH('a)"
  for w :: "'a::len word"
  by (rule unsigned_less)

lemma unat_max_word: "unat (- 1 :: 'a::len word) = 2 ^ LENGTH('a) - 1"
  by (simp add: unsigned_minus_1_eq_mask mask_eq_exp_minus_1)

lemma unat_sat_add: "unat (sat_add a b) = min (unat a + unat b) (2 ^ LENGTH('a) - 1)"
  for a b :: "'a::len word"
  using unat_add_lem [of a b] by (auto simp: sat_add_def unat_max_word)

lemma unat_sat_sub: "unat (sat_sub a b) = unat a - unat b"
  by (auto simp: sat_sub_def unat_sub word_le_nat_alt)

lemma unat_sat_mul: "unat (sat_mul a b) = min (unat a * unat b) (2 ^ LENGTH('a) - 1)"
  for a b :: "'a::len word"
  using unat_mult_lem [of a b] by (auto simp: sat_mul_def unat_max_word)

lemmas unat_sat = unat_sat_add unat_sat_sub unat_sat_mul

lemma checked_add_Some_iff:
  "checked_add a b = Some c \<longleftrightarrow> unat a + unat b < 2 ^ LENGTH('a) \<and> c = a + b"
  for a b :: "'a::len word"
  by (auto simp: checked_add_def)

lemma checked_sub_Some_iff: "checked_sub a b = Some c \<longleftrightarrow> b \<le> a \<and> c = a - b"
  by (auto simp: checked_sub_def)

lemma unat_ucast_small: "unat w < 2 ^ LENGTH('b) \<Longrightarrow> unat (ucast w :: 'b::len word) = unat w"
  for w :: "'a::len word"
  by (simp add: unsigned_ucast_eq take_bit_nat_eq_self)

lemma unat_ucast_up: "LENGTH('a) \<le> LENGTH('b) \<Longrightarrow> unat (ucast w :: 'b::len word) = unat w"
  for w :: "'a::len word"
  by (rule unat_ucast_small)
    (meson less_le_trans one_le_numeral power_increasing unsigned_less)

lemma unat_narrow_or_zero:
  "unat (narrow_or_zero w :: 'b::len word) = (if unat w < 2 ^ LENGTH('b) then unat w else 0)"
  for w :: "'a::len word"
  by (simp add: narrow_or_zero_def unat_ucast_small)

lemma ucast_down_up: "LENGTH('a) \<le> LENGTH('b) \<Longrightarrow> ucast (ucast w :: 'b::len word) = w"
  for w :: "'a::len word"
  by (rule word_unat_eq_iff [THEN iffD2], subst unat_ucast_small) (simp_all add: unat_ucast_up)

lemma narrow_or_zero_ucast: "LENGTH('b) \<le> LENGTH('a) \<Longrightarrow>
    narrow_or_zero (ucast w :: 'a::len word) = w"
  for w :: "'b::len word"
  by (simp add: narrow_or_zero_def unat_ucast_up ucast_down_up)

lemma ucast_up_inj: "LENGTH('a) \<le> LENGTH('b) \<Longrightarrow>
    (ucast w :: 'b::len word) = ucast w' \<longleftrightarrow> w = w'"
  for w w' :: "'a::len word"
  by (metis ucast_down_up)

lemma narrow_u64_u256 [simp]: "narrow_or_zero (ucast (w :: u64) :: u256) = w"
  by (simp add: narrow_or_zero_ucast)

lemma ucast_u64_u256_inj [simp]: "(ucast (w :: u64) :: u256) = ucast w' \<longleftrightarrow> w = w'"
  by (simp add: ucast_up_inj)

lemma unat_u64_u256 [simp]: "unat (ucast (w :: u64) :: u256) = unat w"
  by (simp add: unat_ucast_up)

lemma unat_plus_one: "unat w + 1 < 2 ^ LENGTH('a) \<Longrightarrow> unat (w + 1) = unat w + 1"
  for w :: "'a::len word"
  by (metis unat_1 unat_add_lem)

lemma unat_uminus: "w \<noteq> 0 \<Longrightarrow> unat (- w) = 2 ^ LENGTH('a) - unat w"
  for w :: "'a::len word"
  using unat_sub_if' [of 0 w] by (simp add: unat_gt_0 [symmetric])

lemma sint_unat: "sint w = int (unat w) - (if bit w (LENGTH('a) - 1) then 2 ^ LENGTH('a) else 0)"
  for w :: "'a::len word"
proof -
  have "take_bit LENGTH('a) (uint w) = uint w"
    by (rule take_bit_int_eq_self) (simp_all add: unsigned_less)
  then show ?thesis
    by (simp add: sint_uint signed_take_bit_eq_take_bit_minus bit_uint_iff)
qed

lemma mix_div: "y < b \<Longrightarrow> (x * b + y) div b = x"
  for b :: nat
  by (cases "b = 0") simp_all

lemma mix_mod: "y < b \<Longrightarrow> (x * b + y) mod b = y"
  for b :: nat
  by simp

lemma last_nth: "p < length xs \<Longrightarrow> last xs = xs ! (length xs - 1)"
  by (cases "xs = []") (simp_all add: last_conv_nth)

lemma last_mem: "p < length xs \<Longrightarrow> last xs \<in> set xs"
  by (cases "xs = []") simp_all

text \<open>Counters: numbers below 2^64 as \<open>u64\<close> and as the \<open>U256\<close> they are stored as.\<close>

lemma of_nat_u64_eq_iff: "m < 2 ^ 64 \<Longrightarrow> n < 2 ^ 64 \<Longrightarrow> (of_nat m :: u64) = of_nat n \<longleftrightarrow> m = n"
  by (auto simp: of_nat_inverse unat_of_nat dest: arg_cong [where f = unat])

lemma of_nat_u64_neq_01:
  assumes "2 \<le> n" and "n < 2 ^ 64"
  shows "(of_nat n :: u64) \<noteq> 0" and "(of_nat n :: u64) \<noteq> 1"
  using assms of_nat_u64_eq_iff [of n 0] of_nat_u64_eq_iff [of n 1] by simp_all

lemma narrow_of_nat: "n < 2 ^ 64 \<Longrightarrow> narrow_or_zero (of_nat n :: u256) = (of_nat n :: u64)"
  by (simp add: word_unat_eq_iff unat_narrow_or_zero unat_of_nat)

lemma ucast_of_nat_u64: "n < 2 ^ 64 \<Longrightarrow> (ucast (of_nat n :: u64) :: u256) = of_nat n"
  by (simp add: word_unat_eq_iff unat_of_nat)

lemma of_nat_u64_less_iff: "m < 2 ^ 64 \<Longrightarrow> n < 2 ^ 64 \<Longrightarrow> (of_nat m :: u64) < of_nat n \<longleftrightarrow> m < n"
  by (simp add: word_less_nat_alt unat_of_nat)

lemma of_nat_u64_le_iff: "m < 2 ^ 64 \<Longrightarrow> n < 2 ^ 64 \<Longrightarrow> (of_nat m :: u64) \<le> of_nat n \<longleftrightarrow> m \<le> n"
  by (simp add: word_le_nat_alt unat_of_nat)

lemma of_nat_u64_zero_iff: "n < 2 ^ 64 \<Longrightarrow> (of_nat n :: u64) = 0 \<longleftrightarrow> n = 0"
  using of_nat_u64_eq_iff [of n 0] by simp

lemma of_nat_u256_zero_iff: "n < 2 ^ 64 \<Longrightarrow> (of_nat n :: u256) = 0 \<longleftrightarrow> n = 0"
  by (simp add: word_unat_eq_iff unat_of_nat)

lemma unat_of_nat_u64: "n < 2 ^ 64 \<Longrightarrow> unat (of_nat n :: u64) = n"
  by (simp add: unat_of_nat)

lemma to_or_panic_of_nat: "n < 2 ^ 64 \<Longrightarrow> to_or_panic (of_nat n :: u256) = ret (of_nat n :: u64)"
proof -
  assume n: "n < 2 ^ 64"
  then have "(ucast (of_nat n :: u256) :: u64) = of_nat n"
    by (simp add: word_unat_eq_iff unsigned_ucast_eq unat_of_nat take_bit_eq_mod)
  with n show ?thesis
    by (simp add: to_or_panic_def unat_of_nat)
qed

lemmas counter_simps = of_nat_u64_less_iff of_nat_u64_le_iff of_nat_u64_zero_iff of_nat_u256_zero_iff
  unat_of_nat_u64 narrow_of_nat ucast_of_nat_u64 to_or_panic_of_nat

lemma bit_top_iff: "bit w (LENGTH('a) - 1) \<longleftrightarrow> 2 ^ (LENGTH('a) - 1) \<le> unat w"
  for w :: "'a::len word"
proof -
  let ?p = "2 ^ (LENGTH('a) - 1) :: nat"
  have "unat w < 2 * ?p"
    using unat_bound [of w] by (simp flip: power_Suc)
  then have "unat w div ?p < 2"
    by (simp add: less_mult_imp_div_less)
  moreover have "bit w (LENGTH('a) - 1) \<longleftrightarrow> odd (unat w div ?p)"
    by (simp add: bit_iff_odd [symmetric] bit_unsigned_iff)
  moreover have "?p \<le> unat w \<longleftrightarrow> unat w div ?p \<noteq> 0"
    by (simp add: div_eq_0_iff not_less)
  ultimately show ?thesis
    by (metis One_nat_def less_2_cases_iff odd_one even_zero)
qed

section \<open>Byte strings\<close>

text \<open>\<open>to_be_bytes\<close> of an \<open>n\<close>-byte integer, and \<open>from_be_bytes\<close>.\<close>

primrec be_bytes :: "nat \<Rightarrow> 'a::len word \<Rightarrow> bytes" where
  "be_bytes 0 w = []"
| "be_bytes (Suc n) w = ucast (drop_bit (8 * n) w) # be_bytes n w"

definition from_be :: "bytes \<Rightarrow> 'a::len word" where
  "from_be bs = foldl (\<lambda>acc b. acc * 256 + ucast b) 0 bs"

definition le_bytes :: "nat \<Rightarrow> 'a::len word \<Rightarrow> bytes" where
  "le_bytes n w = rev (be_bytes n w)"

text \<open>The number a byte string denotes.\<close>

definition be_nat :: "bytes \<Rightarrow> nat" where
  "be_nat bs = foldl (\<lambda>acc b. acc * 256 + unat b) 0 bs"

lemma length_be_bytes [simp]: "length (be_bytes n w) = n"
  by (induction n) simp_all

lemma be_nat_foldl: "foldl (\<lambda>acc b. acc * 256 + unat b) a bs = a * 256 ^ length bs + be_nat bs"
proof (induction bs arbitrary: a)
  case Nil
  then show ?case by (simp add: be_nat_def)
next
  case (Cons b bs)
  have "be_nat (b # bs) = foldl (\<lambda>acc b. acc * 256 + unat b) (unat b) bs"
    by (simp add: be_nat_def)
  with Cons.IH [of "a * 256 + unat b"] Cons.IH [of "unat b"] show ?case
    by (simp add: algebra_simps)
qed

lemma be_nat_Nil [simp]: "be_nat [] = 0"
  by (simp add: be_nat_def)

lemma be_nat_Cons: "be_nat (b # bs) = unat b * 256 ^ length bs + be_nat bs"
  using be_nat_foldl [of "unat b" bs] by (simp add: be_nat_def)

lemma be_nat_append: "be_nat (xs @ ys) = be_nat xs * 256 ^ length ys + be_nat ys"
  by (induction xs) (simp_all add: be_nat_Cons power_add algebra_simps)

lemma be_nat_bound: "be_nat bs < 256 ^ length bs"
proof (induction bs)
  case Nil
  then show ?case by simp
next
  case (Cons b bs)
  have "unat b < 2 ^ LENGTH(8)"
    by (rule unsigned_less)
  then have "unat b \<le> 255" by simp
  then have "unat b * 256 ^ length bs \<le> 255 * 256 ^ length bs"
    by (rule mult_right_mono) simp
  with Cons.IH have "unat b * 256 ^ length bs + be_nat bs < 255 * 256 ^ length bs + 256 ^ length bs"
    by linarith
  then show ?case
    by (simp add: be_nat_Cons)
qed

lemma be_nat_inj: "length xs = length ys \<Longrightarrow> be_nat xs = be_nat ys \<Longrightarrow> xs = ys"
proof (induction xs ys rule: list_induct2)
  case Nil
  then show ?case by simp
next
  case (Cons x xs y ys)
  let ?p = "256 ^ length xs :: nat"
  have eq: "unat x * ?p + be_nat xs = unat y * ?p + be_nat ys"
    using Cons.prems Cons.hyps by (simp add: be_nat_Cons)
  have small: "be_nat xs < ?p" "be_nat ys < ?p"
    using be_nat_bound [of xs] be_nat_bound [of ys] Cons.hyps by simp_all
  have "unat x = (unat x * ?p + be_nat xs) div ?p" "unat y = (unat y * ?p + be_nat ys) div ?p"
    using small by simp_all
  then have "unat x = unat y" using eq by simp
  moreover from this eq have "be_nat xs = be_nat ys" by simp
  ultimately show ?case
    using Cons.IH by (simp add: word_unat_eq_iff)
qed

lemma unat_ucast_u8: "unat (ucast w :: u8) = unat w mod 256"
  by (simp add: unsigned_ucast_eq take_bit_eq_mod)

lemma unat_drop_bit_div: "unat (drop_bit n w) = unat w div 2 ^ n"
  by (simp only: unat_drop_bit_eq) (simp add: drop_bit_eq_div)

lemma be_nat_be_bytes: "be_nat (be_bytes n w) = unat w mod 256 ^ n"
proof (induction n)
  case 0
  then show ?case by simp
next
  case (Suc n)
  have "unat (ucast (drop_bit (8 * n) w) :: u8) = unat w div 256 ^ n mod 256"
    by (simp add: unat_ucast_u8 unat_drop_bit_div power_mult)
  then have "be_nat (be_bytes (Suc n) w) = (unat w div 256 ^ n mod 256) * 256 ^ n + unat w mod 256 ^ n"
    by (simp add: be_nat_Cons Suc.IH)
  also have "\<dots> = unat w mod 256 ^ Suc n"
    using mod_mult2_eq [of "unat w" "256 ^ n" 256] by (simp add: algebra_simps)
  finally show ?case .
qed

lemma from_be_of_nat: "from_be bs = of_nat (be_nat bs)"
proof -
  have "foldl (\<lambda>acc b. acc * 256 + ucast b) (of_nat a) bs
      = (of_nat (foldl (\<lambda>acc b. acc * 256 + unat b) a bs) :: 'a word)" for a
  proof (induction bs arbitrary: a)
    case Nil
    then show ?case by simp
  next
    case (Cons b bs)
    have "(ucast b :: 'a word) = of_nat (unat b)"
      by simp
    then have "of_nat a * 256 + (ucast b :: 'a word) = of_nat (a * 256 + unat b)"
      by simp
    then show ?case
      by (simp only: foldl_Cons Cons.IH)
  qed
  from this [of 0] show ?thesis
    by (simp add: from_be_def be_nat_def)
qed

lemma unat_from_be: "8 * length bs \<le> LENGTH('a) \<Longrightarrow> unat (from_be bs :: 'a::len word) = be_nat bs"
proof -
  assume len: "8 * length bs \<le> LENGTH('a)"
  have "be_nat bs < 2 ^ (8 * length bs)"
    using be_nat_bound [of bs] by (simp add: power_mult)
  also have "\<dots> \<le> 2 ^ LENGTH('a)"
    using len by (simp add: power_increasing)
  finally show ?thesis
    by (simp add: from_be_of_nat unat_of_nat)
qed

theorem from_be_bytes: "LENGTH('a) = 8 * n \<Longrightarrow> from_be (be_bytes n w) = w"
  for w :: "'a::len word"
proof -
  assume len: "LENGTH('a) = 8 * n"
  have "unat w < 256 ^ n"
    using unsigned_less [of w] len by (simp add: power_mult)
  then show ?thesis
    by (simp add: word_unat_eq_iff unat_from_be len be_nat_be_bytes)
qed

theorem be_bytes_from_be: "8 * length bs \<le> LENGTH('a) \<Longrightarrow> be_bytes (length bs) (from_be bs :: 'a::len word) = bs"
  by (rule be_nat_inj) (simp_all add: be_nat_be_bytes unat_from_be be_nat_bound)

lemma be_bytes_inj: "LENGTH('a) = 8 * n \<Longrightarrow> be_bytes n w = be_bytes n w' \<longleftrightarrow> w = w'"
  for w w' :: "'a::len word"
  by (metis from_be_bytes)

lemma be_bytes_zero: "be_bytes n 0 = replicate n 0"
  by (induction n) simp_all

lemma be_nat_zeros [simp]: "be_nat (replicate n 0) = 0"
  by (induction n) (simp_all add: be_nat_Cons)

lemma be_nat_ones: "be_nat (replicate n 0xFF) = 256 ^ n - 1"
proof (induction n)
  case 0
  then show ?case by simp
next
  case (Suc n)
  have "(1 :: nat) \<le> 256 ^ n" by simp
  with Suc show ?case by (simp add: be_nat_Cons)
qed

lemma be_bytes_append: "be_bytes (m + n) w = be_bytes m (drop_bit (8 * n) w) @ be_bytes n w"
  by (induction m) (simp_all add: algebra_simps drop_bit_drop_bit)

lemma take_be_bytes: "take m (be_bytes (m + n) w) = be_bytes m (drop_bit (8 * n) w)"
  by (simp add: be_bytes_append)

lemma drop_be_bytes: "drop m (be_bytes (m + n) w) = be_bytes n w"
  by (simp add: be_bytes_append)

lemma be_bytes_ucast:
  fixes w :: "'a::len word"
  assumes "8 * n \<le> LENGTH('a)" and "8 * n \<le> LENGTH('b)"
  shows "be_bytes n (ucast w :: 'b::len word) = be_bytes n w"
proof (rule be_nat_inj)
  have "unat (ucast w :: 'b word) mod 256 ^ n = unat w mod 2 ^ LENGTH('b) mod 2 ^ (8 * n)"
    by (simp add: unsigned_ucast_eq take_bit_eq_mod power_mult)
  also have "\<dots> = unat w mod 2 ^ (8 * n)"
    using assms(2) by (simp add: mod_mod_cancel le_imp_power_dvd)
  finally show "be_nat (be_bytes n (ucast w :: 'b word)) = be_nat (be_bytes n w)"
    by (simp add: be_nat_be_bytes power_mult)
qed simp

lemma from_be_padded:
  fixes w :: "'a::len word"
  assumes "LENGTH('a) = 8 * n" and "8 * (m + n) \<le> LENGTH('b)"
  shows "(from_be (replicate m 0 @ be_bytes n w) :: 'b::len word) = ucast w"
proof -
  have "unat w < 256 ^ n"
    using unat_bound [of w] assms(1) by (simp add: power_mult)
  then have "unat (from_be (replicate m 0 @ be_bytes n w) :: 'b word) = unat w"
    using assms(2) by (simp add: unat_from_be be_nat_append be_nat_be_bytes)
  then show ?thesis
    using assms by (simp add: word_unat_eq_iff unat_ucast_up)
qed

lemma from_be_truncated:
  fixes w :: "'a::len word"
  assumes "LENGTH('b) = 8 * n"
  shows "(from_be (be_bytes n w) :: 'b::len word) = ucast w"
  using assms
  by (simp add: word_unat_eq_iff unat_from_be be_nat_be_bytes unsigned_ucast_eq take_bit_eq_mod
      power_mult)

end
