(* ===== verification/State_Ops.thy ===== *)
theory State_Ops
  imports Prelude
begin

text \<open>
  The executor's account state as \<open>crates/arb-storage/src/state_ops.rs\<close> reads and writes it:
  a cache of accounts over a bundle of pending changes over the database. The types of
  \<open>revm\<close> keep the fields the source touches. What \<open>revm\<close> computes itself is the parameter
  \<open>revm\<close> (a record of functions), and \<open>revm_ok\<close> says what the source relies on.

  \<open>view\<close> is the value a slot holds. Reading returns it, and a write changes it at the
  written slot only, whatever layer the slot was found in.
\<close>

section \<open>Errors of the storage layer\<close>

datatype database_error = Read string | Write string | Custom string

datatype storage_error =
    Database database_error
  | InvalidLayout u256 string
  | Invariant string

definition db_read_error :: "string \<Rightarrow> storage_error" where
  "db_read_error message = Database (Read message)"

section \<open>Account state\<close>

record account_info =
  balance :: u256
  nonce :: u64
  code_hash :: u256
  code :: "bytes option"
  account_id :: "nat option"

record plain_account =
  info :: account_info
  storage :: "u256 \<rightharpoonup> u256"

text \<open>The one status the source names, and the others as \<open>revm\<close> numbers them.\<close>

datatype account_status = InMemoryChange | OtherStatus nat

record cache_account =
  account :: "plain_account option"
  status :: account_status

record storage_slot =
  original_value :: u256
  present_value :: u256

record transition_account =
  t_info :: "account_info option"
  t_status :: account_status
  previous_info :: "account_info option"
  previous_status :: account_status
  t_storage :: "u256 \<rightharpoonup> storage_slot"
  storage_was_destroyed :: bool

record state =
  cache :: "address \<rightharpoonup> cache_account"
  bundle_state :: "address \<rightharpoonup> (u256 \<rightharpoonup> storage_slot)"
  database :: "address \<Rightarrow> u256 \<Rightarrow> (u256, string) result"
  database_basic :: "address \<Rightarrow> (account_info option, string) result"
  transition_state :: "(address \<times> transition_account) list"

record revm =
  load_cache_account :: "state \<Rightarrow> address \<Rightarrow> state"
  on_changed :: "account_status \<Rightarrow> bool \<Rightarrow> account_status"
  has_no_code_and_nonce :: "account_info \<Rightarrow> bool"
  apply_transition :: "state \<Rightarrow> (address \<times> transition_account) list \<Rightarrow> state"
  new_raw :: "bytes \<Rightarrow> bytes"

type_synonym keccak = "bytes \<Rightarrow> u256"

definition ARBOS_STATE_ADDRESS :: address where
  "ARBOS_STATE_ADDRESS = 0xA4B05FFFFFFFFFFFFFFFFFFFFFFFFFFFFFFFFFFF"

abbreviation FILTERED_TX_STATE_ADDRESS :: address where
  "FILTERED_TX_STATE_ADDRESS \<equiv> 0xa4b0500000000000000000000000000000000001"

definition ensure_cache_account :: "revm \<Rightarrow> keccak \<Rightarrow> state \<Rightarrow> address \<Rightarrow> state" where
  "ensure_cache_account E H st addr =
     (let st1 = load_cache_account E st addr in
      case cache st1 addr of
        Some cached \<Rightarrow>
          (case account cached of
             None \<Rightarrow>
               st1\<lparr>cache := (cache st1)(addr \<mapsto> cached\<lparr>
                 account := Some \<lparr>
                   info = \<lparr>balance = 0, nonce = 0, code_hash = H [], code = None,
                            account_id = None\<rparr>,
                   storage = Map.empty\<rparr>,
                 status := InMemoryChange\<rparr>)\<rparr>
           | Some _ \<Rightarrow> st1)
      | None \<Rightarrow> st1)"

text \<open>The value of a slot in the cache, else in the bundle; \<open>None\<close> where only the database has it.\<close>

definition cached_value :: "state \<Rightarrow> address \<Rightarrow> u256 \<Rightarrow> u256 option" where
  "cached_value st acct slot =
     Option.bind (cache st acct) (\<lambda>ca. Option.bind (account ca) (\<lambda>a. storage a slot))"

definition bundle_value :: "state \<Rightarrow> address \<Rightarrow> u256 \<Rightarrow> u256 option" where
  "bundle_value st acct slot =
     map_option present_value (Option.bind (bundle_state st acct) (\<lambda>a. a slot))"

definition read_storage_at :: "address \<Rightarrow> u256 \<Rightarrow> (state, u256, storage_error) comp" where
  "read_storage_at acct slot st =
     (case cached_value st acct slot of
        Some v \<Rightarrow> (Ok v, st)
      | None \<Rightarrow>
          (case bundle_value st acct slot of
             Some v \<Rightarrow> (Ok v, st)
           | None \<Rightarrow>
               (case database st acct slot of
                  Ok v \<Rightarrow> (Ok v, st)
                | Err e \<Rightarrow> (Err (db_read_error e), st)
                | Panic \<Rightarrow> (Panic, st))))"

definition write_storage_at ::
  "revm \<Rightarrow> keccak \<Rightarrow> address \<Rightarrow> u256 \<Rightarrow> u256 \<Rightarrow> (state, unit, storage_error) comp" where
  "write_storage_at E H acct slot val st0 =
     (let st = ensure_cache_account E H st0 acct;
          current_value = (case cached_value st acct slot of
                             Some v \<Rightarrow> Some v
                           | None \<Rightarrow> bundle_value st acct slot)
      in case database st acct slot of
           Err e \<Rightarrow> (Err (db_read_error e), st)
         | Panic \<Rightarrow> (Panic, st)
         | Ok original \<Rightarrow>
             let prev_value = (case current_value of Some v \<Rightarrow> v | None \<Rightarrow> original) in
             if val = prev_value then (Ok (), st)
             else (case cache st acct of
                 None \<Rightarrow> (Ok (), st)
               | Some cached_acc \<Rightarrow>
                   let had_no_nonce_and_code = (case account cached_acc of
                           Some a \<Rightarrow> has_no_code_and_nonce E (info a) | None \<Rightarrow> False);
                       acc_info = map_option info (account cached_acc);
                       current_status = on_changed E (status cached_acc) had_no_nonce_and_code;
                       cached_acc' = cached_acc\<lparr>
                         account := map_option (\<lambda>a. a\<lparr>storage := (storage a)(slot \<mapsto> val)\<rparr>)
                                      (account cached_acc),
                         status := current_status\<rparr>;
                       transition = \<lparr>
                         t_info = acc_info, t_status = current_status,
                         previous_info = acc_info, previous_status = status cached_acc,
                         t_storage = [slot \<mapsto> \<lparr>original_value = original, present_value = val\<rparr>],
                         storage_was_destroyed = False\<rparr>
                   in (Ok (), apply_transition E
                        (st\<lparr>cache := (cache st)(acct \<mapsto> cached_acc')\<rparr>) [(acct, transition)])))"

definition write_arbos_storage ::
  "revm \<Rightarrow> keccak \<Rightarrow> u256 \<Rightarrow> u256 \<Rightarrow> (state, unit, storage_error) comp" where
  "write_arbos_storage E H slot val = write_storage_at E H ARBOS_STATE_ADDRESS slot val"

definition get_account_balance :: "state \<Rightarrow> address \<Rightarrow> u256" where
  "get_account_balance st addr =
     (case Option.bind (cache st addr) account of
        Some a \<Rightarrow> balance (info a)
      | None \<Rightarrow>
          (case database_basic st addr of
             Ok (Some i) \<Rightarrow> balance i
           | _ \<Rightarrow> 0))"

text \<open>The part \<open>set_account_nonce\<close> and \<open>set_account_code\<close> share: change the account's
  information in the cache and record the transition.\<close>

definition change_account_info ::
  "revm \<Rightarrow> keccak \<Rightarrow> address \<Rightarrow> (account_info \<Rightarrow> account_info) \<Rightarrow> state \<Rightarrow> state" where
  "change_account_info E H addr f st0 =
     (let st = ensure_cache_account E H st0 addr in
      case cache st addr of
        None \<Rightarrow> st
      | Some cached_acc \<Rightarrow>
          let prev_info = map_option info (account cached_acc);
              account' = map_option (\<lambda>a. a\<lparr>info := f (info a)\<rparr>) (account cached_acc);
              had_no_nonce_and_code = (case prev_info of
                  Some i \<Rightarrow> has_no_code_and_nonce E i | None \<Rightarrow> False);
              current_status = on_changed E (status cached_acc) had_no_nonce_and_code;
              transition = \<lparr>
                t_info = map_option info account', t_status = current_status,
                previous_info = prev_info, previous_status = status cached_acc,
                t_storage = Map.empty, storage_was_destroyed = False\<rparr>
          in apply_transition E
               (st\<lparr>cache := (cache st)(addr \<mapsto>
                  cached_acc\<lparr>account := account', status := current_status\<rparr>)\<rparr>)
               [(addr, transition)])"

definition set_account_nonce :: "revm \<Rightarrow> keccak \<Rightarrow> address \<Rightarrow> u64 \<Rightarrow> state \<Rightarrow> state" where
  "set_account_nonce E H addr n = change_account_info E H addr (\<lambda>i. i\<lparr>nonce := n\<rparr>)"

definition set_account_code :: "revm \<Rightarrow> keccak \<Rightarrow> address \<Rightarrow> bytes \<Rightarrow> state \<Rightarrow> state" where
  "set_account_code E H addr bs =
     change_account_info E H addr (\<lambda>i. i\<lparr>code_hash := H bs, code := Some (new_raw E bs)\<rparr>)"

section \<open>What the source relies on\<close>

text \<open>
  \<open>load_cache_account\<close> puts the account into the cache unless it is there, keeps every
  other account, and a slot it brings along has the value the layers below give it.
  \<open>apply_transition\<close> records the transition and leaves the values alone.
\<close>

definition loads_cache_account :: "state \<Rightarrow> address \<Rightarrow> state \<Rightarrow> bool" where
  "loads_cache_account st a st' \<longleftrightarrow>
     bundle_state st' = bundle_state st \<and> database st' = database st \<and>
     database_basic st' = database_basic st \<and>
     (\<forall>b. b \<noteq> a \<longrightarrow> cache st' b = cache st b) \<and>
     (cache st a \<noteq> None \<longrightarrow> cache st' a = cache st a) \<and>
     (cache st a = None \<longrightarrow> cache st' a \<noteq> None \<and>
        (\<forall>k v. cached_value st' a k = Some v \<longrightarrow> bundle_value st a k = Some v))"

definition revm_ok :: "revm \<Rightarrow> bool" where
  "revm_ok E \<longleftrightarrow>
     (\<forall>st a. loads_cache_account st a (load_cache_account E st a)) \<and>
     (\<forall>st ts. cache (apply_transition E st ts) = cache st \<and>
        bundle_state (apply_transition E st ts) = bundle_state st \<and>
        database (apply_transition E st ts) = database st \<and>
        database_basic (apply_transition E st ts) = database_basic st)"

text \<open>The database answers every read.\<close>

definition db_ok :: "state \<Rightarrow> bool" where
  "db_ok st \<longleftrightarrow> (\<forall>a k. \<exists>v. database st a k = Ok v)"

definition view :: "state \<Rightarrow> address \<Rightarrow> u256 \<Rightarrow> u256" where
  "view st a k = (case cached_value st a k of
      Some v \<Rightarrow> v
    | None \<Rightarrow> (case bundle_value st a k of
        Some v \<Rightarrow> v
      | None \<Rightarrow> (case database st a k of Ok v \<Rightarrow> v | _ \<Rightarrow> 0)))"

section \<open>Reads and writes\<close>

lemma db_okE:
  assumes "db_ok st"
  obtains v where "database st a k = Ok v"
  using assms unfolding db_ok_def by blast

lemma read_storage_at_ok:
  assumes "db_ok st"
  shows "read_storage_at a k st = (Ok (view st a k), st)"
proof -
  obtain v where "database st a k = Ok v"
    using db_okE [OF assms] .
  then show ?thesis
    by (simp add: read_storage_at_def view_def split: option.splits)
qed

lemma revm_okD:
  assumes "revm_ok E"
  shows "loads_cache_account st a (load_cache_account E st a)"
    and "cache (apply_transition E st ts) = cache st"
    and "bundle_state (apply_transition E st ts) = bundle_state st"
    and "database (apply_transition E st ts) = database st"
    and "database_basic (apply_transition E st ts) = database_basic st"
  using assms by (simp_all add: revm_ok_def)

lemma value_at_simps:
  "bundle_state st' = bundle_state st \<Longrightarrow> bundle_value st' a k = bundle_value st a k"
  "cache st' a = cache st a \<Longrightarrow> cached_value st' a k = cached_value st a k"
  by (simp_all add: bundle_value_def cached_value_def)

text \<open>Making sure an account is cached changes no value.\<close>

lemma ensure_cache_account_frame:
  assumes "revm_ok E"
  shows "bundle_state (ensure_cache_account E H st a) = bundle_state st"
    and "database (ensure_cache_account E H st a) = database st"
    and "\<exists>c p. cache (ensure_cache_account E H st a) a = Some c \<and> account c = Some p"
  using revm_okD(1) [OF assms, of st a]
  by (auto simp: ensure_cache_account_def loads_cache_account_def Let_def split: option.splits)

lemma cached_value_ensure:
  assumes E: "revm_ok E"
  shows "cached_value (ensure_cache_account E H st a) b k = cached_value (load_cache_account E st a) b k"
  using revm_okD(1) [OF E, of st a]
  by (auto simp: ensure_cache_account_def loads_cache_account_def cached_value_def Let_def
      split: option.splits)

lemma cached_value_load:
  assumes "revm_ok E"
  shows "cached_value (load_cache_account E st a) b k = cached_value st b k \<or>
     cached_value st b k = None \<and>
     cached_value (load_cache_account E st a) b k = bundle_value st b k"
proof (cases "b = a \<and> cache st a = None")
  case True
  then have "cached_value st b k = None"
    by (simp add: cached_value_def)
  moreover have "cached_value (load_cache_account E st a) a k = None \<or>
      cached_value (load_cache_account E st a) a k = bundle_value st a k"
    using revm_okD(1) [OF assms, of st a] True
    by (cases "cached_value (load_cache_account E st a) a k") (auto simp: loads_cache_account_def)
  ultimately show ?thesis using True by auto
next
  case False
  then have "cache (load_cache_account E st a) b = cache st b"
    using revm_okD(1) [OF assms, of st a] by (auto simp: loads_cache_account_def)
  then show ?thesis by (simp add: cached_value_def)
qed

lemma view_ensure:
  assumes "revm_ok E"
  shows "view (ensure_cache_account E H st a) b k = view st b k"
  using cached_value_load [OF assms, of st a b k]
  by (auto simp: view_def cached_value_ensure [OF assms] ensure_cache_account_frame [OF assms]
      value_at_simps(1) [OF ensure_cache_account_frame(1) [OF assms]] split: option.splits)

lemma db_ok_ensure: "revm_ok E \<Longrightarrow> db_ok st \<Longrightarrow> db_ok (ensure_cache_account E H st a)"
  by (simp add: db_ok_def ensure_cache_account_frame)

text \<open>
  The write path: the slot gets the value, every other slot of every account keeps its
  own, and the database still answers.
\<close>

lemma write_storage_at_ok:
  assumes E: "revm_ok E" and db: "db_ok st"
  obtains st' where "write_storage_at E H a k v st = (Ok (), st')"
    and "db_ok st'"
    and "\<And>b j. view st' b j = (if b = a \<and> j = k then v else view st b j)"
proof -
  let ?s = "ensure_cache_account E H st a"
  obtain c p where c: "cache ?s a = Some c" and p: "account c = Some p"
    using ensure_cache_account_frame(3) [OF E] by blast
  obtain orig where orig: "database ?s a k = Ok orig"
    using db_okE [OF db_ok_ensure [OF E db]] .
  let ?prev = "view ?s a k"
  have prev: "(case (case cached_value ?s a k of Some v \<Rightarrow> Some v | None \<Rightarrow> bundle_value ?s a k) of
        Some v \<Rightarrow> v | None \<Rightarrow> orig) = ?prev"
    using orig by (simp add: view_def split: option.splits)
  show thesis
  proof (cases "v = ?prev")
    case True
    then have w: "write_storage_at E H a k v st = (Ok (), ?s)"
      by (simp add: write_storage_at_def Let_def orig prev)
    have "view ?s b j = (if b = a \<and> j = k then v else view st b j)" for b j
      using True by (simp add: view_ensure [OF E])
    then show thesis
      by (rule that [OF w db_ok_ensure [OF E db]])
  next
    case False
    define st' where "st' = snd (write_storage_at E H a k v st)"
    have w: "write_storage_at E H a k v st = (Ok (), st')"
      using False by (simp add: st'_def write_storage_at_def Let_def orig prev c)
    have ca: "cache st' = (cache ?s)(a \<mapsto> c\<lparr>account := Some (p\<lparr>storage := (storage p)(k \<mapsto> v)\<rparr>),
                 status := on_changed E (status c) (has_no_code_and_nonce E (info p))\<rparr>)"
      and bu: "bundle_state st' = bundle_state ?s" and da: "database st' = database ?s"
      using False
      by (simp_all add: st'_def write_storage_at_def Let_def orig prev c p revm_okD(2-5) [OF E])
    have "view st' b j = (if b = a \<and> j = k then v else view ?s b j)" for b j
      by (simp add: view_def value_at_simps(1) [OF bu] da cached_value_def ca c p split: option.splits)
    moreover have "db_ok st'"
      using db_ok_ensure [OF E db] by (simp add: db_ok_def da)
    ultimately show thesis
      using that [OF w] by (simp add: view_ensure [OF E])
  qed
qed

end
