(* ===== verification/Storage.thy ===== *)
theory Storage
  imports State_Ops
begin

text \<open>
  The storage layer of \<open>crates/arb-storage/src\<close>: slot derivation (\<open>slot.rs\<close>, \<open>layout.rs\<close>),
  hierarchical storage handles (\<open>storage.rs\<close>), the backend trait (\<open>backend.rs\<close>) as a
  record of operations with its \<open>State\<close> instance, and the typed accessors
  (\<open>backed_types.rs\<close>, \<open>extra_types.rs\<close>). The hash function is the parameter \<open>H\<close>.

  The locale \<open>arb_store\<close> is the interface the ArbOS components rely on: a store of cells,
  one for each account, subspace key and 32-byte key, in which a write changes the
  written cell and no other cell of the footprint \<open>F\<close>. It is interpreted on the \<open>State\<close>
  backend, where the separation of cells is that the hash keeps the footprint's slots
  apart (\<open>slots_sep\<close>).
\<close>

section \<open>Slot derivation\<close>

definition storage_key :: "u256 \<Rightarrow> bytes" where
  "storage_key base_key = (if base_key = 0 then [] else be_bytes 32 base_key)"

definition storage_key_map :: "keccak \<Rightarrow> bytes \<Rightarrow> u64 \<Rightarrow> u256" where
  "storage_key_map H sk offset =
     (let key_bytes = replicate 24 0 @ be_bytes 8 offset;
          h = be_bytes 32 (H (sk @ take 31 key_bytes))
      in from_be (take 31 h @ [key_bytes ! 31]))"

definition storage_key_map_b256 :: "keccak \<Rightarrow> bytes \<Rightarrow> u256 \<Rightarrow> u256" where
  "storage_key_map_b256 H sk key =
     (let key_bytes = be_bytes 32 key;
          h = be_bytes 32 (H (sk @ take 31 key_bytes))
      in from_be (take 31 h @ [key_bytes ! 31]))"

definition derive_sub_key :: "keccak \<Rightarrow> u256 \<Rightarrow> bytes \<Rightarrow> u256" where
  "derive_sub_key H parent_key sub_key = H (storage_key parent_key @ sub_key)"

definition compute_slot :: "keccak \<Rightarrow> u256 \<Rightarrow> u64 \<Rightarrow> u256" where
  "compute_slot H base_key offset = storage_key_map H (storage_key base_key) offset"

definition slot :: "keccak \<Rightarrow> u256 \<Rightarrow> u256 \<Rightarrow> u256" where
  "slot H base_key key = storage_key_map_b256 H (storage_key base_key) key"

subsection \<open>The second copy of the derivation, in the layout module\<close>

definition map_slot :: "keccak \<Rightarrow> bytes \<Rightarrow> u64 \<Rightarrow> u256" where
  "map_slot H sk offset =
     (let key_bytes = replicate 24 0 @ be_bytes 8 offset;
          h = be_bytes 32 (H (sk @ take 31 key_bytes))
      in from_be (take 31 h @ [key_bytes ! 31]))"

definition map_slot_b256 :: "keccak \<Rightarrow> bytes \<Rightarrow> u256 \<Rightarrow> u256" where
  "map_slot_b256 H sk key =
     (let key_bytes = be_bytes 32 key;
          h = be_bytes 32 (H (sk @ take 31 key_bytes))
      in from_be (take 31 h @ [key_bytes ! 31]))"

definition derive_subspace_key :: "keccak \<Rightarrow> bytes \<Rightarrow> bytes \<Rightarrow> u256" where
  "derive_subspace_key H parent_key sub_key = H (parent_key @ sub_key)"

definition root_slot :: "keccak \<Rightarrow> u64 \<Rightarrow> u256" where
  "root_slot H offset = map_slot H [] offset"

definition subspace_slot :: "keccak \<Rightarrow> bytes \<Rightarrow> u64 \<Rightarrow> u256" where
  "subspace_slot H subspace_key offset =
     map_slot H (be_bytes 32 (derive_subspace_key H [] subspace_key)) offset"

definition vector_element_key :: "keccak \<Rightarrow> u256 \<Rightarrow> u64 \<Rightarrow> u256" where
  "vector_element_key H vector_key index =
     derive_subspace_key H (be_bytes 32 vector_key) (be_bytes 8 index)"

definition vector_element_field :: "keccak \<Rightarrow> u256 \<Rightarrow> u64 \<Rightarrow> u64 \<Rightarrow> u256" where
  "vector_element_field H vector_key index offset =
     map_slot H (be_bytes 32 (vector_element_key H vector_key index)) offset"

definition l2_pricing_subspace :: "keccak \<Rightarrow> u256" where
  "l2_pricing_subspace H = derive_subspace_key H [] [1]"

definition l2_vector_key :: "keccak \<Rightarrow> bytes \<Rightarrow> u256" where
  "l2_vector_key H sub_key = derive_subspace_key H (be_bytes 32 (l2_pricing_subspace H)) sub_key"

definition gas_constraints_vec_key :: "keccak \<Rightarrow> u256" where
  "gas_constraints_vec_key H = l2_vector_key H [0]"

subsection \<open>Flat storage prices\<close>

definition STORAGE_READ_GAS :: u64 where "STORAGE_READ_GAS = 800"
definition STORAGE_WRITE_GAS :: u64 where "STORAGE_WRITE_GAS = 20000"
definition STORAGE_WRITE_ZERO_GAS :: u64 where "STORAGE_WRITE_ZERO_GAS = 5000"

definition write_cost :: "bool \<Rightarrow> u64" where
  "write_cost value_is_zero = (if value_is_zero then STORAGE_WRITE_ZERO_GAS else STORAGE_WRITE_GAS)"

section \<open>Storage handles\<close>

text \<open>A handle names a subspace of an account; the state it points at is passed explicitly.\<close>

record storage_handle =
  base_key :: u256
  sto_account :: address

definition storage_new :: "u256 \<Rightarrow> storage_handle" where
  "storage_new k = \<lparr>base_key = k, sto_account = ARBOS_STATE_ADDRESS\<rparr>"

definition new_with_account :: "u256 \<Rightarrow> address \<Rightarrow> storage_handle" where
  "new_with_account k a = \<lparr>base_key = k, sto_account = a\<rparr>"

definition open_sub_storage :: "keccak \<Rightarrow> storage_handle \<Rightarrow> bytes \<Rightarrow> storage_handle" where
  "open_sub_storage H sto sub_key = sto\<lparr>base_key := derive_sub_key H (base_key sto) sub_key\<rparr>"

definition open_sub_storage_with_key :: "storage_handle \<Rightarrow> u256 \<Rightarrow> storage_handle" where
  "open_sub_storage_with_key sto key = sto\<lparr>base_key := key\<rparr>"

definition open_account :: "storage_handle \<Rightarrow> address \<Rightarrow> u256 \<Rightarrow> storage_handle" where
  "open_account sto a k = sto\<lparr>base_key := k, sto_account := a\<rparr>"

definition new_slot :: "keccak \<Rightarrow> storage_handle \<Rightarrow> u64 \<Rightarrow> u256" where
  "new_slot H sto offset = storage_key_map H (storage_key (base_key sto)) offset"

definition slot_for_key :: "keccak \<Rightarrow> storage_handle \<Rightarrow> u256 \<Rightarrow> u256" where
  "slot_for_key H sto key = storage_key_map_b256 H (storage_key (base_key sto)) key"

section \<open>The backend\<close>

record 's backend =
  sload_system :: "address \<Rightarrow> u256 \<Rightarrow> ('s, u256, storage_error) comp"
  sload :: "address \<Rightarrow> u256 \<Rightarrow> ('s, u256, storage_error) comp"
  sstore :: "address \<Rightarrow> u256 \<Rightarrow> u256 \<Rightarrow> ('s, unit, storage_error) comp"

definition state_backend :: "revm \<Rightarrow> keccak \<Rightarrow> state backend" where
  "state_backend E H =
     \<lparr>sload_system = read_storage_at, sload = read_storage_at, sstore = write_storage_at E H\<rparr>"

text \<open>Direct access through a handle.\<close>

definition get_by_uint64 ::
  "'s backend \<Rightarrow> keccak \<Rightarrow> storage_handle \<Rightarrow> u64 \<Rightarrow> ('s, u256, storage_error) comp" where
  "get_by_uint64 B H sto offset = sload_system B (sto_account sto) (new_slot H sto offset)"

definition set_by_uint64 ::
  "'s backend \<Rightarrow> keccak \<Rightarrow> storage_handle \<Rightarrow> u64 \<Rightarrow> u256 \<Rightarrow> ('s, unit, storage_error) comp" where
  "set_by_uint64 B H sto offset v = sstore B (sto_account sto) (new_slot H sto offset) v"

definition get_uint64_by_uint64 ::
  "'s backend \<Rightarrow> keccak \<Rightarrow> storage_handle \<Rightarrow> u64 \<Rightarrow> ('s, u64, storage_error) comp" where
  "get_uint64_by_uint64 B H sto offset =
     bnd (sload_system B (sto_account sto) (new_slot H sto offset)) (\<lambda>v. ret (narrow_or_zero v))"

definition set_uint64_by_uint64 ::
  "'s backend \<Rightarrow> keccak \<Rightarrow> storage_handle \<Rightarrow> u64 \<Rightarrow> u64 \<Rightarrow> ('s, unit, storage_error) comp" where
  "set_uint64_by_uint64 B H sto offset v =
     sstore B (sto_account sto) (new_slot H sto offset) (ucast v)"

definition storage_get ::
  "'s backend \<Rightarrow> keccak \<Rightarrow> storage_handle \<Rightarrow> u256 \<Rightarrow> ('s, u256, storage_error) comp" where
  "storage_get B H sto key = sload_system B (sto_account sto) (slot_for_key H sto key)"

definition storage_set ::
  "'s backend \<Rightarrow> keccak \<Rightarrow> storage_handle \<Rightarrow> u256 \<Rightarrow> u256 \<Rightarrow> ('s, unit, storage_error) comp" where
  "storage_set B H sto key v = sstore B (sto_account sto) (slot_for_key H sto key) v"

section \<open>Typed accessors\<close>

text \<open>Every accessor holds the slot of its value and nothing else.\<close>

type_synonym backed = u256

definition backed_new :: "keccak \<Rightarrow> u256 \<Rightarrow> u64 \<Rightarrow> backed" where
  "backed_new H k offset = compute_slot H k offset"

definition uint64_get :: "'s backend \<Rightarrow> backed \<Rightarrow> ('s, u64, storage_error) comp" where
  "uint64_get B self =
     bnd (sload_system B ARBOS_STATE_ADDRESS self) (\<lambda>v. ret (narrow_or_zero v))"

definition uint64_set :: "'s backend \<Rightarrow> backed \<Rightarrow> u64 \<Rightarrow> ('s, unit, storage_error) comp" where
  "uint64_set B self v = sstore B ARBOS_STATE_ADDRESS self (ucast v)"

definition uint32_get :: "'s backend \<Rightarrow> backed \<Rightarrow> ('s, u32, storage_error) comp" where
  "uint32_get B self =
     bnd (sload_system B ARBOS_STATE_ADDRESS self) (\<lambda>v. ret (narrow_or_zero v))"

definition uint32_set :: "'s backend \<Rightarrow> backed \<Rightarrow> u32 \<Rightarrow> ('s, unit, storage_error) comp" where
  "uint32_set B self v = sstore B ARBOS_STATE_ADDRESS self (ucast v)"

definition uint24_get :: "'s backend \<Rightarrow> backed \<Rightarrow> ('s, u32, storage_error) comp" where
  "uint24_get B self =
     bnd (sload_system B ARBOS_STATE_ADDRESS self)
       (\<lambda>v. ret ((narrow_or_zero v :: u32) AND 0xFFFFFF))"

definition uint24_set :: "'s backend \<Rightarrow> backed \<Rightarrow> u32 \<Rightarrow> ('s, unit, storage_error) comp" where
  "uint24_set B self v = sstore B ARBOS_STATE_ADDRESS self (ucast (v AND 0xFFFFFF))"

definition uint16_get :: "'s backend \<Rightarrow> backed \<Rightarrow> ('s, u16, storage_error) comp" where
  "uint16_get B self =
     bnd (sload_system B ARBOS_STATE_ADDRESS self) (\<lambda>v. ret (narrow_or_zero v))"

definition uint16_set :: "'s backend \<Rightarrow> backed \<Rightarrow> u16 \<Rightarrow> ('s, unit, storage_error) comp" where
  "uint16_set B self v = sstore B ARBOS_STATE_ADDRESS self (ucast v)"

definition biguint_get :: "'s backend \<Rightarrow> backed \<Rightarrow> ('s, u256, storage_error) comp" where
  "biguint_get B self = sload_system B ARBOS_STATE_ADDRESS self"

definition biguint_set :: "'s backend \<Rightarrow> backed \<Rightarrow> u256 \<Rightarrow> ('s, unit, storage_error) comp" where
  "biguint_set B self v = sstore B ARBOS_STATE_ADDRESS self v"

text \<open>An \<open>i64\<close> is the same 64 bits, read with \<open>sint\<close>.\<close>

definition int64_get :: "'s backend \<Rightarrow> backed \<Rightarrow> ('s, u64, storage_error) comp" where
  "int64_get B self =
     bnd (sload_system B ARBOS_STATE_ADDRESS self) (\<lambda>v. ret (narrow_or_zero v))"

definition int64_set :: "'s backend \<Rightarrow> backed \<Rightarrow> u64 \<Rightarrow> ('s, unit, storage_error) comp" where
  "int64_set B self v = sstore B ARBOS_STATE_ADDRESS self (ucast v)"

definition bips_get :: "'s backend \<Rightarrow> backed \<Rightarrow> ('s, u64, storage_error) comp" where
  "bips_get B self =
     bnd (sload_system B ARBOS_STATE_ADDRESS self) (\<lambda>v. ret (narrow_or_zero v))"

definition bips_set :: "'s backend \<Rightarrow> backed \<Rightarrow> u64 \<Rightarrow> ('s, unit, storage_error) comp" where
  "bips_set B self v = sstore B ARBOS_STATE_ADDRESS self (ucast v)"

definition ubips_get :: "'s backend \<Rightarrow> backed \<Rightarrow> ('s, u64, storage_error) comp" where
  "ubips_get B self =
     bnd (sload_system B ARBOS_STATE_ADDRESS self) (\<lambda>v. ret (narrow_or_zero v))"

definition ubips_set :: "'s backend \<Rightarrow> backed \<Rightarrow> u64 \<Rightarrow> ('s, unit, storage_error) comp" where
  "ubips_set B self v = sstore B ARBOS_STATE_ADDRESS self (ucast v)"

definition uint32_clear :: "'s backend \<Rightarrow> backed \<Rightarrow> ('s, unit, storage_error) comp" where
  "uint32_clear B self = uint32_set B self 0"

definition decode_address :: "u256 \<Rightarrow> u256 \<Rightarrow> ('s, address, storage_error) comp" where
  "decode_address sl v =
     (let addr_bytes = drop 12 (be_bytes 32 v) in
      if length addr_bytes = 20 then ret (from_be addr_bytes)
      else throw (InvalidLayout sl ''address slot must be 20 bytes right-aligned''))"

definition encode_address :: "address \<Rightarrow> u256" where
  "encode_address a = from_be (replicate 12 0 @ be_bytes 20 a)"

definition addr_get :: "'s backend \<Rightarrow> backed \<Rightarrow> ('s, address, storage_error) comp" where
  "addr_get B self = bnd (sload_system B ARBOS_STATE_ADDRESS self) (decode_address self)"

definition addr_set :: "'s backend \<Rightarrow> backed \<Rightarrow> address \<Rightarrow> ('s, unit, storage_error) comp" where
  "addr_set B self a = sstore B ARBOS_STATE_ADDRESS self (encode_address a)"

definition nil_address_representation :: u256 where
  "nil_address_representation = push_bit 255 1"

definition address_or_nil_get ::
  "'s backend \<Rightarrow> backed \<Rightarrow> ('s, address option, storage_error) comp" where
  "address_or_nil_get B self =
     bnd (sload_system B ARBOS_STATE_ADDRESS self)
       (\<lambda>v. if v = nil_address_representation then ret None
            else bnd (decode_address self v) (\<lambda>a. ret (Some a)))"

definition address_or_nil_set ::
  "'s backend \<Rightarrow> backed \<Rightarrow> address option \<Rightarrow> ('s, unit, storage_error) comp" where
  "address_or_nil_set B self v =
     sstore B ARBOS_STATE_ADDRESS self
       (case v of None \<Rightarrow> nil_address_representation | Some a \<Rightarrow> encode_address a)"

text \<open>\<open>StorageBackedBigInt\<close>: a 256-bit two's complement number.\<close>

definition bigint_get_raw :: "'s backend \<Rightarrow> backed \<Rightarrow> ('s, u256, storage_error) comp" where
  "bigint_get_raw B self = sload_system B ARBOS_STATE_ADDRESS self"

definition bigint_is_negative :: "'s backend \<Rightarrow> backed \<Rightarrow> ('s, bool, storage_error) comp" where
  "bigint_is_negative B self = bnd (bigint_get_raw B self) (\<lambda>v. ret (bit v 255))"

definition to_signed :: "u256 \<Rightarrow> u256 \<times> bool" where
  "to_signed raw = (if bit raw 255 then (NOT raw + 1, True) else (raw, False))"

definition bigint_get_signed ::
  "'s backend \<Rightarrow> backed \<Rightarrow> ('s, u256 \<times> bool, storage_error) comp" where
  "bigint_get_signed B self = bnd (bigint_get_raw B self) (\<lambda>raw. ret (to_signed raw))"

definition bigint_set :: "'s backend \<Rightarrow> backed \<Rightarrow> u256 \<Rightarrow> ('s, unit, storage_error) comp" where
  "bigint_set B self v = sstore B ARBOS_STATE_ADDRESS self v"

definition bigint_set_negative ::
  "'s backend \<Rightarrow> backed \<Rightarrow> u256 \<Rightarrow> ('s, unit, storage_error) comp" where
  "bigint_set_negative B self magnitude = bigint_set B self (NOT magnitude + 1)"

section \<open>Facts about the derivation\<close>

lemma u64_key_bytes: "replicate 24 0 @ be_bytes 8 (off :: u64) = be_bytes 32 (ucast off :: u256)"
proof (rule be_nat_inj)
  have "unat off < 2 ^ 64"
    using unat_bound [of off] by simp
  then show "be_nat (replicate 24 0 @ be_bytes 8 off) = be_nat (be_bytes 32 (ucast off :: u256))"
    by (simp add: be_nat_append be_nat_be_bytes)
qed simp

lemma storage_key_map_ucast: "storage_key_map H sk off = storage_key_map_b256 H sk (ucast off)"
  by (simp add: storage_key_map_def storage_key_map_b256_def u64_key_bytes)

lemma compute_slot_slot: "compute_slot H k off = slot H k (ucast off)"
  by (simp add: compute_slot_def slot_def storage_key_map_ucast)

lemma new_slot_slot: "new_slot H sto off = slot H (base_key sto) (ucast off)"
  by (simp add: new_slot_def slot_def storage_key_map_ucast)

lemma slot_for_key_slot: "slot_for_key H sto key = slot H (base_key sto) key"
  by (simp add: slot_for_key_def slot_def)

text \<open>The last byte of a key is kept in the clear.\<close>

lemma be_nat_take_31: "be_nat (take 31 (be_bytes 32 (w :: u256))) = unat w div 256"
proof -
  have "unat w div 256 < 256 ^ 31"
    using unat_bound [of w] by simp
  then show ?thesis
    using take_be_bytes [of 31 1 w] by (simp add: be_nat_be_bytes unat_drop_bit_div)
qed

lemma nth_31: "be_bytes 32 (w :: u256) ! 31 = ucast w"
  using be_bytes_append [of 31 1 w] by (simp add: nth_append)

lemma unat_slot:
  "unat (slot H k key) =
     unat (H (storage_key k @ take 31 (be_bytes 32 key))) div 256 * 256 + unat key mod 256"
  by (simp add: slot_def storage_key_map_b256_def Let_def unat_from_be be_nat_append be_nat_take_31
      nth_31 be_nat_Cons unat_ucast_u8)

section \<open>Values in slots\<close>

lemma decode_address_run: "decode_address sl v = ret (ucast v)"
  using drop_be_bytes [of 12 20 v] by (simp add: decode_address_def from_be_truncated)

lemma encode_address_ucast: "encode_address a = ucast a"
  by (simp add: encode_address_def from_be_padded)

text \<open>The magnitude and sign of a two's complement value are those of the number it denotes.\<close>

lemma to_signed_sint:
  assumes "to_signed raw = (mag, neg)"
  shows "sint raw = (if neg then - int (unat mag) else int (unat mag))"
proof (cases "bit raw 255")
  case True
  then have "raw \<noteq> 0" by auto
  then have "unat (NOT raw + 1) = 2 ^ 256 - unat raw"
    using unat_uminus [of raw] by (simp add: minus_eq_not_plus_1)
  with True show ?thesis
    using assms unat_bound [of raw] by (auto simp: to_signed_def sint_unat of_nat_diff)
next
  case False
  then show ?thesis
    using assms by (auto simp: to_signed_def sint_unat)
qed

section \<open>The store the components work on\<close>

text \<open>A cell: an account, the base key of a subspace, and a 32-byte key in it.\<close>

type_synonym cell_id = "address \<times> u256 \<times> u256"

text \<open>The cell of a \<open>u64\<close> offset in a subspace of the ArbOS account.\<close>

definition at :: "u256 \<Rightarrow> u64 \<Rightarrow> cell_id" where
  "at k off = (ARBOS_STATE_ADDRESS, k, ucast off)"

lemma at_eq_iff [simp]: "at k off = at k' off' \<longleftrightarrow> k = k' \<and> off = off'"
  by (simp add: at_def)

named_theorems store_simps \<open>execution of storage operations on cells\<close>

locale arb_store =
  fixes B :: "'s backend" and H :: keccak and F :: "cell_id set"
    and ok :: "'s \<Rightarrow> bool" and cell :: "'s \<Rightarrow> cell_id \<Rightarrow> u256"
    and poke :: "'s \<Rightarrow> cell_id \<Rightarrow> u256 \<Rightarrow> 's"
  assumes sload_system_cell [store_simps]:
      "ok s \<Longrightarrow> sload_system B a (slot H k key) s = (Ok (cell s (a, k, key)), s)"
    and sload_cell [store_simps]:
      "ok s \<Longrightarrow> sload B a (slot H k key) s = (Ok (cell s (a, k, key)), s)"
    and sstore_cell [store_simps]:
      "ok s \<Longrightarrow> sstore B a (slot H k key) v s = (Ok (), poke s (a, k, key) v)"
    and ok_poke [store_simps]: "ok s \<Longrightarrow> ok (poke s l v)"
    and cell_poke [store_simps]: "ok s \<Longrightarrow> l \<in> F \<Longrightarrow> l' \<in> F \<Longrightarrow>
      cell (poke s l v) l' = (if l' = l then v else cell s l')"
begin

lemma cell_poke_other:
  "ok s \<Longrightarrow> A \<subseteq> F \<Longrightarrow> l \<in> A \<Longrightarrow> l' \<in> F - A \<Longrightarrow> cell (poke s l v) l' = cell s l'"
  by (subst cell_poke) auto

lemma uint64_get_run [store_simps]:
  "ok s \<Longrightarrow> uint64_get B (backed_new H k off) s = (Ok (narrow_or_zero (cell s (at k off))), s)"
  by (simp add: run_simps uint64_get_def backed_new_def compute_slot_slot sload_system_cell at_def)

lemma uint64_set_run [store_simps]:
  "ok s \<Longrightarrow> uint64_set B (backed_new H k off) v s = (Ok (), poke s (at k off) (ucast v))"
  by (simp add: uint64_set_def backed_new_def compute_slot_slot sstore_cell at_def)

lemma uint32_get_run [store_simps]:
  "ok s \<Longrightarrow> uint32_get B (backed_new H k off) s = (Ok (narrow_or_zero (cell s (at k off))), s)"
  by (simp add: run_simps uint32_get_def backed_new_def compute_slot_slot sload_system_cell at_def)

lemma uint32_set_run [store_simps]:
  "ok s \<Longrightarrow> uint32_set B (backed_new H k off) v s = (Ok (), poke s (at k off) (ucast v))"
  by (simp add: uint32_set_def backed_new_def compute_slot_slot sstore_cell at_def)

lemma biguint_get_run [store_simps]:
  "ok s \<Longrightarrow> biguint_get B (backed_new H k off) s = (Ok (cell s (at k off)), s)"
  by (simp add: biguint_get_def backed_new_def compute_slot_slot sload_system_cell at_def)

lemma biguint_set_run [store_simps]:
  "ok s \<Longrightarrow> biguint_set B (backed_new H k off) v s = (Ok (), poke s (at k off) v)"
  by (simp add: biguint_set_def backed_new_def compute_slot_slot sstore_cell at_def)

lemma int64_get_run [store_simps]:
  "ok s \<Longrightarrow> int64_get B (backed_new H k off) s = (Ok (narrow_or_zero (cell s (at k off))), s)"
  by (simp add: run_simps int64_get_def backed_new_def compute_slot_slot sload_system_cell at_def)

lemma int64_set_run [store_simps]:
  "ok s \<Longrightarrow> int64_set B (backed_new H k off) v s = (Ok (), poke s (at k off) (ucast v))"
  by (simp add: int64_set_def backed_new_def compute_slot_slot sstore_cell at_def)

lemma addr_get_run [store_simps]:
  "ok s \<Longrightarrow> addr_get B (backed_new H k off) s = (Ok (ucast (cell s (at k off))), s)"
  by (simp add: run_simps addr_get_def backed_new_def compute_slot_slot sload_system_cell at_def
      decode_address_run)

lemma addr_set_run [store_simps]:
  "ok s \<Longrightarrow> addr_set B (backed_new H k off) a s = (Ok (), poke s (at k off) (ucast a))"
  by (simp add: addr_set_def backed_new_def compute_slot_slot sstore_cell at_def
      encode_address_ucast)

lemma address_or_nil_get_run [store_simps]:
  "ok s \<Longrightarrow> address_or_nil_get B (backed_new H k off) s =
     (Ok (let v = cell s (at k off) in
          if v = nil_address_representation then None else Some (ucast v)), s)"
  by (simp add: run_simps address_or_nil_get_def backed_new_def compute_slot_slot sload_system_cell at_def
      decode_address_run Let_def)

lemma address_or_nil_set_run [store_simps]:
  "ok s \<Longrightarrow> address_or_nil_set B (backed_new H k off) v s =
     (Ok (), poke s (at k off) (case v of None \<Rightarrow> nil_address_representation | Some a \<Rightarrow> ucast a))"
  by (simp add: address_or_nil_set_def backed_new_def compute_slot_slot sstore_cell at_def
      encode_address_ucast split: option.splits)

lemma bigint_get_raw_run [store_simps]:
  "ok s \<Longrightarrow> bigint_get_raw B (backed_new H k off) s = (Ok (cell s (at k off)), s)"
  by (simp add: bigint_get_raw_def backed_new_def compute_slot_slot sload_system_cell at_def)

lemma bigint_get_signed_run [store_simps]:
  "ok s \<Longrightarrow> bigint_get_signed B (backed_new H k off) s = (Ok (to_signed (cell s (at k off))), s)"
  by (simp add: run_simps bigint_get_signed_def bigint_get_raw_run)

lemma bigint_set_run [store_simps]:
  "ok s \<Longrightarrow> bigint_set B (backed_new H k off) v s = (Ok (), poke s (at k off) v)"
  by (simp add: bigint_set_def backed_new_def compute_slot_slot sstore_cell at_def)

lemma bigint_set_negative_run [store_simps]:
  "ok s \<Longrightarrow> bigint_set_negative B (backed_new H k off) v s = (Ok (), poke s (at k off) (- v))"
  by (simp add: bigint_set_negative_def bigint_set_run minus_eq_not_plus_1)

lemma get_by_uint64_run [store_simps]:
  "ok s \<Longrightarrow> get_by_uint64 B H sto off s = (Ok (cell s (sto_account sto, base_key sto, ucast off)), s)"
  by (simp add: get_by_uint64_def new_slot_slot sload_system_cell)

lemma set_by_uint64_run [store_simps]:
  "ok s \<Longrightarrow> set_by_uint64 B H sto off v s =
     (Ok (), poke s (sto_account sto, base_key sto, ucast off) v)"
  by (simp add: set_by_uint64_def new_slot_slot sstore_cell)

lemma set_uint64_by_uint64_run [store_simps]:
  "ok s \<Longrightarrow> set_uint64_by_uint64 B H sto off v s =
     (Ok (), poke s (sto_account sto, base_key sto, ucast off) (ucast v))"
  by (simp add: set_uint64_by_uint64_def new_slot_slot sstore_cell)

end

section \<open>The executor's state is such a store\<close>

definition slots_sep :: "keccak \<Rightarrow> cell_id set \<Rightarrow> bool" where
  "slots_sep H F \<longleftrightarrow> inj_on (\<lambda>(a, k, key). (a, slot H k key)) F"

definition state_ok :: "revm \<Rightarrow> keccak \<Rightarrow> cell_id set \<Rightarrow> state \<Rightarrow> bool" where
  "state_ok E H F st \<longleftrightarrow> revm_ok E \<and> db_ok st \<and> slots_sep H F"

fun state_cell :: "keccak \<Rightarrow> state \<Rightarrow> cell_id \<Rightarrow> u256" where
  "state_cell H st (a, k, key) = view st a (slot H k key)"

fun state_poke :: "revm \<Rightarrow> keccak \<Rightarrow> state \<Rightarrow> cell_id \<Rightarrow> u256 \<Rightarrow> state" where
  "state_poke E H st (a, k, key) v = snd (write_storage_at E H a (slot H k key) v st)"

lemma slots_sepD:
  assumes "slots_sep H F" and "(a, k, key) \<in> F" and "(a, k', key') \<in> F"
    and "slot H k key = slot H k' key'"
  shows "k = k' \<and> key = key'"
  using inj_onD [OF assms(1) [unfolded slots_sep_def] _ assms(2, 3)] assms(4) by simp

interpretation st: arb_store "state_backend E H" H F "state_ok E H F" "state_cell H" "state_poke E H"
  for E H F
proof
  fix s :: state and a k key v and l l' :: cell_id
  assume ok: "state_ok E H F s"
  then have E: "revm_ok E" and db: "db_ok s" and sep: "slots_sep H F"
    by (simp_all add: state_ok_def)
  show "sload_system (state_backend E H) a (slot H k key) s = (Ok (state_cell H s (a, k, key)), s)"
    and "sload (state_backend E H) a (slot H k key) s = (Ok (state_cell H s (a, k, key)), s)"
    by (simp_all add: state_backend_def read_storage_at_ok [OF db])
  obtain s' where "write_storage_at E H a (slot H k key) v s = (Ok (), s')"
    using write_storage_at_ok [OF E db] by blast
  then show "sstore (state_backend E H) a (slot H k key) v s = (Ok (), state_poke E H s (a, k, key) v)"
    by (simp add: state_backend_def)
  obtain b j i where l: "l = (b, j, i)" by (cases l)
  obtain s' where s': "write_storage_at E H b (slot H j i) v s = (Ok (), s')" and "db_ok s'"
    and view: "\<And>b' i'. view s' b' i' = (if b' = b \<and> i' = slot H j i then v else view s b' i')"
    using write_storage_at_ok [OF E db] by blast
  then show "state_ok E H F (state_poke E H s l v)"
    by (simp add: l state_ok_def E sep)
  assume "l \<in> F" and "l' \<in> F"
  then show "state_cell H (state_poke E H s l v) l' = (if l' = l then v else state_cell H s l')"
    by (cases l') (auto simp: l s' view dest: slots_sepD [OF sep])
qed

declare state_cell.simps [simp del] state_poke.simps [simp del]

end
