(* ===== verification/Sample_Env.thy ===== *)
theory Sample_Env
  imports Storage
begin

text \<open>
  A concrete environment in which the hypotheses of the properties hold: a \<open>revm\<close> that
  meets \<open>revm_ok\<close>, a state whose database holds a given value in every cell, and a hash that keeps
  the slots of all subspaces with small base keys apart. The witnesses of the properties
  are evaluated in it.
\<close>

section \<open>The state below the storage layer\<close>

definition sample_load :: "state \<Rightarrow> address \<Rightarrow> state" where
  "sample_load st a = (case cache st a of
      Some _ \<Rightarrow> st
    | None \<Rightarrow> st\<lparr>cache := (cache st)(a \<mapsto> \<lparr>account = None, status = OtherStatus 0\<rparr>)\<rparr>)"

definition sample_revm :: revm where
  "sample_revm = \<lparr>
     load_cache_account = sample_load,
     on_changed = (\<lambda>_ _. InMemoryChange),
     has_no_code_and_nonce = (\<lambda>i. nonce i = 0 \<and> code i = None),
     apply_transition = (\<lambda>st ts. st\<lparr>transition_state := transition_state st @ ts\<rparr>),
     new_raw = id\<rparr>"

lemma revm_ok_sample [simp]: "revm_ok sample_revm"
  by (auto simp: revm_ok_def sample_revm_def loads_cache_account_def sample_load_def
      cached_value_def split: option.splits)

section \<open>A hash\<close>

text \<open>
  On the inputs of the slot derivation (a 32-byte base key or none, and 31 bytes of a key)
  the low ten bytes of the base key are followed by the low 21 bytes of the key.
\<close>

definition sample_keccak :: keccak where
  "sample_keccak bs =
     (if length bs = 63 then from_be (take 10 (drop 22 bs) @ drop 42 bs @ [0])
      else if length bs = 31 then from_be (replicate 10 0 @ drop 10 bs @ [0])
      else from_be (drop (length bs - 10) bs) + 1)"

lemma drop_bit_low:
  "drop 10 (take 31 (be_bytes 32 (w :: u256))) = be_bytes 21 (drop_bit 8 w)"
  using take_be_bytes [of 31 1 w] drop_be_bytes [of 10 21 "drop_bit 8 w"] by simp

lemma unat_slot_sample:
  assumes "unat k < 2 ^ 80" and "unat key < 2 ^ 176"
  shows "unat (slot sample_keccak k key) = unat k * 2 ^ 176 + unat key"
proof -
  have "unat key div 256 < 256 ^ 21"
    using assms(2) by (simp add: less_mult_imp_div_less)
  then have key: "be_nat (be_bytes 21 (drop_bit 8 key)) = unat key div 256"
    by (simp add: be_nat_be_bytes unat_drop_bit_div)
  have bytes: "be_bytes 32 k = be_bytes 22 (drop_bit 80 k) @ be_bytes 10 k"
    using be_bytes_append [of 22 10 k] by simp
  have h: "unat (sample_keccak (storage_key k @ take 31 (be_bytes 32 key))) =
      unat k * 2 ^ 176 + unat key div 256 * 256"
  proof (cases "k = 0")
    case True
    then show ?thesis
      by (simp add: storage_key_def sample_keccak_def drop_bit_low unat_from_be be_nat_append
          be_nat_Cons key)
  next
    case False
    have "unat (sample_keccak (storage_key k @ take 31 (be_bytes 32 key))) =
        be_nat (be_bytes 10 k @ be_bytes 21 (drop_bit 8 key) @ [0])"
      using False
      by (simp add: storage_key_def sample_keccak_def drop_bit_low unat_from_be bytes del: append_assoc)
    then show ?thesis
      using assms(1) by (simp only: be_nat_append key be_nat_be_bytes [of 10]) (simp add: be_nat_Cons)
  qed
  show ?thesis
    by (simp add: unat_slot h)
qed

lemma slot_sample_inj:
  assumes small: "unat k < 2 ^ 80" "unat key < 2 ^ 176" "unat k' < 2 ^ 80" "unat key' < 2 ^ 176"
    and eq: "slot sample_keccak k key = slot sample_keccak k' key'"
  shows "k = k' \<and> key = key'"
proof -
  from arg_cong [where f = unat, OF eq] have
    eq: "unat k * 2 ^ 176 + unat key = unat k' * 2 ^ 176 + unat key'"
    by (simp only: unat_slot_sample small)
  then have "unat k = unat k'"
    using mix_div [OF small(2), of "unat k"] mix_div [OF small(4), of "unat k'"] by simp
  with eq show ?thesis
    by (simp add: word_unat_eq_iff)
qed

definition small_cell :: "cell_id \<Rightarrow> bool" where
  "small_cell l \<longleftrightarrow> (case l of (a, k, key) \<Rightarrow> unat k < 2 ^ 80 \<and> unat key < 2 ^ 176)"

lemma small_cell_at [simp]: "small_cell (at k off) \<longleftrightarrow> unat k < 2 ^ 80"
  using unat_bound [of off] by (simp add: small_cell_def at_def)

lemma small_cell_triple [simp]: "small_cell (a, k, key) \<longleftrightarrow> unat k < 2 ^ 80 \<and> unat key < 2 ^ 176"
  by (simp add: small_cell_def)

lemma slots_sep_sample:
  assumes "\<And>l. l \<in> F \<Longrightarrow> small_cell l"
  shows "slots_sep sample_keccak F"
  unfolding slots_sep_def
proof (rule inj_onI)
  fix l l' :: cell_id
  assume "l \<in> F" "l' \<in> F"
    and "(case l of (a, k, key) \<Rightarrow> (a, slot sample_keccak k key)) =
      (case l' of (a, k, key) \<Rightarrow> (a, slot sample_keccak k key))"
  with assms [of l] assms [of l'] show "l = l'"
    by (cases l; cases l') (auto simp del: power_numeral dest: slot_sample_inj)
qed

text \<open>The keys of sub-storages named by one byte.\<close>

lemma unat_sub_key_sample:
  assumes "unat k < 2 ^ 72"
  shows "unat (derive_sub_key sample_keccak k [b]) = unat k * 256 + unat b + 1"
proof -
  have "drop 23 (be_bytes 32 k) = be_bytes 9 k"
    using drop_be_bytes [of 23 9 k] by simp
  then have "derive_sub_key sample_keccak k [b] = of_nat (unat k * 256 + unat b + 1)"
    using assms
    by (auto simp: derive_sub_key_def storage_key_def sample_keccak_def from_be_of_nat be_nat_append
        be_nat_Cons be_nat_be_bytes)
  moreover have "unat k * 256 + unat b + 1 < 2 ^ 256"
    using assms unat_bound [of b] by simp
  ultimately show ?thesis
    by (simp only: unat_of_nat) simp
qed

section \<open>A state with given contents\<close>

text \<open>Every account of the state holds \<open>c k key\<close> in the cell \<open>key\<close> of subspace \<open>k\<close>.\<close>

definition sample_state :: "(u256 \<Rightarrow> u256 \<Rightarrow> u256) \<Rightarrow> state" where
  "sample_state c = \<lparr>
     cache = Map.empty, bundle_state = Map.empty,
     database = (\<lambda>_ s. Ok (c (of_nat (unat s div 2 ^ 176)) (of_nat (unat s mod 2 ^ 176)))),
     database_basic = (\<lambda>_. Ok None), transition_state = []\<rparr>"

lemma state_cell_sample:
  assumes "unat k < 2 ^ 80" and "unat key < 2 ^ 176"
  shows "state_cell sample_keccak (sample_state c) (a, k, key) = c k key"
proof -
  have "state_cell sample_keccak (sample_state c) (a, k, key) =
      (let n = unat (slot sample_keccak k key) in c (of_nat (n div 2 ^ 176)) (of_nat (n mod 2 ^ 176)))"
    by (simp add: state_cell.simps view_def cached_value_def bundle_value_def sample_state_def Let_def)
  then show ?thesis
    by (simp only: unat_slot_sample [OF assms] Let_def mix_div [OF assms(2)] mix_mod [OF assms(2)])
      simp
qed

lemma at_sample:
  "unat k < 2 ^ 80 \<Longrightarrow> state_cell sample_keccak (sample_state c) (at k off) = c k (ucast off)"
  unfolding at_def using unat_bound [of off] by (subst state_cell_sample) simp_all

lemma state_ok_sample:
  assumes "\<And>l. l \<in> F \<Longrightarrow> small_cell l"
  shows "state_ok sample_revm sample_keccak F (sample_state c)"
  using slots_sep_sample [OF assms]
  by (simp add: state_ok_def db_ok_def sample_state_def)

end
