(* ===== verification/Queue.thy ===== *)
theory Queue
  imports Sample_Env
begin

text \<open>
  The storage-backed FIFO queue of \<open>crates/arb-storage/src/queue.rs\<close>: two counters, the next
  position to put at and the next to get from, and the elements at the positions between.

  \<open>queue_at\<close> relates the cells of a queue to the list it holds. Inside \<open>arb_store\<close> each
  operation is shown to act on that list; the locale \<open>fifo\<close> is the contract the retryable
  store relies on, with the behaviour of any sequence of operations derived from it once.
\<close>

section \<open>The queue\<close>

record queue =
  q_base_key :: u256
  next_put :: backed
  next_get :: backed

definition initialize_queue ::
  "'s backend \<Rightarrow> keccak \<Rightarrow> storage_handle \<Rightarrow> ('s, unit, storage_error) comp" where
  "initialize_queue B H sto =
     bnd (set_uint64_by_uint64 B H sto 0 2) (\<lambda>_. set_uint64_by_uint64 B H sto 1 2)"

definition open_queue_at :: "keccak \<Rightarrow> u256 \<Rightarrow> queue" where
  "open_queue_at H k =
     \<lparr>q_base_key = k, next_put = backed_new H k 0, next_get = backed_new H k 1\<rparr>"

definition open_queue :: "keccak \<Rightarrow> storage_handle \<Rightarrow> queue" where
  "open_queue H sto = open_queue_at H (base_key sto)"

definition load_slot ::
  "'s backend \<Rightarrow> keccak \<Rightarrow> queue \<Rightarrow> u64 \<Rightarrow> ('s, u256, storage_error) comp" where
  "load_slot B H q offset =
     sload_system B ARBOS_STATE_ADDRESS (compute_slot H (q_base_key q) offset)"

definition store_slot ::
  "'s backend \<Rightarrow> keccak \<Rightarrow> queue \<Rightarrow> u64 \<Rightarrow> u256 \<Rightarrow> ('s, unit, storage_error) comp" where
  "store_slot B H q offset v =
     sstore B ARBOS_STATE_ADDRESS (compute_slot H (q_base_key q) offset) v"

definition is_empty :: "'s backend \<Rightarrow> queue \<Rightarrow> ('s, bool, storage_error) comp" where
  "is_empty B q =
     bnd (uint64_get B (next_put q)) (\<lambda>put.
     bnd (uint64_get B (next_get q)) (\<lambda>get.
     ret (put = get)))"

definition queue_size :: "'s backend \<Rightarrow> queue \<Rightarrow> ('s, u64, storage_error) comp" where
  "queue_size B q =
     bnd (uint64_get B (next_put q)) (\<lambda>put.
     bnd (uint64_get B (next_get q)) (\<lambda>get.
     ret (sat_sub put get)))"

definition peek :: "'s backend \<Rightarrow> keccak \<Rightarrow> queue \<Rightarrow> ('s, u256 option, storage_error) comp" where
  "peek B H q =
     bnd (is_empty B q) (\<lambda>e. if e then ret None else
     bnd (uint64_get B (next_get q)) (\<lambda>get.
     bnd (load_slot B H q get) (\<lambda>val.
     ret (Some val))))"

definition get :: "'s backend \<Rightarrow> keccak \<Rightarrow> queue \<Rightarrow> ('s, u256 option, storage_error) comp" where
  "get B H q =
     bnd (is_empty B q) (\<lambda>e. if e then ret None else
     bnd (uint64_get B (next_get q)) (\<lambda>get.
     bnd (load_slot B H q get) (\<lambda>val.
     bnd (store_slot B H q get 0) (\<lambda>_.
     bnd (uint64_set B (next_get q) (get + 1)) (\<lambda>_.
     ret (Some val))))))"

definition put :: "'s backend \<Rightarrow> keccak \<Rightarrow> queue \<Rightarrow> u256 \<Rightarrow> ('s, unit, storage_error) comp" where
  "put B H q v =
     bnd (uint64_get B (next_put q)) (\<lambda>put.
     bnd (store_slot B H q put v) (\<lambda>_.
     uint64_set B (next_put q) (put + 1)))"

definition shift :: "'s backend \<Rightarrow> keccak \<Rightarrow> queue \<Rightarrow> ('s, u256 option, storage_error) comp" where
  "shift B H q =
     bnd (is_empty B q) (\<lambda>e. if e then ret None else
     bnd (uint64_get B (next_put q)) (\<lambda>put.
     let idx = put - 1 in
     bnd (load_slot B H q idx) (\<lambda>val.
     bnd (store_slot B H q idx 0) (\<lambda>_.
     bnd (uint64_set B (next_put q) idx) (\<lambda>_.
     ret (Some val))))))"

text \<open>\<open>for_each\<close> with a callback that keeps local variables \<open>a\<close>; \<open>g\<close> is the
  conversion of storage errors into the callback's error type.\<close>

definition queue_for_each ::
  "'s backend \<Rightarrow> keccak \<Rightarrow> (storage_error \<Rightarrow> 'e) \<Rightarrow> queue \<Rightarrow> (u256 \<Rightarrow> 'a \<Rightarrow> ('s, 'a, 'e) comp)
     \<Rightarrow> 'a \<Rightarrow> ('s, 'a, 'e) comp" where
  "queue_for_each B H g q f a =
     bnd (map_err g (uint64_get B (next_get q))) (\<lambda>get.
     bnd (map_err g (uint64_get B (next_put q))) (\<lambda>put.
     fold_each (u64_range get put) (\<lambda>i a. bnd (map_err g (load_slot B H q i)) (\<lambda>v. f v a)) a))"

section \<open>The list a queue holds\<close>

definition queue_cells :: "u256 \<Rightarrow> cell_id set" where
  "queue_cells k = range (at k)"

definition queue_at :: "(cell_id \<Rightarrow> u256) \<Rightarrow> u256 \<Rightarrow> nat \<Rightarrow> u256 list \<Rightarrow> bool" where
  "queue_at c k g xs \<longleftrightarrow>
     2 \<le> g \<and> g + length xs < 2 ^ 64 \<and>
     c (at k 0) = of_nat (g + length xs) \<and> c (at k 1) = of_nat g \<and>
     (\<forall>i < length xs. c (at k (of_nat (g + i))) = xs ! i)"

lemma at_in_queue_cells [simp]: "at k off \<in> queue_cells k"
  by (simp add: queue_cells_def)

context arb_store
begin

lemma load_slot_run [store_simps]:
  "ok s \<Longrightarrow> load_slot B H (open_queue_at H k) off s = (Ok (cell s (at k off)), s)"
  by (simp add: load_slot_def open_queue_at_def compute_slot_slot sload_system_cell at_def)

lemma store_slot_run [store_simps]:
  "ok s \<Longrightarrow> store_slot B H (open_queue_at H k) off v s = (Ok (), poke s (at k off) v)"
  by (simp add: store_slot_def open_queue_at_def compute_slot_slot sstore_cell at_def)

lemma counters_run:
  assumes "ok s" and "queue_at (cell s) k g xs"
  shows "uint64_get B (next_put (open_queue_at H k)) s = (Ok (of_nat (g + length xs)), s)"
    and "uint64_get B (next_get (open_queue_at H k)) s = (Ok (of_nat g), s)"
  using assms
  by (simp_all add: open_queue_at_def uint64_get_run queue_at_def narrow_of_nat del: of_nat_add)

lemma is_empty_run:
  assumes "ok s" and "queue_at (cell s) k g xs"
  shows "is_empty B (open_queue_at H k) s = (Ok (xs = []), s)"
proof -
  have "(of_nat (g + length xs) :: u64) = of_nat g \<longleftrightarrow> xs = []"
    using assms(2) by (subst of_nat_u64_eq_iff) (auto simp: queue_at_def)
  then show ?thesis
    by (simp add: run_simps is_empty_def counters_run [OF assms] del: of_nat_add)
qed

lemma queue_size_run:
  assumes "ok s" and "queue_at (cell s) k g xs"
  shows "queue_size B (open_queue_at H k) s = (Ok (of_nat (length xs)), s)"
proof -
  have "unat (of_nat (g + length xs) :: u64) = g + length xs" and "unat (of_nat g :: u64) = g"
    using assms(2) by (simp_all add: queue_at_def unat_of_nat del: of_nat_add)
  then have "sat_sub (of_nat (g + length xs)) (of_nat g) = (of_nat (length xs) :: u64)"
    using assms(2)
    by (simp add: word_unat_eq_iff unat_sat_sub unat_of_nat queue_at_def del: of_nat_add)
  then show ?thesis
    by (simp add: run_simps queue_size_def counters_run [OF assms] del: of_nat_add)
qed

lemma peek_run:
  assumes "ok s" and "queue_at (cell s) k g xs"
  shows "peek B H (open_queue_at H k) s = (Ok (case xs of [] \<Rightarrow> None | x # _ \<Rightarrow> Some x), s)"
proof (cases xs)
  case Nil
  with assms show ?thesis
    by (simp add: run_simps peek_def is_empty_run [OF assms])
next
  case (Cons x ys)
  then have "cell s (at k (of_nat g)) = x"
    using assms(2) by (force simp: queue_at_def)
  with Cons assms show ?thesis
    by (simp add: run_simps peek_def is_empty_run [OF assms] counters_run [OF assms] load_slot_run)
qed

lemma empty_run:
  assumes "ok s" and "queue_at (cell s) k g []"
  shows "get B H (open_queue_at H k) s = (Ok None, s)"
    and "shift B H (open_queue_at H k) s = (Ok None, s)"
  by (simp_all add: run_simps get_def shift_def is_empty_run [OF assms])

lemma put_run:
  assumes "ok s" and "queue_at (cell s) k g xs" and "g + length xs + 1 < 2 ^ 64"
    and F: "queue_cells k \<subseteq> F"
  obtains s' where "put B H (open_queue_at H k) v s = (Ok (), s')" and "ok s'"
    and "queue_at (cell s') k g (xs @ [v])"
    and "\<And>l. l \<in> F - queue_cells k \<Longrightarrow> cell s' l = cell s l"
proof -
  note [simp del] = of_nat_add of_nat_Suc
  let ?n = "g + length xs"
  let ?s' = "poke (poke s (at k (of_nat ?n)) v) (at k 0) (of_nat (?n + 1))"
  have succ: "(of_nat ?n + 1 :: u64) = of_nat (?n + 1)"
    by (simp add: of_nat_Suc)
  have inF: "at k off \<in> F" for off
    using F at_in_queue_cells by blast
  have run: "put B H (open_queue_at H k) v s = (Ok (), ?s')"
    using assms(1,3) unfolding put_def
    by (simp add: run_simps counters_run [OF assms(1,2)] store_slot_run ok_poke succ)
      (simp add: run_simps open_queue_at_def uint64_set_run ok_poke ucast_of_nat_u64)
  have neq: "i < length xs \<Longrightarrow> (of_nat (g + i) :: u64) \<noteq> of_nat ?n"
       "i \<le> length xs \<Longrightarrow> (of_nat (g + i) :: u64) \<noteq> 0" "i \<le> length xs \<Longrightarrow> (of_nat (g + i) :: u64) \<noteq> 1" for i
    using assms(2) of_nat_u64_eq_iff [of "g + i" ?n] of_nat_u64_neq_01 [of "g + i"]
    by (auto simp: queue_at_def)
  have "queue_at (cell ?s') k g (xs @ [v])"
    using assms(1,2,3) neq neq(2,3) [of "length xs"]
    by (auto simp: queue_at_def cell_poke ok_poke inF nth_append less_Suc_eq)
  moreover have "cell ?s' l = cell s l" if "l \<in> F - queue_cells k" for l
    using that assms(1) inF by (auto simp: cell_poke ok_poke)
  ultimately show thesis
    using that [OF run] assms(1) by (simp add: ok_poke)
qed

lemma get_run:
  assumes "ok s" and q: "queue_at (cell s) k g (x # xs)" and F: "queue_cells k \<subseteq> F"
  obtains s' where "get B H (open_queue_at H k) s = (Ok (Some x), s')" and "ok s'"
    and "queue_at (cell s') k (g + 1) xs"
    and "\<And>l. l \<in> F - queue_cells k \<Longrightarrow> cell s' l = cell s l"
proof -
  note [simp del] = of_nat_add of_nat_Suc
  let ?s' = "poke (poke s (at k (of_nat g)) 0) (at k 1) (of_nat (g + 1))"
  have succ: "(of_nat g + 1 :: u64) = of_nat (g + 1)"
    by (simp add: of_nat_Suc)
  have inF: "at k off \<in> F" for off
    using F at_in_queue_cells by blast
  have x: "cell s (at k (of_nat g)) = x"
    using q by (force simp: queue_at_def)
  have "g + 1 < 2 ^ 64"
    using q by (simp add: queue_at_def)
  then have run: "get B H (open_queue_at H k) s = (Ok (Some x), ?s')"
    using assms(1) unfolding get_def
    by (simp add: run_simps is_empty_run [OF assms(1,2)] counters_run [OF assms(1,2)]
        load_slot_run store_slot_run ok_poke succ x)
      (simp add: run_simps open_queue_at_def uint64_set_run ok_poke ucast_of_nat_u64)
  have bound: "2 \<le> g" "g + length (x # xs) < 2 ^ 64"
    using q by (auto simp: queue_at_def)
  have neq: "i < length xs \<Longrightarrow> (of_nat (Suc g + i) :: u64) \<noteq> of_nat g"
    "i < length xs \<Longrightarrow> (of_nat (Suc g + i) :: u64) \<noteq> 1" for i
    using bound of_nat_u64_eq_iff [of "Suc g + i" g] of_nat_u64_neq_01 [of "Suc g + i"] by auto
  have head: "cell ?s' (at k (of_nat (Suc g + i))) = xs ! i" if "i < length xs" for i
    using that q assms(1) neq [of i] by (auto simp: queue_at_def cell_poke ok_poke inF)
  have "queue_at (cell ?s') k (g + 1) xs"
    using head q of_nat_u64_neq_01 [of g] bound assms(1)
    by (auto simp: queue_at_def cell_poke ok_poke inF)
  moreover have "cell ?s' l = cell s l" if "l \<in> F - queue_cells k" for l
    using that assms(1) inF by (auto simp: cell_poke ok_poke)
  ultimately show thesis
    using that [OF run] assms(1) by (simp add: ok_poke)
qed

lemma shift_run:
  assumes "ok s" and q: "queue_at (cell s) k g (xs @ [x])" and F: "queue_cells k \<subseteq> F"
  obtains s' where "shift B H (open_queue_at H k) s = (Ok (Some x), s')" and "ok s'"
    and "queue_at (cell s') k g xs"
    and "\<And>l. l \<in> F - queue_cells k \<Longrightarrow> cell s' l = cell s l"
proof -
  note [simp del] = of_nat_add of_nat_Suc
  let ?n = "g + length xs"
  let ?s' = "poke (poke s (at k (of_nat ?n)) 0) (at k 0) (of_nat ?n)"
  have bound: "2 \<le> g" "Suc ?n < 2 ^ 64"
    using q by (auto simp: queue_at_def)
  have pred: "(of_nat (Suc ?n) - 1 :: u64) = of_nat ?n"
    by (simp add: of_nat_Suc)
  have inF: "at k off \<in> F" for off
    using F at_in_queue_cells by blast
  have x: "cell s (at k (of_nat ?n)) = x"
    using q by (auto simp: queue_at_def dest!: spec [of _ "length xs"])
  have run: "shift B H (open_queue_at H k) s = (Ok (Some x), ?s')"
    using assms(1) bound unfolding shift_def
    by (simp add: run_simps is_empty_run [OF assms(1,2)] counters_run [OF assms(1,2)]
        load_slot_run store_slot_run ok_poke pred x Let_def)
      (simp add: run_simps open_queue_at_def uint64_set_run ok_poke ucast_of_nat_u64)
  have neq: "i < length xs \<Longrightarrow> (of_nat (g + i) :: u64) \<noteq> of_nat ?n"
    "i \<le> length xs \<Longrightarrow> (of_nat (g + i) :: u64) \<noteq> 0" "i \<le> length xs \<Longrightarrow> (of_nat (g + i) :: u64) \<noteq> 1" for i
    using bound of_nat_u64_eq_iff [of "g + i" ?n] of_nat_u64_neq_01 [of "g + i"] by auto
  have rest: "cell ?s' (at k (of_nat (g + i))) = xs ! i" if "i < length xs" for i
    using that q assms(1) neq [of i] by (auto simp: queue_at_def cell_poke ok_poke inF nth_append)
  have "queue_at (cell ?s') k g xs"
    using rest q neq(2,3) [of "length xs"] bound assms(1)
    by (auto simp: queue_at_def cell_poke ok_poke inF)
  moreover have "cell ?s' l = cell s l" if "l \<in> F - queue_cells k" for l
    using that assms(1) inF by (auto simp: cell_poke ok_poke)
  ultimately show thesis
    using that [OF run] assms(1) by (simp add: ok_poke)
qed

lemma initialize_queue_run:
  assumes "ok s" and F: "queue_cells (base_key sto) \<subseteq> F" and "sto_account sto = ARBOS_STATE_ADDRESS"
  obtains s' where "initialize_queue B H sto s = (Ok (), s')" and "ok s'"
    and "queue_at (cell s') (base_key sto) 2 []"
proof -
  let ?k = "base_key sto"
  let ?s' = "poke (poke s (at ?k 0) 2) (at ?k 1) 2"
  have inF: "at ?k off \<in> F" for off
    using F at_in_queue_cells by blast
  have "initialize_queue B H sto s = (Ok (), ?s')"
    using assms(1,3)
    by (simp add: run_simps initialize_queue_def set_uint64_by_uint64_run ok_poke at_def)
  moreover have "queue_at (cell ?s') ?k 2 []"
    using assms(1) by (simp add: queue_at_def cell_poke ok_poke inF)
  ultimately show thesis
    using that assms(1) by (simp add: ok_poke)
qed

text \<open>Walking the queue visits the list it holds, in order.\<close>

lemma queue_for_each_run:
  assumes "ok s" and q: "queue_at (cell s) k g xs"
    and step: "\<And>x a. x \<in> set xs \<Longrightarrow> f x a s = (Ok (h x a), s)"
  shows "queue_for_each B H e (open_queue_at H k) f a s = (Ok (fold h xs a), s)"
proof -
  let ?body = "\<lambda>i a. bnd (map_err e (load_slot B H (open_queue_at H k) i)) (\<lambda>v. f v a)"
  have "fold_each (map of_nat [g + j..<g + length xs]) ?body a s = (Ok (fold h (drop j xs) a), s)"
    if "j \<le> length xs" for j a
    using that
  proof (induction "length xs - j" arbitrary: j a)
    case 0
    then show ?case by (simp add: run_simps)
  next
    case (Suc n)
    then have j: "j < length xs" by simp
    then have "cell s (at k (of_nat (g + j))) = xs ! j"
      using q by (simp add: queue_at_def)
    with j Suc.hyps(1) [of "Suc j"] Suc.hyps(2) show ?case
      using assms(1) step [of "xs ! j"]
      by (simp add: run_simps load_slot_run upt_conv_Cons [of "g + j"] Cons_nth_drop_Suc [symmetric]
          del: of_nat_add upt_Suc)
  qed
  from this [of 0 a] q show ?thesis
    using unat_of_nat [of g, where ?'a = 64] unat_of_nat [of "g + length xs", where ?'a = 64]
    by (simp add: run_simps queue_for_each_def counters_run [OF assms(1,2)] u64_range_def
        queue_at_def del: of_nat_add)
qed

end

section \<open>The contract of a queue\<close>

datatype queue_op = Put u256 | Get | Shift | Peek

text \<open>What the operations do to the list, and what they return.\<close>

fun deque_step :: "queue_op \<Rightarrow> u256 list \<Rightarrow> u256 option \<times> u256 list" where
  "deque_step (Put v) xs = (None, xs @ [v])"
| "deque_step Get xs = (case xs of [] \<Rightarrow> (None, []) | y # ys \<Rightarrow> (Some y, ys))"
| "deque_step Shift xs = (if xs = [] then (None, []) else (Some (last xs), butlast xs))"
| "deque_step Peek xs = (case xs of [] \<Rightarrow> None | y # _ \<Rightarrow> Some y, xs)"

primrec deque_run :: "queue_op list \<Rightarrow> u256 list \<Rightarrow> u256 option list \<times> u256 list" where
  "deque_run [] xs = ([], xs)"
| "deque_run (op # ops) xs =
     (let (out, ys) = deque_step op xs; (outs, zs) = deque_run ops ys in (out # outs, zs))"

fun puts :: "queue_op list \<Rightarrow> nat" where
  "puts [] = 0"
| "puts (Put v # ops) = Suc (puts ops)"
| "puts (_ # ops) = puts ops"

primrec queue_step ::
  "'s backend \<Rightarrow> keccak \<Rightarrow> queue \<Rightarrow> queue_op \<Rightarrow> ('s, u256 option, storage_error) comp" where
  "queue_step B H q (Put v) = bnd (put B H q v) (\<lambda>_. ret None)"
| "queue_step B H q Get = get B H q"
| "queue_step B H q Shift = shift B H q"
| "queue_step B H q Peek = peek B H q"

primrec run_ops :: "('o \<Rightarrow> ('s, 'a, 'e) comp) \<Rightarrow> 'o list \<Rightarrow> ('s, 'a list, 'e) comp" where
  "run_ops step [] = ret []"
| "run_ops step (op # ops) = bnd (step op) (\<lambda>out. bnd (run_ops step ops) (\<lambda>outs. ret (out # outs)))"

locale fifo =
  fixes step :: "queue_op \<Rightarrow> ('s, u256 option, 'e) comp"
    and holds :: "'s \<Rightarrow> nat \<Rightarrow> u256 list \<Rightarrow> bool" \<comment> \<open>free positions, contents\<close>
  assumes put_law: "holds s (Suc r) xs \<Longrightarrow> \<exists>s'. step (Put v) s = (Ok None, s') \<and> holds s' r (xs @ [v])"
    and other_law: "holds s r xs \<Longrightarrow> (\<And>v. op \<noteq> Put v) \<Longrightarrow>
      \<exists>s' r'. step op s = (Ok (fst (deque_step op xs)), s') \<and> r \<le> r' \<and>
        holds s' r' (snd (deque_step op xs))"
begin

text \<open>Any sequence of operations returns what the list gives, while positions last.\<close>

lemma step_law:
  assumes "holds s r xs" and "puts [op] \<le> r"
  obtains s' r' where "step op s = (Ok (fst (deque_step op xs)), s')"
    and "r - puts [op] \<le> r'" and "holds s' r' (snd (deque_step op xs))"
proof (cases op)
  case (Put v)
  with assms obtain r' where "r = Suc r'" by (cases r) auto
  with Put put_law [of s r' xs v] assms that show thesis by force
qed (use assms other_law [of s r xs op] that in force)+

lemma run_law:
  assumes "holds s r xs" and "puts ops \<le> r"
  shows "\<exists>s' r'. run_ops step ops s = (Ok (fst (deque_run ops xs)), s') \<and>
           r - puts ops \<le> r' \<and> holds s' r' (snd (deque_run ops xs))"
  using assms
proof (induction ops arbitrary: s r xs)
  case Nil
  then show ?case by (auto simp: run_simps)
next
  case (Cons op ops)
  have puts: "puts (op # ops) = puts [op] + puts ops"
    by (cases op) simp_all
  with Cons.prems(2) have "puts [op] \<le> r" by simp
  then obtain s1 r1 where 1: "step op s = (Ok (fst (deque_step op xs)), s1)"
    and r1: "r - puts [op] \<le> r1" and h1: "holds s1 r1 (snd (deque_step op xs))"
    using step_law [OF Cons.prems(1)] by blast
  from r1 puts Cons.prems(2) have "puts ops \<le> r1" by simp
  from Cons.IH [OF h1 this] obtain s2 r2 where
    "run_ops step ops s1 = (Ok (fst (deque_run ops (snd (deque_step op xs)))), s2)"
    "r1 - puts ops \<le> r2" "holds s2 r2 (snd (deque_run ops (snd (deque_step op xs))))"
    by blast
  moreover from this(2) r1 puts have "r - puts (op # ops) \<le> r2" by simp
  ultimately show ?case
    using 1 by (auto simp: run_simps simp del: puts.simps split: prod.splits)
qed

end

text \<open>The storage-backed queue meets it, and leaves the cells \<open>F\<close> around it at their contents \<open>c\<close>.\<close>

definition queue_holds ::
  "revm \<Rightarrow> keccak \<Rightarrow> cell_id set \<Rightarrow> (cell_id \<Rightarrow> u256) \<Rightarrow> u256 \<Rightarrow> state \<Rightarrow> nat \<Rightarrow> u256 list \<Rightarrow> bool" where
  "queue_holds E H F c k st r xs \<longleftrightarrow>
     state_ok E H (F \<union> queue_cells k) st \<and>
     (\<exists>g. queue_at (state_cell H st) k g xs \<and> g + length xs + r = 2 ^ 64 - 1) \<and>
     (\<forall>l \<in> F - queue_cells k. state_cell H st l = c l)"

interpretation sq: fifo "queue_step (state_backend E H) H (open_queue_at H k)" "queue_holds E H F c k"
  for E H F c k
proof
  fix st r xs v
  assume "queue_holds E H F c k st (Suc r) xs"
  then obtain g where ok: "state_ok E H (F \<union> queue_cells k) st"
    and fr: "\<forall>l \<in> F - queue_cells k. state_cell H st l = c l"
    and q: "queue_at (state_cell H st) k g xs" and b: "g + length xs + Suc r = 2 ^ 64 - 1"
    by (auto simp: queue_holds_def)
  from b have "g + length xs + 1 < 2 ^ 64" by simp
  from st.put_run [OF ok q this Un_upper2, of v] obtain st' where
    "put (state_backend E H) H (open_queue_at H k) v st = (Ok (), st')"
    "state_ok E H (F \<union> queue_cells k) st'" "queue_at (state_cell H st') k g (xs @ [v])"
    "\<And>l. l \<in> F \<union> queue_cells k - queue_cells k \<Longrightarrow> state_cell H st' l = state_cell H st l" by blast
  with b fr show "\<exists>st'. queue_step (state_backend E H) H (open_queue_at H k) (Put v) st = (Ok None, st') \<and>
      queue_holds E H F c k st' r (xs @ [v])"
    by (auto simp: run_simps queue_holds_def intro!: exI [of _ g])
next
  fix st r xs op
  assume "queue_holds E H F c k st r xs" and op: "\<And>v. op \<noteq> Put v"
  then obtain g where ok: "state_ok E H (F \<union> queue_cells k) st"
    and fr: "\<forall>l \<in> F - queue_cells k. state_cell H st l = c l"
    and q: "queue_at (state_cell H st) k g xs" and b: "g + length xs + r = 2 ^ 64 - 1"
    by (auto simp: queue_holds_def)
  show "\<exists>st' r'. queue_step (state_backend E H) H (open_queue_at H k) op st =
        (Ok (fst (deque_step op xs)), st') \<and> r \<le> r' \<and> queue_holds E H F c k st' r' (snd (deque_step op xs))"
  proof (cases op)
    case (Put v)
    with op show ?thesis by blast
  next
    case Get
    show ?thesis
    proof (cases xs)
      case Nil
      with Get ok q b fr st.empty_run(1) [OF ok, of k g] show ?thesis
        by (auto simp: queue_holds_def)
    next
      case (Cons y ys)
      from st.get_run [OF ok q [unfolded Cons] Un_upper2] obtain st' where
        "get (state_backend E H) H (open_queue_at H k) st = (Ok (Some y), st')"
        "state_ok E H (F \<union> queue_cells k) st'" "queue_at (state_cell H st') k (g + 1) ys"
        "\<And>l. l \<in> F \<union> queue_cells k - queue_cells k \<Longrightarrow> state_cell H st' l = state_cell H st l" by blast
      moreover from this b fr Cons have "queue_holds E H F c k st' r ys"
        by (auto simp: queue_holds_def intro!: exI [of _ "Suc g"])
      ultimately show ?thesis using Get Cons by auto
    qed
  next
    case Shift
    show ?thesis
    proof (cases xs rule: rev_cases)
      case Nil
      with Shift ok q b fr st.empty_run(2) [OF ok, of k g] show ?thesis
        by (auto simp: queue_holds_def)
    next
      case (snoc ys y)
      from st.shift_run [OF ok q [unfolded snoc] Un_upper2] obtain st' where
        "shift (state_backend E H) H (open_queue_at H k) st = (Ok (Some y), st')"
        "state_ok E H (F \<union> queue_cells k) st'" "queue_at (state_cell H st') k g ys"
        "\<And>l. l \<in> F \<union> queue_cells k - queue_cells k \<Longrightarrow> state_cell H st' l = state_cell H st l" by blast
      moreover from this b fr snoc have "queue_holds E H F c k st' (Suc r) ys"
        by (auto simp: queue_holds_def intro!: exI [of _ g])
      ultimately show ?thesis using Shift snoc by (auto intro!: exI [of _ "Suc r"])
    qed
  next
    case Peek
    with ok q b fr st.peek_run [OF ok q] show ?thesis
      by (auto simp: queue_holds_def)
  qed
qed

section \<open>The properties\<close>

text \<open>
  C8: any sequence of \<open>put\<close>, \<open>get\<close>, \<open>shift\<close> and \<open>peek\<close> on a storage-backed queue succeeds and
  returns exactly what the same operations return on a list with the queue's contents, as
  long as the 64-bit position counter does not run out; afterwards the queue holds that
  list's contents, and every other cell of the footprint keeps its value.
\<close>

theorem queue_refines_deque:
  assumes "state_ok E H (F \<union> queue_cells k) st" and "queue_at (state_cell H st) k g xs"
    and "g + length xs + puts ops < 2 ^ 64"
  shows "\<exists>st' g'. run_ops (queue_step (state_backend E H) H (open_queue_at H k)) ops st =
             (Ok (fst (deque_run ops xs)), st') \<and>
           queue_at (state_cell H st') k g' (snd (deque_run ops xs)) \<and>
           (\<forall>l \<in> F - queue_cells k. state_cell H st' l = state_cell H st l)"
proof -
  have "queue_holds E H F (state_cell H st) k st (2 ^ 64 - 1 - (g + length xs)) xs"
    using assms by (auto simp: queue_holds_def)
  from sq.run_law [OF this, of ops] assms(3) show ?thesis
    by (fastforce simp: queue_holds_def)
qed

definition sample_queue :: "u256 \<Rightarrow> u256 \<Rightarrow> u256" where
  "sample_queue k key = (if k = 7 \<and> (key = 0 \<or> key = 1) then 2 else 0)"

lemma sample_queue_ok:
  shows "state_ok sample_revm sample_keccak ({} \<union> queue_cells 7) (sample_state sample_queue)"
    and "queue_at (state_cell sample_keccak (sample_state sample_queue)) 7 2 []"
proof -
  show "state_ok sample_revm sample_keccak ({} \<union> queue_cells 7) (sample_state sample_queue)"
    by (rule state_ok_sample) (auto simp: queue_cells_def)
  show "queue_at (state_cell sample_keccak (sample_state sample_queue)) 7 2 []"
    by (simp add: queue_at_def at_sample sample_queue_def)
qed

lemma queue_refines_deque_witness:
  "\<exists>st' g'. run_ops (queue_step (state_backend sample_revm sample_keccak) sample_keccak
        (open_queue_at sample_keccak 7)) [Put 5, Put 6, Put 9, Peek, Get, Shift, Get, Get]
        (sample_state sample_queue) =
      (Ok [None, None, None, Some 5, Some 5, Some 9, Some 6, None], st') \<and>
      queue_at (state_cell sample_keccak st') 7 g' []"
  using queue_refines_deque [OF sample_queue_ok, of "[Put 5, Put 6, Put 9, Peek, Get, Shift, Get, Get]"]
  by simp

end
