(* ===== verification/Bytes_Storage.thy ===== *)
theory Bytes_Storage
  imports Sample_Env
begin

text \<open>
  \<open>StorageBackedBytes\<close> of \<open>crates/arb-storage/src/bytes_storage.rs\<close>: a byte string as its
  length and its 32-byte words, the last one right-aligned, and \<open>SubStorageVector\<close> of
  \<open>vector.rs\<close>. \<open>bytes_at\<close> fixes the whole subspace as a function of the byte string, so that a
  shorter string leaves nothing of a longer one behind.
\<close>

section \<open>Byte strings\<close>

record storage_bytes =
  by_base_key :: u256
  by_account :: address

definition storage_bytes_new :: "u256 \<Rightarrow> storage_bytes" where
  "storage_bytes_new k = \<lparr>by_base_key = k, by_account = ARBOS_STATE_ADDRESS\<rparr>"

definition storage_bytes_new_with_account :: "u256 \<Rightarrow> address \<Rightarrow> storage_bytes" where
  "storage_bytes_new_with_account k a = \<lparr>by_base_key = k, by_account = a\<rparr>"

definition bytes_slot :: "keccak \<Rightarrow> storage_bytes \<Rightarrow> u64 \<Rightarrow> u256" where
  "bytes_slot H self offset =
     storage_key_map H (if by_base_key self = 0 then [] else be_bytes 32 (by_base_key self)) offset"

definition load_u64 ::
  "'s backend \<Rightarrow> keccak \<Rightarrow> storage_bytes \<Rightarrow> u64 \<Rightarrow> ('s, u64, storage_error) comp" where
  "load_u64 B H self offset =
     bnd (sload_system B (by_account self) (bytes_slot H self offset)) (\<lambda>v. ret (narrow_or_zero v))"

definition store_u64 ::
  "'s backend \<Rightarrow> keccak \<Rightarrow> storage_bytes \<Rightarrow> u64 \<Rightarrow> u64 \<Rightarrow> ('s, unit, storage_error) comp" where
  "store_u64 B H self offset v = sstore B (by_account self) (bytes_slot H self offset) (ucast v)"

definition load_word ::
  "'s backend \<Rightarrow> keccak \<Rightarrow> storage_bytes \<Rightarrow> u64 \<Rightarrow> ('s, bytes, storage_error) comp" where
  "load_word B H self offset =
     bnd (sload_system B (by_account self) (bytes_slot H self offset)) (\<lambda>v. ret (be_bytes 32 v))"

definition store_word ::
  "'s backend \<Rightarrow> keccak \<Rightarrow> storage_bytes \<Rightarrow> u64 \<Rightarrow> bytes \<Rightarrow> ('s, unit, storage_error) comp" where
  "store_word B H self offset word =
     sstore B (by_account self) (bytes_slot H self offset) (from_be word)"

text \<open>The loops of \<open>get\<close>, \<open>set\<close> and \<open>clear\<close>, with the tail after the loop.\<close>

fun bytes_read ::
  "'s backend \<Rightarrow> keccak \<Rightarrow> storage_bytes \<Rightarrow> nat \<Rightarrow> u64 \<Rightarrow> bytes \<Rightarrow> ('s, bytes, storage_error) comp" where
  "bytes_read B H self bytes_left offset acc =
     (if 32 \<le> bytes_left then
        bnd (load_word B H self offset) (\<lambda>word.
        bytes_read B H self (bytes_left - 32) (offset + 1) (acc @ word))
      else if 0 < bytes_left then
        bnd (load_word B H self offset) (\<lambda>word. ret (acc @ drop (32 - bytes_left) word))
      else ret acc)"

fun bytes_write ::
  "'s backend \<Rightarrow> keccak \<Rightarrow> storage_bytes \<Rightarrow> bytes \<Rightarrow> u64 \<Rightarrow> ('s, unit, storage_error) comp" where
  "bytes_write B H self remaining offset =
     (if 32 \<le> length remaining then
        bnd (store_word B H self offset (take 32 remaining)) (\<lambda>_.
        bytes_write B H self (drop 32 remaining) (offset + 1))
      else if remaining \<noteq> [] then
        store_word B H self offset (replicate (32 - length remaining) 0 @ remaining)
      else ret ())"

function bytes_wipe ::
  "'s backend \<Rightarrow> keccak \<Rightarrow> storage_bytes \<Rightarrow> u64 \<Rightarrow> u64 \<Rightarrow> ('s, unit, storage_error) comp" where
  "bytes_wipe B H self remaining offset =
     (if 0 < remaining then
        bnd (store_word B H self offset (replicate 32 0)) (\<lambda>_.
        bytes_wipe B H self (sat_sub remaining 32) (offset + 1))
      else ret ())"
  by pat_completeness auto
termination
  by (relation "measure (\<lambda>(B, H, self, remaining, offset). unat remaining)")
    (auto simp: unat_sat_sub unat_gt_0 word_gt_0)

definition bytes_get :: "'s backend \<Rightarrow> keccak \<Rightarrow> storage_bytes \<Rightarrow> ('s, bytes, storage_error) comp" where
  "bytes_get B H self =
     bnd (load_u64 B H self 0) (\<lambda>bytes_left.
     if bytes_left = 0 then ret [] else bytes_read B H self (unat bytes_left) 1 [])"

definition bytes_clear :: "'s backend \<Rightarrow> keccak \<Rightarrow> storage_bytes \<Rightarrow> ('s, unit, storage_error) comp" where
  "bytes_clear B H self =
     bnd (load_u64 B H self 0) (\<lambda>bytes_left.
     bnd (bytes_wipe B H self bytes_left 1) (\<lambda>_.
     store_u64 B H self 0 0))"

definition bytes_set ::
  "'s backend \<Rightarrow> keccak \<Rightarrow> storage_bytes \<Rightarrow> bytes \<Rightarrow> ('s, unit, storage_error) comp" where
  "bytes_set B H self b =
     bnd (bytes_clear B H self) (\<lambda>_.
     bnd (store_u64 B H self 0 (of_nat (length b))) (\<lambda>_.
     bytes_write B H self b 1))"

definition bytes_size :: "'s backend \<Rightarrow> keccak \<Rightarrow> storage_bytes \<Rightarrow> ('s, u64, storage_error) comp" where
  "bytes_size B H self = load_u64 B H self 0"

declare bytes_read.simps [simp del] bytes_write.simps [simp del] bytes_wipe.simps [simp del]

section \<open>Vectors of sub-storages\<close>

record sub_storage_vector =
  vec_base_key :: u256
  vec_length :: backed

definition open_sub_storage_vector_at :: "keccak \<Rightarrow> u256 \<Rightarrow> sub_storage_vector" where
  "open_sub_storage_vector_at H k = \<lparr>vec_base_key = k, vec_length = backed_new H k 0\<rparr>"

definition open_sub_storage_vector :: "keccak \<Rightarrow> storage_handle \<Rightarrow> sub_storage_vector" where
  "open_sub_storage_vector H sto = open_sub_storage_vector_at H (base_key sto)"

definition vector_length :: "'s backend \<Rightarrow> sub_storage_vector \<Rightarrow> ('s, u64, storage_error) comp" where
  "vector_length B v = uint64_get B (vec_length v)"

definition vector_at :: "keccak \<Rightarrow> sub_storage_vector \<Rightarrow> u64 \<Rightarrow> u256" where
  "vector_at H v index = derive_sub_key H (vec_base_key v) (be_bytes 8 index)"

definition vector_push ::
  "'s backend \<Rightarrow> keccak \<Rightarrow> sub_storage_vector \<Rightarrow> ('s, u256, storage_error) comp" where
  "vector_push B H v =
     bnd (uint64_get B (vec_length v)) (\<lambda>len.
     bnd (uint64_set B (vec_length v) (len + 1)) (\<lambda>_.
     ret (vector_at H v len)))"

definition vector_pop :: "'s backend \<Rightarrow> sub_storage_vector \<Rightarrow> ('s, u64 option, storage_error) comp" where
  "vector_pop B v =
     bnd (uint64_get B (vec_length v)) (\<lambda>len.
     if len = 0 then ret None else
     let new_len = len - 1 in
     bnd (uint64_set B (vec_length v) new_len) (\<lambda>_.
     ret (Some new_len)))"

section \<open>The string a subspace holds\<close>

fun words_of :: "bytes \<Rightarrow> u256 list" where
  "words_of bs =
     (if 32 \<le> length bs then from_be (take 32 bs) # words_of (drop 32 bs)
      else if bs \<noteq> [] then [from_be bs] else [])"

declare words_of.simps [simp del]

definition bytes_cell :: "storage_bytes \<Rightarrow> nat \<Rightarrow> cell_id" where
  "bytes_cell self n = (by_account self, by_base_key self, of_nat n)"

definition bytes_cells :: "storage_bytes \<Rightarrow> cell_id set" where
  "bytes_cells self = bytes_cell self ` {..<2 ^ 64}"

definition bytes_at :: "(cell_id \<Rightarrow> u256) \<Rightarrow> storage_bytes \<Rightarrow> bytes \<Rightarrow> bool" where
  "bytes_at c self bs \<longleftrightarrow>
     length bs < 2 ^ 64 \<and> c (bytes_cell self 0) = of_nat (length bs) \<and>
     (\<forall>n < 2 ^ 64 - 1. c (bytes_cell self (Suc n)) =
        (if n < length (words_of bs) then words_of bs ! n else 0))"

lemma length_words_of: "length (words_of bs) = (length bs + 31) div 32"
proof (induction bs rule: words_of.induct)
  case (1 bs)
  then show ?case
    by (subst words_of.simps) (cases bs; auto simp: div_add_self2 Suc_diff_le)
qed

lemma words_left: "0 < x \<Longrightarrow> (x + 31) div 32 = Suc ((x - 32 + 31) div 32)"
  for x :: nat
proof (cases "32 \<le> x")
  case True
  then have "x + 31 = (x - 32 + 31) + 32" by simp
  then show ?thesis by (simp only: div_add_self2)
next
  case False
  moreover assume "0 < x"
  ultimately show ?thesis by (simp add: div_nat_eqI)
qed

lemma bytes_cell_eq_iff:
  "m < 2 ^ 64 \<Longrightarrow> n < 2 ^ 64 \<Longrightarrow> bytes_cell self m = bytes_cell self n \<longleftrightarrow> m = n"
  by (auto simp: bytes_cell_def unat_of_nat dest: arg_cong [where f = unat])

lemma bytes_cell_in: "n < 2 ^ 64 \<Longrightarrow> bytes_cell self n \<in> bytes_cells self"
  by (auto simp: bytes_cells_def)

lemma bytes_slot_slot: "bytes_slot H self off = slot H (by_base_key self) (ucast off)"
  by (simp add: bytes_slot_def slot_def storage_key_def storage_key_map_ucast)

section \<open>The loops\<close>

context arb_store
begin

primrec poke_words :: "'s \<Rightarrow> storage_bytes \<Rightarrow> nat \<Rightarrow> u256 list \<Rightarrow> 's" where
  "poke_words s self n [] = s"
| "poke_words s self n (w # ws) = poke_words (poke s (bytes_cell self n) w) self (Suc n) ws"

lemma ok_poke_words [simp]: "ok s \<Longrightarrow> ok (poke_words s self n ws)"
  by (induction ws arbitrary: s n) (simp_all add: ok_poke)

lemma cell_poke_words:
  assumes "ok s" and "bytes_cells self \<subseteq> F" and "n + length ws \<le> 2 ^ 64" and "m < 2 ^ 64"
  shows "cell (poke_words s self n ws) (bytes_cell self m) =
     (if n \<le> m \<and> m < n + length ws then ws ! (m - n) else cell s (bytes_cell self m))"
  using assms(1,3)
proof (induction ws arbitrary: s n)
  case Nil
  then show ?case by auto
next
  case (Cons w ws)
  have "n < 2 ^ 64" using Cons.prems(2) by simp
  then have in_F: "bytes_cell self n \<in> F" "bytes_cell self m \<in> F"
    using assms(2,4) bytes_cell_in by blast+
  have "Suc n + length ws \<le> 2 ^ 64" using Cons.prems(2) by simp
  from Cons.IH [OF ok_poke [OF Cons.prems(1)] this] show ?case
    using in_F Cons.prems(1) bytes_cell_eq_iff [OF assms(4) \<open>n < 2 ^ 64\<close>, of self]
    by (auto simp: cell_poke nth_Cons' not_le)
qed

lemma cell_poke_words_frame:
  assumes "ok s" and "bytes_cells self \<subseteq> F" and "n + length ws \<le> 2 ^ 64" and "l \<in> F - bytes_cells self"
  shows "cell (poke_words s self n ws) l = cell s l"
  using assms(1,3)
proof (induction ws arbitrary: s n)
  case Nil
  then show ?case by simp
next
  case (Cons w ws)
  then have "bytes_cell self n \<in> bytes_cells self"
    by (intro bytes_cell_in) simp
  with assms(2,4) Cons show ?case
    by (auto simp: cell_poke ok_poke)
qed

lemma word_runs:
  assumes "ok s" and "n < 2 ^ 64"
  shows "load_word B H self (of_nat n) s = (Ok (be_bytes 32 (cell s (bytes_cell self n))), s)"
    and "store_word B H self (of_nat n) w s = (Ok (), poke s (bytes_cell self n) (from_be w))"
    and "load_u64 B H self (of_nat n) s = (Ok (narrow_or_zero (cell s (bytes_cell self n))), s)"
    and "store_u64 B H self (of_nat n) v s = (Ok (), poke s (bytes_cell self n) (ucast v))"
  using assms
  by (simp_all add: run_simps load_word_def store_word_def load_u64_def store_u64_def bytes_slot_slot
      bytes_cell_def store_simps ucast_of_nat_u64)

lemma succ_of_nat: "(of_nat n + 1 :: u64) = of_nat (Suc n)"
  by simp

lemma bytes_write_run:
  assumes "ok s" and "n + length (words_of bs) < 2 ^ 64"
  shows "bytes_write B H self bs (of_nat n) s = (Ok (), poke_words s self n (words_of bs))"
  using assms
proof (induction bs arbitrary: s n rule: words_of.induct)
  case (1 bs)
  show ?case
  proof (cases "32 \<le> length bs")
    case True
    then have w: "words_of bs = from_be (take 32 bs) # words_of (drop 32 bs)"
      by (subst words_of.simps) simp
    with 1(2,3) 1(1) [OF True ok_poke [OF 1(2)], of "Suc n"] True show ?thesis
      by (subst bytes_write.simps) (simp add: bnd_def word_runs succ_of_nat del: of_nat_Suc)
  next
    case False
    have "from_be (replicate (32 - length bs) 0 @ bs) = (from_be bs :: u256)"
      by (simp add: from_be_of_nat be_nat_append)
    with False 1(2,3) show ?thesis
      by (subst bytes_write.simps, subst words_of.simps) (simp add: run_simps word_runs)
  qed
qed

lemma bytes_read_run:
  assumes "ok s" and "n + length (words_of bs) < 2 ^ 64"
    and "\<And>j. j < length (words_of bs) \<Longrightarrow> cell s (bytes_cell self (n + j)) = words_of bs ! j"
  shows "bytes_read B H self (length bs) (of_nat n) acc s = (Ok (acc @ bs), s)"
  using assms(2,3)
proof (induction bs arbitrary: n acc rule: words_of.induct)
  case (1 bs)
  show ?case
  proof (cases "32 \<le> length bs")
    case True
    then have w: "words_of bs = from_be (take 32 bs) # words_of (drop 32 bs)"
      by (subst words_of.simps) simp
    have "cell s (bytes_cell self n) = from_be (take 32 bs)"
      using 1(3) [of 0] w by simp
    moreover have "be_bytes 32 (from_be (take 32 bs) :: u256) = take 32 bs"
      using be_bytes_from_be [of "take 32 bs", where 'a = 256] True by (simp add: min_absorb2)
    moreover have "bytes_read B H self (length (drop 32 bs)) (of_nat (Suc n)) (acc @ take 32 bs) s =
        (Ok ((acc @ take 32 bs) @ drop 32 bs), s)"
    proof (rule 1(1) [OF True])
      fix j assume "j < length (words_of (drop 32 bs))"
      with 1(3) [of "Suc j"] w show "cell s (bytes_cell self (Suc n + j)) = words_of (drop 32 bs) ! j"
        by simp
    qed (use 1(2) w in simp)
    ultimately show ?thesis
      using True 1(2) w assms(1)
      by (subst bytes_read.simps) (simp add: bnd_def word_runs succ_of_nat del: of_nat_Suc)
  next
    case False
    show ?thesis
    proof (cases "bs = []")
      case True
      then show ?thesis by (subst bytes_read.simps) (simp add: run_simps)
    next
      case nonempty: False
      with False have w: "words_of bs = [from_be bs]"
        by (subst words_of.simps) simp
      have "be_bytes 32 (from_be bs :: u256) =
          be_bytes (32 - length bs) (drop_bit (8 * length bs) (from_be bs :: u256)) @
          be_bytes (length bs) (from_be bs :: u256)"
        using be_bytes_append [of "32 - length bs" "length bs" "from_be bs :: u256"] False by simp
      also have "be_bytes (length bs) (from_be bs :: u256) = bs"
        using False by (intro be_bytes_from_be) simp
      finally have "drop (32 - length bs) (be_bytes 32 (from_be bs :: u256)) = bs"
        by simp
      with w False nonempty 1(2) 1(3) [of 0] assms(1) show ?thesis
        by (subst bytes_read.simps) (simp add: run_simps word_runs)
    qed
  qed
qed

lemma bytes_wipe_run:
  assumes "ok s" and "n + (unat rem + 31) div 32 < 2 ^ 64"
  shows "bytes_wipe B H self rem (of_nat n) s =
    (Ok (), poke_words s self n (replicate ((unat rem + 31) div 32) 0))"
  using assms
proof (induction "unat rem" arbitrary: rem s n rule: less_induct)
  case less
  show ?case
  proof (cases "rem = 0")
    case True
    then show ?thesis by (subst bytes_wipe.simps) (simp add: run_simps)
  next
    case False
    then have pos: "0 < unat rem" by (simp add: unat_gt_0)
    define k where "k = (unat (sat_sub rem 32) + 31) div 32"
    have steps: "(unat rem + 31) div 32 = Suc k"
      using pos by (simp add: k_def unat_sat_sub words_left)
    have "unat (sat_sub rem 32) < unat rem"
      using pos by (simp add: unat_sat_sub)
    moreover have n: "Suc n + k < 2 ^ 64"
      using less.prems(2) unfolding steps by simp
    ultimately have "bytes_wipe B H self (sat_sub rem 32) (of_nat (Suc n)) (poke s (bytes_cell self n) 0) =
        (Ok (), poke_words (poke s (bytes_cell self n) 0) self (Suc n) (replicate k 0))"
      unfolding k_def using less.hyps ok_poke [OF less.prems(1)] by blast
    moreover have "store_word B H self (of_nat n) (replicate 32 0) s = (Ok (), poke s (bytes_cell self n) 0)"
      using word_runs(2) [OF less.prems(1), of n self "replicate 32 0"] n
      by (simp add: from_be_of_nat)
    ultimately show ?thesis
      using False unfolding steps
      by (subst bytes_wipe.simps) (simp add: bnd_def succ_of_nat word_gt_0 del: of_nat_Suc)
  qed
qed

lemma length_words_bound: "length bs < 2 ^ 64 \<Longrightarrow> length (words_of bs) \<le> 2 ^ 59"
  by (simp add: length_words_of)

lemma load_length:
  assumes "ok s" and "bytes_at (cell s) self bs"
  shows "load_u64 B H self 0 s = (Ok (of_nat (length bs)), s)"
  using assms word_runs(3) [OF assms(1), of 0 self]
  by (simp add: bytes_at_def word_unat_eq_iff unat_narrow_or_zero unat_of_nat)

lemma bytes_get_run:
  assumes "ok s" and "bytes_at (cell s) self bs"
  shows "bytes_get B H self s = (Ok bs, s)"
proof -
  have len: "length bs < 2 ^ 64" using assms(2) by (simp add: bytes_at_def)
  have n: "length (words_of bs) \<le> 2 ^ 59" by (rule length_words_bound [OF len])
  have "bytes_read B H self (length bs) (of_nat 1) [] s = (Ok ([] @ bs), s)"
  proof (rule bytes_read_run [OF assms(1)])
    fix j assume "j < length (words_of bs)"
    with n assms(2) show "cell s (bytes_cell self (1 + j)) = words_of bs ! j"
      by (simp add: bytes_at_def)
  qed (use n in simp)
  moreover have "(of_nat (length bs) :: u64) = 0 \<longleftrightarrow> bs = []"
    using len by (simp add: word_unat_eq_iff unat_of_nat)
  ultimately show ?thesis
    using len by (simp add: run_simps bytes_get_def load_length [OF assms] unat_of_nat)
qed

lemma bytes_clear_run:
  assumes "ok s" and at: "bytes_at (cell s) self bs" and F: "bytes_cells self \<subseteq> F"
  obtains s' where "bytes_clear B H self s = (Ok (), s')" and "ok s'"
    and "bytes_at (cell s') self []" and "\<And>l. l \<in> F - bytes_cells self \<Longrightarrow> cell s' l = cell s l"
proof -
  let ?s1 = "poke_words s self 1 (replicate (length (words_of bs)) 0)"
  let ?s' = "poke ?s1 (bytes_cell self 0) 0"
  have len: "length bs < 2 ^ 64" using at by (simp add: bytes_at_def)
  have n: "length (words_of bs) \<le> 2 ^ 59" by (rule length_words_bound [OF len])
  have in_F: "bytes_cell self 0 \<in> F" using F bytes_cell_in [of 0] by auto
  have wipe: "bytes_wipe B H self (of_nat (length bs)) (of_nat 1) s = (Ok (), ?s1)"
    using bytes_wipe_run [OF assms(1), of 1 "of_nat (length bs)" self] n len
    by (simp add: unat_of_nat length_words_of)
  have run: "bytes_clear B H self s = (Ok (), ?s')"
    using wipe word_runs(4) [OF ok_poke_words [OF assms(1)], of 0 self 0 self 1]
    by (simp add: run_simps bytes_clear_def load_length [OF assms(1) at])
  have cells: "cell ?s' (bytes_cell self (Suc m)) = 0" if "m < 2 ^ 64 - 1" for m
  proof -
    have "bytes_cell self (Suc m) \<in> F" and "bytes_cell self (Suc m) \<noteq> bytes_cell self 0"
      using that F bytes_cell_in [of "Suc m"] bytes_cell_eq_iff [of "Suc m" 0 self] by auto
    moreover have "cell ?s1 (bytes_cell self (Suc m)) = 0"
      using that at n by (subst cell_poke_words [OF assms(1) F]) (auto simp: bytes_at_def)
    ultimately show ?thesis
      using assms(1) in_F by (simp add: cell_poke)
  qed
  have "bytes_at (cell ?s') self []"
    using cells assms(1) in_F by (auto simp: bytes_at_def cell_poke words_of.simps [of "[]"])
  moreover have "cell ?s' l = cell s l" if "l \<in> F - bytes_cells self" for l
    using that in_F assms(1) bytes_cell_in [of 0 self] n
    by (auto simp: cell_poke cell_poke_words_frame [OF assms(1) F])
  ultimately show thesis
    using that [OF run] assms(1) by (simp add: ok_poke)
qed

lemma bytes_set_run:
  assumes "ok s" and at: "bytes_at (cell s) self old" and F: "bytes_cells self \<subseteq> F"
    and len: "length bs < 2 ^ 64"
  obtains s' where "bytes_set B H self bs s = (Ok (), s')" and "ok s'"
    and "bytes_at (cell s') self bs" and "\<And>l. l \<in> F - bytes_cells self \<Longrightarrow> cell s' l = cell s l"
proof -
  obtain s1 where clear: "bytes_clear B H self s = (Ok (), s1)" and "ok s1"
    and at1: "bytes_at (cell s1) self []" and fr: "\<And>l. l \<in> F - bytes_cells self \<Longrightarrow> cell s1 l = cell s l"
    using bytes_clear_run [OF assms(1) at F] by blast
  let ?s2 = "poke s1 (bytes_cell self 0) (of_nat (length bs))"
  let ?s' = "poke_words ?s2 self 1 (words_of bs)"
  have n: "length (words_of bs) \<le> 2 ^ 59" by (rule length_words_bound [OF len])
  have in_F: "m < 2 ^ 64 \<Longrightarrow> bytes_cell self m \<in> F" for m using F bytes_cell_in by blast
  have store: "store_u64 B H self 0 (of_nat (length bs)) s1 = (Ok (), ?s2)"
    using word_runs(4) [OF \<open>ok s1\<close>, of 0 self] len by (simp add: ucast_of_nat_u64)
  have wr: "bytes_write B H self bs 1 ?s2 = (Ok (), ?s')"
    using bytes_write_run [OF ok_poke [OF \<open>ok s1\<close>], of 1 bs self] n by simp
  have run: "bytes_set B H self bs s = (Ok (), ?s')"
    by (simp add: bnd_def bytes_set_def clear store wr)
  have cells: "cell ?s' (bytes_cell self m) =
      (if m = 0 then of_nat (length bs) else if m - 1 < length (words_of bs) then words_of bs ! (m - 1) else 0)"
    if "m < 2 ^ 64" for m
    using that n at1 \<open>ok s1\<close> in_F [of m] in_F [of 0] bytes_cell_eq_iff [of m 0 self]
    by (cases m) (auto simp: cell_poke_words [OF ok_poke [OF \<open>ok s1\<close>] F] cell_poke bytes_at_def
        words_of.simps [of "[]"])
  have "bytes_at (cell ?s') self bs"
    using cells len by (simp add: bytes_at_def)
  moreover have "cell ?s' l = cell s l" if "l \<in> F - bytes_cells self" for l
    using that in_F [of 0] \<open>ok s1\<close> bytes_cell_in [of 0 self] n fr [OF that]
    by (auto simp: cell_poke cell_poke_words_frame [OF ok_poke [OF \<open>ok s1\<close>] F])
  ultimately show thesis
    using that [OF run] \<open>ok s1\<close> by (simp add: ok_poke)
qed

lemma vector_runs:
  assumes "ok s" and "cell s (at k 0) = ucast n"
  shows "vector_length B (open_sub_storage_vector_at H k) s = (Ok n, s)"
    and "vector_push B H (open_sub_storage_vector_at H k) s =
           (Ok (vector_at H (open_sub_storage_vector_at H k) n), poke s (at k 0) (ucast (n + 1)))"
    and "vector_pop B (open_sub_storage_vector_at H k) s =
           (if n = 0 then (Ok None, s) else (Ok (Some (n - 1)), poke s (at k 0) (ucast (n - 1))))"
  using assms
  by (simp_all add: run_simps vector_length_def vector_push_def vector_pop_def
      open_sub_storage_vector_at_def store_simps vector_at_def Let_def)

end

section \<open>The properties\<close>

text \<open>
  C22: whatever byte string a subspace holds, storing another one of any length below
  2^64 succeeds, reading it back returns it unchanged, its size is its length, no word of
  the old string is left behind, and no other cell of the footprint changes.
\<close>

theorem storage_bytes_round_trip:
  assumes "state_ok E H (F \<union> bytes_cells self) st" and "bytes_at (state_cell H st) self old"
    and "length bs < 2 ^ 64"
  shows "\<exists>st'. bytes_set (state_backend E H) H self bs st = (Ok (), st') \<and>
           bytes_get (state_backend E H) H self st' = (Ok bs, st') \<and>
           bytes_size (state_backend E H) H self st' = (Ok (of_nat (length bs)), st') \<and>
           bytes_at (state_cell H st') self bs \<and>
           (\<forall>l \<in> F - bytes_cells self. state_cell H st' l = state_cell H st l)"
proof -
  obtain st' where st': "bytes_set (state_backend E H) H self bs st = (Ok (), st')"
      "state_ok E H (F \<union> bytes_cells self) st'" "bytes_at (state_cell H st') self bs"
      "\<And>l. l \<in> F \<union> bytes_cells self - bytes_cells self \<Longrightarrow> state_cell H st' l = state_cell H st l"
    using st.bytes_set_run [OF assms(1,2) Un_upper2 assms(3)] by blast
  then show ?thesis
    using st.bytes_get_run [OF st'(2,3)] st.load_length [OF st'(2,3)] by (auto simp: bytes_size_def)
qed

lemma storage_bytes_round_trip_witness:
  "\<exists>st'. bytes_set (state_backend sample_revm sample_keccak) sample_keccak (storage_bytes_new 7)
        [1, 2, 3] (sample_state (\<lambda>_ _. 0)) = (Ok (), st') \<and>
      bytes_get (state_backend sample_revm sample_keccak) sample_keccak (storage_bytes_new 7) st' =
        (Ok [1, 2, 3], st')"
proof -
  let ?b = "storage_bytes_new 7"
  have small: "small_cell l" if "l \<in> {} \<union> bytes_cells ?b" for l
    using that by (auto simp: bytes_cells_def bytes_cell_def storage_bytes_new_def unat_of_nat)
  have "state_cell sample_keccak (sample_state (\<lambda>_ _. 0)) (bytes_cell ?b n) = 0" if "n < 2 ^ 64" for n
    using that unfolding bytes_cell_def
    by (subst state_cell_sample) (simp_all add: storage_bytes_new_def unat_of_nat)
  then have "bytes_at (state_cell sample_keccak (sample_state (\<lambda>_ _. 0))) ?b []"
    by (simp add: bytes_at_def words_of.simps [of "[]"])
  moreover have "length [1 :: u8, 2, 3] < 2 ^ 64" by simp
  ultimately show ?thesis
    using storage_bytes_round_trip [OF state_ok_sample [OF small]] by blast
qed

text \<open>
  \<open>push\<close> on a vector of sub-storages returns the key of the next element and \<open>pop\<close> the index of
  the last one; a push followed by a pop leaves the vector's length as it was.
\<close>

theorem vector_push_pop:
  assumes "state_ok E H (range (at k)) st" and "state_cell H st (at k 0) = ucast n" and "n \<noteq> - 1"
  shows "\<exists>st'. vector_push (state_backend E H) H (open_sub_storage_vector_at H k) st =
             (Ok (vector_at H (open_sub_storage_vector_at H k) n), st') \<and>
           vector_length (state_backend E H) (open_sub_storage_vector_at H k) st' = (Ok (n + 1), st') \<and>
           (\<exists>st''. vector_pop (state_backend E H) (open_sub_storage_vector_at H k) st' = (Ok (Some n), st'') \<and>
              vector_length (state_backend E H) (open_sub_storage_vector_at H k) st'' = (Ok n, st''))"
proof -
  let ?st' = "state_poke E H st (at k 0) (ucast (n + 1))"
  let ?st'' = "state_poke E H ?st' (at k 0) (ucast n)"
  have ok: "state_ok E H (range (at k)) ?st'" "state_ok E H (range (at k)) ?st''"
    using assms(1) by (simp_all add: st.ok_poke)
  have cells: "state_cell H ?st' (at k 0) = ucast (n + 1)" "state_cell H ?st'' (at k 0) = ucast n"
    using assms(1) ok(1) st.cell_poke by auto
  have "n + 1 \<noteq> 0"
    using assms(3) by (simp add: eq_neg_iff_add_eq_0)
  with st.vector_runs [OF assms(1,2)] st.vector_runs [OF ok(1) cells(1)]
    st.vector_runs(1) [OF ok(2) cells(2)] show ?thesis
    by simp
qed

lemma vector_push_pop_witness:
  "\<exists>st'. vector_push (state_backend sample_revm sample_keccak) sample_keccak
          (open_sub_storage_vector_at sample_keccak 7) (sample_state (\<lambda>_ _. 2)) =
        (Ok (vector_at sample_keccak (open_sub_storage_vector_at sample_keccak 7) 2), st') \<and>
      vector_length (state_backend sample_revm sample_keccak)
          (open_sub_storage_vector_at sample_keccak 7) st' = (Ok 3, st')"
proof -
  have "state_ok sample_revm sample_keccak (range (at 7)) (sample_state (\<lambda>_ _. 2))"
    by (rule state_ok_sample) auto
  moreover have "state_cell sample_keccak (sample_state (\<lambda>_ _. 2)) (at 7 0) = ucast (2 :: u64)"
    by (simp add: at_sample)
  moreover have "(2 :: u64) \<noteq> - 1" by simp
  ultimately show ?thesis
    using vector_push_pop [of sample_revm sample_keccak 7 "sample_state (\<lambda>_ _. 2)" 2] by auto
qed

end
