(* ===== verification/Address_Set.thy ===== *)
theory Address_Set
  imports Sample_Env
begin

text \<open>
  The set of addresses of \<open>crates/arbos/src/address_set/mod.rs\<close> (chain owners, native token
  owners, transaction filterers, cache managers, the batch posters): the members in an array
  with their number in front, and the array index of each member in a sub-storage.

  \<open>aset_at\<close> relates the cells to the array of members; every operation is shown to act on it.
  The locale \<open>address_set_contract\<close> is what the users of a set rely on.
\<close>

section \<open>The set\<close>

datatype address_set_error = AS_Storage storage_error | NotMember | MappingAlreadyConsistent

record address_set =
  as_backing :: storage_handle
  as_size :: backed
  as_by_address :: storage_handle

definition aset_write_cost :: "u256 \<Rightarrow> u64" where
  "aset_write_cost v = write_cost (v = 0)"

definition initialize_address_set ::
  "'s backend \<Rightarrow> keccak \<Rightarrow> storage_handle \<Rightarrow> ('s, unit, address_set_error) comp" where
  "initialize_address_set B H sto = map_err AS_Storage (set_by_uint64 B H sto 0 0)"

definition open_address_set :: "keccak \<Rightarrow> storage_handle \<Rightarrow> address_set" where
  "open_address_set H sto =
     \<lparr>as_backing = sto, as_size = backed_new H (base_key sto) 0,
      as_by_address = open_sub_storage H sto [0]\<rparr>"

definition address_to_hash :: "address \<Rightarrow> u256" where
  "address_to_hash addr = from_be (replicate 12 0 @ be_bytes 20 addr)"

definition uint_to_hash :: "u64 \<Rightarrow> u256" where
  "uint_to_hash val = ucast val"

definition hash_to_uint64 :: "u256 \<Rightarrow> ('s, u64, 'e) comp" where
  "hash_to_uint64 hash = to_or_panic hash"

definition by_address_get ::
  "'s backend \<Rightarrow> keccak \<Rightarrow> address_set \<Rightarrow> u256 \<Rightarrow> ('s, u256, address_set_error) comp" where
  "by_address_get B H self key =
     map_err AS_Storage (sload_system B (sto_account (as_by_address self))
       (slot_for_key H (as_by_address self) key))"

definition by_address_set ::
  "'s backend \<Rightarrow> keccak \<Rightarrow> address_set \<Rightarrow> u256 \<Rightarrow> u256 \<Rightarrow> ('s, unit, address_set_error) comp" where
  "by_address_set B H self key val =
     map_err AS_Storage (sstore B (sto_account (as_by_address self))
       (slot_for_key H (as_by_address self) key) val)"

definition backing_get_by_uint64 ::
  "'s backend \<Rightarrow> keccak \<Rightarrow> address_set \<Rightarrow> u64 \<Rightarrow> ('s, u256, address_set_error) comp" where
  "backing_get_by_uint64 B H self offset =
     map_err AS_Storage (sload_system B (sto_account (as_backing self)) (new_slot H (as_backing self) offset))"

definition backing_set_by_uint64 ::
  "'s backend \<Rightarrow> keccak \<Rightarrow> address_set \<Rightarrow> u64 \<Rightarrow> u256 \<Rightarrow> ('s, unit, address_set_error) comp" where
  "backing_set_by_uint64 B H self offset val =
     map_err AS_Storage (sstore B (sto_account (as_backing self)) (new_slot H (as_backing self) offset) val)"

definition aset_size :: "'s backend \<Rightarrow> address_set \<Rightarrow> ('s, u64, address_set_error) comp" where
  "aset_size B self = map_err AS_Storage (uint64_get B (as_size self))"

definition is_member ::
  "'s backend \<Rightarrow> keccak \<Rightarrow> address_set \<Rightarrow> address \<Rightarrow> ('s, bool, address_set_error) comp" where
  "is_member B H self addr =
     bnd (by_address_get B H self (address_to_hash addr)) (\<lambda>val. ret (val \<noteq> 0))"

definition get_any_member ::
  "'s backend \<Rightarrow> keccak \<Rightarrow> address_set \<Rightarrow> ('s, address option, address_set_error) comp" where
  "get_any_member B H self =
     bnd (map_err AS_Storage (uint64_get B (as_size self))) (\<lambda>size.
     if size = 0 then ret None else
     bnd (map_err AS_Storage (addr_get B (backed_new H (base_key (as_backing self)) 1))) (\<lambda>a.
     ret (Some a)))"

definition aset_clear ::
  "'s backend \<Rightarrow> keccak \<Rightarrow> address_set \<Rightarrow> ('s, unit, address_set_error) comp" where
  "aset_clear B H self =
     bnd (map_err AS_Storage (uint64_get B (as_size self))) (\<lambda>size.
     if size = 0 then ret () else
     bnd (for_each (u64_range_incl 1 size) (\<lambda>i.
        bnd (backing_get_by_uint64 B H self i) (\<lambda>contents.
        bnd (backing_set_by_uint64 B H self i 0) (\<lambda>_.
        by_address_set B H self contents 0)))) (\<lambda>_.
     map_err AS_Storage (uint64_set B (as_size self) 0)))"

definition all_members ::
  "'s backend \<Rightarrow> keccak \<Rightarrow> address_set \<Rightarrow> u64 \<Rightarrow> ('s, address list, address_set_error) comp" where
  "all_members B H self max_num =
     bnd (map_err AS_Storage (uint64_get B (as_size self))) (\<lambda>size.
     let size = (if max_num < size then max_num else size) in
     fold_each (u64_range 0 size) (\<lambda>i acc.
        bnd (map_err AS_Storage (addr_get B (backed_new H (base_key (as_backing self)) (i + 1)))) (\<lambda>a.
        ret (acc @ [a]))) [])"

definition clear_list ::
  "'s backend \<Rightarrow> keccak \<Rightarrow> address_set \<Rightarrow> ('s, unit, address_set_error) comp" where
  "clear_list B H self =
     bnd (map_err AS_Storage (uint64_get B (as_size self))) (\<lambda>size.
     if size = 0 then ret () else
     bnd (for_each (u64_range_incl 1 size) (\<lambda>i. backing_set_by_uint64 B H self i 0)) (\<lambda>_.
     map_err AS_Storage (uint64_set B (as_size self) 0)))"

definition add ::
  "'s backend \<Rightarrow> keccak \<Rightarrow> address_set \<Rightarrow> address \<Rightarrow> ('s, unit, address_set_error) comp" where
  "add B H self addr =
     bnd (is_member B H self addr) (\<lambda>present.
     if present then ret () else
     bnd (map_err AS_Storage (uint64_get B (as_size self))) (\<lambda>size.
     bnd (by_address_set B H self (address_to_hash addr) (uint_to_hash (1 + size))) (\<lambda>_.
     bnd (map_err AS_Storage (addr_set B (backed_new H (base_key (as_backing self)) (1 + size)) addr)) (\<lambda>_.
     map_err AS_Storage (uint64_set B (as_size self) (size + 1))))))"

definition rectify_mapping ::
  "'s backend \<Rightarrow> keccak \<Rightarrow> address_set \<Rightarrow> address \<Rightarrow> ('s, unit, address_set_error) comp" where
  "rectify_mapping B H self addr =
     bnd (is_member B H self addr) (\<lambda>member.
     if \<not> member then throw NotMember else
     bnd (by_address_get B H self (address_to_hash addr)) (\<lambda>h.
     bnd (hash_to_uint64 h) (\<lambda>slot.
     bnd (backing_get_by_uint64 B H self slot) (\<lambda>at_slot.
     bnd (map_err AS_Storage (uint64_get B (as_size self))) (\<lambda>size.
     if at_slot = address_to_hash addr \<and> slot \<le> size then throw MappingAlreadyConsistent else
     bnd (by_address_set B H self (address_to_hash addr) 0) (\<lambda>_.
     add B H self addr))))))"

text \<open>\<open>gas: &mut u64\<close> is kept next to the state.\<close>

definition remove ::
  "'s backend \<Rightarrow> keccak \<Rightarrow> address_set \<Rightarrow> address \<Rightarrow> u64 \<Rightarrow> ('s \<times> u64, unit, address_set_error) comp" where
  "remove B H self addr arbos_version =
     (let addr_as_hash = address_to_hash addr; charge = (\<lambda>n. on_local (\<lambda>gas. gas + n)) in
     bnd (on_state (by_address_get B H self addr_as_hash)) (\<lambda>slot_hash.
     bnd (charge STORAGE_READ_GAS) (\<lambda>_.
     bnd (hash_to_uint64 slot_hash) (\<lambda>slot.
     if slot = 0 then ret () else
     bnd (on_state (by_address_set B H self addr_as_hash 0)) (\<lambda>_.
     bnd (charge STORAGE_WRITE_ZERO_GAS) (\<lambda>_.
     bnd (on_state (map_err AS_Storage (uint64_get B (as_size self)))) (\<lambda>size.
     bnd (charge STORAGE_READ_GAS) (\<lambda>_.
     bnd (if slot < size then
            bnd (on_state (backing_get_by_uint64 B H self size)) (\<lambda>at_size.
            bnd (charge STORAGE_READ_GAS) (\<lambda>_.
            bnd (on_state (backing_set_by_uint64 B H self slot at_size)) (\<lambda>_.
            bnd (charge (aset_write_cost at_size)) (\<lambda>_.
            if 11 \<le> arbos_version then
              bnd (on_state (by_address_set B H self at_size (uint_to_hash slot))) (\<lambda>_.
              charge (aset_write_cost (uint_to_hash slot)))
            else ret ()))))
          else ret ()) (\<lambda>_.
     bnd (on_state (backing_set_by_uint64 B H self size 0)) (\<lambda>_.
     bnd (charge STORAGE_WRITE_ZERO_GAS) (\<lambda>_.
     let new_size = size - 1 in
     bnd (charge STORAGE_READ_GAS) (\<lambda>_.
     bnd (on_state (map_err AS_Storage (uint64_set B (as_size self) new_size))) (\<lambda>_.
     charge (aset_write_cost (uint_to_hash new_size)))))))))))))))"

section \<open>The members a set holds\<close>

definition member_cell :: "keccak \<Rightarrow> u256 \<Rightarrow> address \<Rightarrow> cell_id" where
  "member_cell H k a = (ARBOS_STATE_ADDRESS, derive_sub_key H k [0], ucast a)"

definition aset_cells :: "keccak \<Rightarrow> u256 \<Rightarrow> address set \<Rightarrow> cell_id set" where
  "aset_cells H k U = range (at k) \<union> member_cell H k ` U"

text \<open>\<open>U\<close> are the addresses in play; \<open>xs\<close> the members in the order of the array.\<close>

definition aset_at :: "keccak \<Rightarrow> (cell_id \<Rightarrow> u256) \<Rightarrow> u256 \<Rightarrow> address set \<Rightarrow> address list \<Rightarrow> bool" where
  "aset_at H c k U xs \<longleftrightarrow>
     distinct xs \<and> set xs \<subseteq> U \<and> length xs < 2 ^ 64 - 1 \<and> derive_sub_key H k [0] \<noteq> k \<and>
     c (at k 0) = of_nat (length xs) \<and>
     (\<forall>i < length xs. c (at k (of_nat (Suc i))) = ucast (xs ! i)) \<and>
     (\<forall>i < length xs. c (member_cell H k (xs ! i)) = of_nat (Suc i)) \<and>
     (\<forall>a \<in> U - set xs. c (member_cell H k a) = 0)"

lemma address_to_hash_ucast: "address_to_hash a = ucast a"
  by (simp add: address_to_hash_def from_be_padded)

lemma member_cell_eq_iff [simp]: "member_cell H k a = member_cell H k b \<longleftrightarrow> a = b"
  by (simp add: member_cell_def ucast_up_inj)

lemma member_cell_neq_at:
  "derive_sub_key H k [0] \<noteq> k \<Longrightarrow> member_cell H k a \<noteq> at k off"
  "derive_sub_key H k [0] \<noteq> k \<Longrightarrow> at k off \<noteq> member_cell H k a"
  by (auto simp: member_cell_def at_def)

lemma aset_cellsI:
  "aset_cells H k U \<subseteq> F \<Longrightarrow> at k off \<in> F"
  "aset_cells H k U \<subseteq> F \<Longrightarrow> a \<in> U \<Longrightarrow> member_cell H k a \<in> F"
  by (auto simp: aset_cells_def)

abbreviation aset :: "keccak \<Rightarrow> u256 \<Rightarrow> address_set" where
  "aset H k \<equiv> open_address_set H (storage_new k)"

text \<open>What a removal of the member at place \<open>p\<close> costs.\<close>

definition remove_gas :: "address list \<Rightarrow> nat \<Rightarrow> u64" where
  "remove_gas xs p = 3 * STORAGE_READ_GAS + 2 * STORAGE_WRITE_ZERO_GAS + write_cost (length xs = 1) +
     (if Suc p < length xs then STORAGE_READ_GAS + write_cost (last xs = 0) + STORAGE_WRITE_GAS else 0)"

lemma distinct_swap_remove:
  assumes "distinct xs" and "p < length xs"
  shows "distinct (butlast (xs[p := last xs]))"
proof (rule distinct_conv_nth [THEN iffD2], intro allI impI)
  fix i j assume ij: "i < length (butlast (xs[p := last xs]))" "j < length (butlast (xs[p := last xs]))" "i \<noteq> j"
  have "last xs = xs ! (length xs - 1)"
    using assms(2) by (rule last_nth)
  with ij assms show "butlast (xs[p := last xs]) ! i \<noteq> butlast (xs[p := last xs]) ! j"
    by (auto simp: nth_butlast nth_list_update nth_eq_iff_index_eq)
qed

lemma set_swap_remove:
  assumes "distinct xs" and "p < length xs"
  shows "set (butlast (xs[p := last xs])) = set xs - {xs ! p}"
proof -
  have last: "last xs = xs ! (length xs - 1)"
    using assms(2) by (rule last_nth)
  have "b \<in> set (butlast (xs[p := last xs])) \<longleftrightarrow> (\<exists>i < length xs - 1. b = (if i = p then last xs else xs ! i))" for b
    by (auto simp: in_set_conv_nth nth_butlast nth_list_update)
  moreover have "b \<in> set xs - {xs ! p} \<longleftrightarrow> (\<exists>i < length xs. i \<noteq> p \<and> b = xs ! i)" for b
    using assms by (auto simp: in_set_conv_nth nth_eq_iff_index_eq)
  moreover have "(\<exists>i < length xs - 1. b = (if i = p then last xs else xs ! i)) \<longleftrightarrow>
      (\<exists>i < length xs. i \<noteq> p \<and> b = xs ! i)" for b
  proof
    assume "\<exists>i < length xs - 1. b = (if i = p then last xs else xs ! i)"
    then obtain i where "i < length xs - 1" "b = (if i = p then last xs else xs ! i)" by blast
    with last show "\<exists>i < length xs. i \<noteq> p \<and> b = xs ! i"
      by (intro exI [of _ "if i = p then length xs - 1 else i"]) auto
  next
    assume "\<exists>i < length xs. i \<noteq> p \<and> b = xs ! i"
    then obtain i where "i < length xs" "i \<noteq> p" "b = xs ! i" by blast
    with last assms(2) show "\<exists>i < length xs - 1. b = (if i = p then last xs else xs ! i)"
      by (intro exI [of _ "if i = length xs - 1 then p else i"]) auto
  qed
  ultimately show ?thesis by blast
qed

section \<open>The operations on the members\<close>

context arb_store
begin

lemma aset_access:
  assumes "ok s"
  shows "by_address_get B H (aset H k) (ucast a) s = (Ok (cell s (member_cell H k a)), s)"
    and "by_address_set B H (aset H k) (ucast a) v s = (Ok (), poke s (member_cell H k a) v)"
    and "backing_get_by_uint64 B H (aset H k) off s = (Ok (cell s (at k off)), s)"
    and "backing_set_by_uint64 B H (aset H k) off v s = (Ok (), poke s (at k off) v)"
    and "uint64_get B (as_size (aset H k)) s = (Ok (narrow_or_zero (cell s (at k 0))), s)"
    and "uint64_set B (as_size (aset H k)) w s = (Ok (), poke s (at k 0) (ucast w))"
  using assms
  by (simp_all add: run_simps by_address_get_def by_address_set_def backing_get_by_uint64_def
      backing_set_by_uint64_def open_address_set_def open_sub_storage_def storage_new_def
      new_slot_slot slot_for_key_slot store_simps member_cell_def at_def)

lemma aset_size_run:
  assumes "ok s" and "aset_at H (cell s) k U xs"
  shows "uint64_get B (as_size (aset H k)) s = (Ok (of_nat (length xs)), s)"
  using assms by (simp add: aset_access aset_at_def counter_simps)

lemma is_member_run:
  assumes "ok s" and "aset_at H (cell s) k U xs" and "a \<in> U"
  shows "is_member B H (aset H k) a s = (Ok (a \<in> set xs), s)"
proof -
  have "cell s (member_cell H k a) \<noteq> 0 \<longleftrightarrow> a \<in> set xs"
  proof (cases "a \<in> set xs")
    case True
    then obtain i where "i < length xs" "xs ! i = a" by (auto simp: in_set_conv_nth)
    with assms(2) True show ?thesis by (auto simp: aset_at_def counter_simps simp del: of_nat_Suc)
  qed (use assms(2,3) in \<open>auto simp: aset_at_def\<close>)
  then show ?thesis
    using assms(1) by (simp add: run_simps is_member_def address_to_hash_ucast aset_access)
qed

lemma add_run:
  assumes "ok s" and at: "aset_at H (cell s) k U xs" and "a \<in> U" and F: "aset_cells H k U \<subseteq> F"
    and "length xs + 2 < 2 ^ 64"
  obtains s' where "add B H (aset H k) a s = (Ok (), s')" and "ok s'"
    and "aset_at H (cell s') k U (if a \<in> set xs then xs else xs @ [a])"
    and "\<And>l. l \<in> F - aset_cells H k U \<Longrightarrow> cell s' l = cell s l"
proof (cases "a \<in> set xs")
  case True
  then have "add B H (aset H k) a s = (Ok (), s)"
    by (simp add: run_simps add_def is_member_run [OF assms(1) at assms(3)])
  with that True assms(1) at show thesis by simp
next
  case False
  note [simp del] = of_nat_Suc of_nat_add
  let ?n = "length xs"
  let ?s' = "poke (poke (poke s (member_cell H k a) (of_nat (Suc ?n)))
    (at k (of_nat (Suc ?n))) (ucast a)) (at k 0) (of_nat (Suc ?n))"
  have succ: "(of_nat ?n + 1 :: u64) = of_nat (Suc ?n)" "(1 + of_nat ?n :: u64) = of_nat (Suc ?n)"
    by (simp_all add: of_nat_Suc)
  have addr: "addr_set B (backed_new H (base_key (as_backing (aset H k))) off) a t =
      (Ok (), poke t (at k off) (ucast a))" if "ok t" for off t
    using that by (simp add: addr_set_run open_address_set_def storage_new_def)
  have run: "add B H (aset H k) a s = (Ok (), ?s')"
    using False assms(1,5)
    by (simp add: run_simps add_def is_member_run [OF assms(1) at assms(3)] aset_size_run [OF assms(1) at]
        address_to_hash_ucast aset_access ok_poke addr uint_to_hash_def succ counter_simps)
  have neq: "i \<le> ?n \<Longrightarrow> (of_nat (Suc i) :: u64) \<noteq> 0"
    "i < ?n \<Longrightarrow> (of_nat (Suc i) :: u64) \<noteq> of_nat (Suc ?n)" for i
    using assms(5) of_nat_u64_eq_iff [of "Suc i" 0] of_nat_u64_eq_iff [of "Suc i" "Suc ?n"] by simp_all
  have key: "derive_sub_key H k [0] \<noteq> k"
    using at by (simp add: aset_at_def)
  have in_U: "b \<in> U" if "b \<in> set xs" for b
    using that at by (auto simp: aset_at_def)
  note cells = cell_poke ok_poke aset_cellsI [OF F] member_cell_neq_at [OF key]
  have "aset_at H (cell ?s') k U (xs @ [a])"
    unfolding aset_at_def
  proof (intro conjI allI impI ballI)
    show "cell ?s' (at k (of_nat (Suc i))) = ucast ((xs @ [a]) ! i)" if "i < length (xs @ [a])" for i
      using that assms(1,3) at neq by (auto simp: cells aset_at_def nth_append less_Suc_eq)
    show "cell ?s' (member_cell H k ((xs @ [a]) ! i)) = of_nat (Suc i)" if "i < length (xs @ [a])" for i
      using that assms(1,3) at False in_U
      by (auto simp: cells aset_at_def nth_append less_Suc_eq)
    show "cell ?s' (member_cell H k b) = 0" if "b \<in> U - set (xs @ [a])" for b
      using that assms(1,3) at by (auto simp: cells aset_at_def)
  qed (use assms(1,3,5) at False in \<open>auto simp: cells aset_at_def\<close>)
  moreover have "cell ?s' l = cell s l" if "l \<in> F - aset_cells H k U" for l
    using that assms(1,3) by (auto simp: cells aset_cells_def)
  ultimately show thesis
    using that [OF run] assms(1) False by (simp add: ok_poke)
qed

text \<open>
  Removal moves the last member into the freed place; from ArbOS version 11 on the moved
  member's index follows it.
\<close>

lemma remove_absent_run:
  assumes "ok s" and "aset_at H (cell s) k U xs" and "a \<in> U - set xs"
  shows "remove B H (aset H k) a v (s, g) = (Ok (), s, g + STORAGE_READ_GAS)"
proof -
  have "cell s (member_cell H k a) = 0"
    using assms(2,3) by (auto simp: aset_at_def)
  with assms(1) show ?thesis
    by (simp add: run_simps remove_def Let_def address_to_hash_ucast aset_access hash_to_uint64_def
        to_or_panic_def)
qed

definition remove_state :: "'s \<Rightarrow> u256 \<Rightarrow> address list \<Rightarrow> nat \<Rightarrow> 's" where
  "remove_state s k xs p =
     (let n = length xs; s1 = poke s (member_cell H k (xs ! p)) 0;
          s2 = (if Suc p < n then poke (poke s1 (at k (of_nat (Suc p))) (ucast (last xs)))
                  (member_cell H k (last xs)) (of_nat (Suc p)) else s1)
      in poke (poke s2 (at k (of_nat n)) 0) (at k 0) (of_nat (n - 1)))"

lemma remove_present_run:
  assumes "ok s" and at: "aset_at H (cell s) k U xs" and F: "aset_cells H k U \<subseteq> F"
    and p: "p < length xs" and v: "11 \<le> v"
  shows "remove B H (aset H k) (xs ! p) v (s, g) = (Ok (), remove_state s k xs p, g + remove_gas xs p)"
proof -
  note [simp del] = of_nat_Suc of_nat_add of_nat_diff
  have bound: "length xs < 2 ^ 64 - 1" and key: "derive_sub_key H k [0] \<noteq> k"
    and in_U: "set xs \<subseteq> U"
    using at by (simp_all add: aset_at_def)
  note cells = cell_poke ok_poke aset_cellsI [OF F] member_cell_neq_at [OF key]
  let ?s1 = "poke s (member_cell H k (xs ! p)) 0"
  have ok1: "ok ?s1" using assms(1) by (rule ok_poke)
  have "xs ! p \<in> U" using in_U p by auto
  then have cell1: "cell ?s1 (at k off) = cell s (at k off)" for off
    using assms(1) by (simp add: cells)
  have slot: "cell s (member_cell H k (xs ! p)) = of_nat (Suc p)"
    using at p by (simp add: aset_at_def)
  have size: "uint64_get B (as_size (aset H k)) ?s1 = (Ok (of_nat (length xs)), ?s1)"
    using at bound by (simp add: aset_access [OF ok1] cell1 aset_at_def counter_simps)
  have last: "cell ?s1 (at k (of_nat (length xs))) = ucast (last xs)"
  proof -
    have "cell s (at k (of_nat (Suc (length xs - 1)))) = ucast (xs ! (length xs - 1))"
      using at p unfolding aset_at_def by auto
    moreover have "Suc (length xs - 1) = length xs"
      using p by auto
    ultimately show ?thesis
      by (simp only: cell1 last_nth [OF p])
  qed
  have pred: "(of_nat (length xs) - 1 :: u64) = of_nat (length xs - 1)"
    using p by (simp add: of_nat_diff of_nat_Suc)
  have zero: "(ucast (last xs) :: u256) = 0 \<longleftrightarrow> last xs = 0"
    using ucast_up_inj [of "last xs" 0, where 'b = 256] by simp
  have one: "length xs - 1 = 0 \<longleftrightarrow> length xs = 1" using p by auto
  have "p < 2 ^ 64 - 2" using p bound by simp
  then show ?thesis
    using assms(1) p bound v
    by (simp add: run_simps remove_def Let_def address_to_hash_ucast aset_access ok_poke slot size last
        hash_to_uint64_def counter_simps remove_state_def remove_gas_def aset_write_cost_def
        uint_to_hash_def pred zero algebra_simps write_cost_def one)
qed

lemma remove_run:
  assumes "ok s" and at: "aset_at H (cell s) k U xs" and F: "aset_cells H k U \<subseteq> F"
    and p: "p < length xs" and v: "11 \<le> v"
  obtains s' where "remove B H (aset H k) (xs ! p) v (s, g) = (Ok (), s', g + remove_gas xs p)" and "ok s'"
    and "aset_at H (cell s') k U (butlast (xs[p := last xs]))"
    and "\<And>l. l \<in> F - aset_cells H k U \<Longrightarrow> cell s' l = cell s l"
proof -
  note [simp del] = of_nat_Suc of_nat_add
  let ?s' = "remove_state s k xs p" and ?ys = "butlast (xs[p := last xs])" and ?n = "length xs"
  have bound: "?n < 2 ^ 64 - 1" and key: "derive_sub_key H k [0] \<noteq> k"
    and in_U: "set xs \<subseteq> U" and dist: "distinct xs"
    using at by (simp_all add: aset_at_def)
  have mem: "i < ?n \<Longrightarrow> xs ! i \<in> U" for i using in_U by auto
  have last: "last xs = xs ! (?n - 1)" "last xs \<in> U"
    using last_nth [OF p] last_mem [OF p] in_U by auto
  note cells = remove_state_def Let_def cell_poke ok_poke aset_cellsI [OF F] member_cell_neq_at [OF key]
    mem [OF p] last(2)
  have neq: "(of_nat (Suc i) :: u64) \<noteq> 0" "(of_nat (Suc i) :: u64) = of_nat (Suc j) \<longleftrightarrow> i = j"
    "(of_nat (Suc i) :: u64) = of_nat ?n \<longleftrightarrow> Suc i = ?n"
    if "i < ?n" "j < ?n" for i j
    using that bound of_nat_u64_eq_iff [of "Suc i" "Suc j"] of_nat_u64_eq_iff [of "Suc i" ?n]
      of_nat_u64_eq_iff [of "Suc i" 0] by simp_all
  have nz: "(of_nat ?n :: u64) \<noteq> 0" using p bound by (auto simp: of_nat_u64_zero_iff)
  have nth: "?ys ! i = (if i = p then last xs else xs ! i)" if "i < ?n - 1" for i
    using that p by (simp add: nth_butlast)
  have eq_last: "xs ! i = last xs \<longleftrightarrow> Suc i = ?n" if "i < ?n" for i
    using that dist p by (auto simp: last nth_eq_iff_index_eq)
  have eq_p: "xs ! i = xs ! p \<longleftrightarrow> i = p" if "i < ?n" for i
    using that dist p by (auto simp: nth_eq_iff_index_eq)
  have set: "set ?ys = set xs - {xs ! p}"
    using set_swap_remove [OF dist p] .
  have index: "cell ?s' (member_cell H k b) =
      (if Suc p < ?n \<and> b = last xs then of_nat (Suc p)
       else if b = xs ! p then 0 else cell s (member_cell H k b))" if "b \<in> U" for b
    using that assms(1) by (simp add: cells)
  have "aset_at H (cell ?s') k U ?ys"
    unfolding aset_at_def
  proof (intro conjI allI impI ballI)
    show "distinct ?ys" using distinct_swap_remove [OF dist p] .
    show "set ?ys \<subseteq> U" using set in_U by auto
    fix i assume i: "i < length ?ys"
    then have i': "i < ?n" "i < ?n - 1" "Suc i < ?n" by auto
    show "cell ?s' (at k (of_nat (Suc i))) = ucast (?ys ! i)"
      using i' at assms(1) p by (auto simp: cells neq [OF i'(1)] nth aset_at_def)
    show "cell ?s' (member_cell H k (?ys ! i)) = of_nat (Suc i)"
    proof (cases "i = p")
      case True
      with i' show ?thesis by (simp add: nth index [OF last(2)])
    next
      case False
      with i' eq_last [OF i'(1)] eq_p [OF i'(1)] have "xs ! i \<noteq> last xs" "xs ! i \<noteq> xs ! p" by simp_all
      moreover have "cell s (member_cell H k (xs ! i)) = of_nat (Suc i)"
        using at i'(1) by (simp add: aset_at_def)
      ultimately show ?thesis
        using False i'(2) by (simp add: nth index [OF mem [OF i'(1)]])
    qed
  next
    fix a assume "a \<in> U - set ?ys"
    then have a: "a \<in> U" "a = xs ! p \<or> a \<in> U - set xs" unfolding set by auto
    from a(2) show "cell ?s' (member_cell H k a) = 0"
    proof
      assume "a = xs ! p"
      with eq_last [OF p] show ?thesis by (auto simp: index [OF mem [OF p]])
    next
      assume "a \<in> U - set xs"
      moreover from this have "a \<noteq> last xs" "a \<noteq> xs ! p"
        using last_mem [OF p] nth_mem [OF p] by blast+
      ultimately show ?thesis
        using at by (simp add: index [OF a(1)] aset_at_def)
    qed
  qed (use assms(1) at bound key nz in \<open>auto simp: cells aset_at_def\<close>)
  moreover have "cell ?s' l = cell s l" if "l \<in> F - aset_cells H k U" for l
    using that assms(1) mem [OF p] last(2) by (auto simp: cells aset_cells_def)
  ultimately show thesis
    using that [OF remove_present_run [OF assms(1) at F p v]] assms(1) by (simp add: cells)
qed

text \<open>Reading the members.\<close>

lemma member_read:
  assumes "ok s" and "aset_at H (cell s) k U xs" and "i < length xs"
  shows "addr_get B (backed_new H (base_key (as_backing (aset H k))) (of_nat (Suc i))) s = (Ok (xs ! i), s)"
proof -
  have "cell s (at k (of_nat (Suc i))) = ucast (xs ! i)"
    using assms(2,3) unfolding aset_at_def by blast
  then show ?thesis
    using assms(1) by (simp add: addr_get_run open_address_set_def storage_new_def ucast_down_up
        del: of_nat_Suc)
qed

lemma get_any_member_run:
  assumes "ok s" and "aset_at H (cell s) k U xs"
  shows "get_any_member B H (aset H k) s = (Ok (case xs of [] \<Rightarrow> None | x # _ \<Rightarrow> Some x), s)"
proof -
  have "(of_nat (length xs) :: u64) = 0 \<longleftrightarrow> xs = []"
    using assms(2) by (simp add: aset_at_def counter_simps)
  with member_read [OF assms, of 0] show ?thesis
    by (cases xs) (simp_all add: run_simps get_any_member_def aset_size_run [OF assms])
qed

lemma all_members_run:
  assumes "ok s" and at: "aset_at H (cell s) k U xs"
  shows "all_members B H (aset H k) max_num s = (Ok (take (unat max_num) xs), s)"
proof -
  let ?body = "\<lambda>i acc. bnd (map_err AS_Storage (addr_get B
      (backed_new H (base_key (as_backing (aset H k))) (i + 1)))) (\<lambda>a. ret (acc @ [a]))"
  have loop: "fold_each (map of_nat [0..<n]) ?body [] s = (Ok (take n xs), s)" if "n \<le> length xs" for n
    using that
  proof (induction n)
    case 0
    then show ?case by (simp add: run_simps)
  next
    case (Suc n)
    then have "(of_nat n + 1 :: u64) = of_nat (Suc n)" and n: "n < length xs" by simp_all
    with Suc member_read [OF assms n] show ?case
      by (simp add: fold_each_append run_simps take_Suc_conv_app_nth del: of_nat_Suc)
  qed
  let ?size = "if max_num < of_nat (length xs) then max_num else of_nat (length xs) :: u64"
  have "length xs < 2 ^ 64" using at by (simp add: aset_at_def)
  then have "unat ?size = min (unat max_num) (length xs)"
    by (simp add: word_less_nat_alt counter_simps min_def)
  with loop [of "unat ?size"] show ?thesis
    by (simp add: bnd_def map_err_def all_members_def aset_size_run [OF assms] u64_range_def Let_def
        min_def split: if_splits)
qed

text \<open>\<open>clear\<close> empties the array and the index of every member.\<close>

primrec wipe :: "'s \<Rightarrow> u256 \<Rightarrow> nat \<Rightarrow> address list \<Rightarrow> 's" where
  "wipe s k i [] = s"
| "wipe s k i (x # xs) = wipe (poke (poke s (at k (of_nat i)) 0) (member_cell H k x) 0) k (Suc i) xs"

lemma ok_wipe: "ok s \<Longrightarrow> ok (wipe s k i xs)"
  by (induction xs arbitrary: s i) (simp_all add: ok_poke)

lemma cell_wipe:
  assumes "ok s" and "aset_cells H k U \<subseteq> F" and "set xs \<subseteq> U" and "derive_sub_key H k [0] \<noteq> k"
  shows "off = 0 \<Longrightarrow> 0 < i \<Longrightarrow> i + length xs < 2 ^ 64 \<Longrightarrow> cell (wipe s k i xs) (at k off) = cell s (at k off)"
    and "b \<in> U \<Longrightarrow> cell (wipe s k i xs) (member_cell H k b) =
      (if b \<in> set xs then 0 else cell s (member_cell H k b))"
    and "l \<in> F - aset_cells H k U \<Longrightarrow> cell (wipe s k i xs) l = cell s l"
  using assms(1,3)
proof (induction xs arbitrary: s i)
  case (Cons x xs)
  note cells = cell_poke ok_poke aset_cellsI [OF assms(2)] member_cell_neq_at [OF assms(4)]
  { case 1
    then have "(of_nat i :: u64) \<noteq> 0" by (simp add: of_nat_u64_zero_iff)
    with 1 Cons(1) [OF _ _ _ ok_poke [OF ok_poke]] show ?case by (simp add: cells)
  next
    case 2
    with Cons(2) [OF _ ok_poke [OF ok_poke]] show ?case by (simp add: cells)
  next
    case 3
    with Cons(3) [OF _ ok_poke [OF ok_poke]] show ?case
      by (auto simp: cells aset_cells_def)
  }
qed simp_all

lemma wipe_loop:
  assumes "ok s" and F: "aset_cells H k U \<subseteq> F" and "derive_sub_key H k [0] \<noteq> k"
    and "set xs \<subseteq> U" and "i + length xs < 2 ^ 64"
    and "\<And>j. j < length xs \<Longrightarrow> cell s (at k (of_nat (i + j))) = ucast (xs ! j)"
  shows "for_each (map of_nat [i..<i + length xs]) (\<lambda>i.
        bnd (backing_get_by_uint64 B H (aset H k) i) (\<lambda>contents.
        bnd (backing_set_by_uint64 B H (aset H k) i 0) (\<lambda>_.
        by_address_set B H (aset H k) contents 0))) s = (Ok (), wipe s k i xs)"
  using assms(1,4,5,6)
proof (induction xs arbitrary: s i)
  case Nil
  then show ?case by (simp add: run_simps)
next
  case (Cons x xs)
  note [simp del] = of_nat_add of_nat_Suc
  let ?s1 = "poke (poke s (at k (of_nat i)) 0) (member_cell H k x) 0"
  have x: "cell s (at k (of_nat i)) = ucast x"
    using Cons.prems(4) [of 0] by simp
  have "cell ?s1 (at k (of_nat (Suc i + j))) = ucast (xs ! j)" if "j < length xs" for j
    using that Cons.prems Cons.prems(4) [of "Suc j"] of_nat_u64_eq_iff [of "Suc (i + j)" i]
    by (simp add: cell_poke ok_poke aset_cellsI [OF F] member_cell_neq_at [OF assms(3)])
  with Cons.prems Cons.IH [of ?s1 "Suc i"] have
    "for_each (map of_nat [Suc i..<Suc i + length xs]) (\<lambda>i.
        bnd (backing_get_by_uint64 B H (aset H k) i) (\<lambda>contents.
        bnd (backing_set_by_uint64 B H (aset H k) i 0) (\<lambda>_.
        by_address_set B H (aset H k) contents 0))) ?s1 = (Ok (), wipe ?s1 k (Suc i) xs)"
    by (simp add: ok_poke)
  moreover have "[i..<i + length (x # xs)] = i # [Suc i..<Suc i + length xs]"
    by (simp add: upt_rec)
  moreover have "bnd (backing_get_by_uint64 B H (aset H k) (of_nat i)) (\<lambda>contents.
        bnd (backing_set_by_uint64 B H (aset H k) (of_nat i) 0) (\<lambda>_.
        by_address_set B H (aset H k) contents 0)) s = (Ok (), ?s1)"
    using Cons.prems(1) by (simp add: bnd_def aset_access ok_poke x)
  ultimately show ?case
    by (simp only: list.map for_each.simps bnd_Ok wipe.simps)
qed

lemma aset_clear_run:
  assumes "ok s" and at: "aset_at H (cell s) k U xs" and F: "aset_cells H k U \<subseteq> F"
  obtains s' where "aset_clear B H (aset H k) s = (Ok (), s')" and "ok s'"
    and "aset_at H (cell s') k U []"
    and "\<And>l. l \<in> F - aset_cells H k U \<Longrightarrow> cell s' l = cell s l"
proof (cases "xs = []")
  case True
  then have "aset_clear B H (aset H k) s = (Ok (), s)"
    using aset_size_run [OF assms(1) at] by (simp add: run_simps aset_clear_def)
  with that True assms(1) at show thesis by simp
next
  case False
  let ?s' = "poke (wipe s k 1 xs) (at k 0) 0"
  have bound: "length xs < 2 ^ 64 - 1" and key: "derive_sub_key H k [0] \<noteq> k" and U: "set xs \<subseteq> U"
    using at by (simp_all add: aset_at_def)
  have nz: "(of_nat (length xs) :: u64) \<noteq> 0"
    using False bound by (simp add: of_nat_u64_zero_iff)
  have "u64_range_incl 1 (of_nat (length xs)) = map of_nat [1..<1 + length xs]"
    using bound by (simp add: u64_range_incl_def counter_simps)
  moreover have "for_each (map of_nat [1..<1 + length xs]) (\<lambda>i.
        bnd (backing_get_by_uint64 B H (aset H k) i) (\<lambda>contents.
        bnd (backing_set_by_uint64 B H (aset H k) i 0) (\<lambda>_.
        by_address_set B H (aset H k) contents 0))) s = (Ok (), wipe s k 1 xs)"
    using at bound by (intro wipe_loop [OF assms(1) F key U]) (auto simp: aset_at_def)
  ultimately have run: "aset_clear B H (aset H k) s = (Ok (), ?s')"
    using assms(1) nz
    by (simp add: bnd_def map_err_def aset_clear_def aset_size_run [OF assms(1) at] aset_access ok_wipe
        del: upt_Suc)
  note cells = cell_poke ok_wipe [OF assms(1)] aset_cellsI [OF F] member_cell_neq_at [OF key]
    cell_wipe [OF assms(1) F U key]
  have "aset_at H (cell ?s') k U []"
    using at key by (auto simp: aset_at_def cells)
  moreover have "cell ?s' l = cell s l" if "l \<in> F - aset_cells H k U" for l
    using that by (auto simp: cells aset_cells_def)
  ultimately show thesis
    using that [OF run] by (simp add: ok_poke ok_wipe assms(1))
qed

text \<open>
  \<open>clear_list\<close> empties the array and keeps every index; \<open>rectify_mapping\<close> then puts an address with
  an index back into the array. Addresses whose index is pending are outside \<open>U\<close>.
\<close>

lemma clear_list_run:
  assumes "ok s" and F: "range (at k) \<subseteq> F" and "cell s (at k 0) = of_nat n" and "n < 2 ^ 64 - 1"
  obtains s' where "clear_list B H (aset H k) s = (Ok (), s')" and "ok s'"
    and "cell s' (at k 0) = 0" and "\<And>l. l \<in> F - range (at k) \<Longrightarrow> cell s' l = cell s l"
proof -
  note [simp del] = of_nat_add of_nat_Suc
  have in_F: "at k off \<in> F" for off using F by auto
  have size: "uint64_get B (as_size (aset H k)) s = (Ok (of_nat n), s)"
    using assms(1,3,4) by (simp add: aset_access counter_simps)
  have loop: "\<exists>s1. for_each is (\<lambda>i. backing_set_by_uint64 B H (aset H k) i 0) t = (Ok (), s1) \<and> ok s1 \<and>
      (\<forall>l \<in> F - range (at k). cell s1 l = cell t l)" if "ok t" for t "is"
    using that
  proof (induction "is" arbitrary: t)
    case Nil
    then show ?case by (simp add: run_simps)
  next
    case (Cons i "is")
    from Cons.IH [OF ok_poke [OF Cons.prems, of "at k i" 0]] Cons.prems show ?case
      by (auto simp: bnd_def aset_access cell_poke in_F)
  qed
  show thesis
  proof (cases "n = 0")
    case True
    with size assms(1,3) that [of s] show thesis
      by (simp add: run_simps clear_list_def)
  next
    case False
    with assms(4) have nz: "(of_nat n :: u64) \<noteq> 0" by (simp add: of_nat_u64_zero_iff)
    obtain s1 where s1: "for_each (u64_range_incl 1 (of_nat n)) (\<lambda>i. backing_set_by_uint64 B H (aset H k) i 0) s =
        (Ok (), s1)" "ok s1" "\<forall>l \<in> F - range (at k). cell s1 l = cell s l"
      using loop [OF assms(1)] by blast
    have "clear_list B H (aset H k) s = (Ok (), poke s1 (at k 0) 0)"
      using nz s1 by (simp add: bnd_def map_err_def clear_list_def size aset_access)
    moreover have "cell (poke s1 (at k 0) 0) l = cell s l" if "l \<in> F - range (at k)" for l
      using that s1 in_F by (auto simp: cell_poke)
    ultimately show thesis
      using that [of "poke s1 (at k 0) 0"] s1(2) in_F by (simp add: cell_poke ok_poke)
  qed
qed

lemma rectify_mapping_run:
  assumes "ok s" and at: "aset_at H (cell s) k U xs" and "a \<notin> U" and F: "aset_cells H k (insert a U) \<subseteq> F"
    and idx: "cell s (member_cell H k a) = of_nat v" "0 < v" "v < 2 ^ 64" and "length xs + 2 < 2 ^ 64"
  obtains s' where "rectify_mapping B H (aset H k) a s = (Ok (), s')" and "ok s'"
    and "aset_at H (cell s') k (insert a U) (xs @ [a])"
    and "\<And>l. l \<in> F - aset_cells H k (insert a U) \<Longrightarrow> cell s' l = cell s l"
proof -
  note [simp del] = of_nat_add of_nat_Suc
  let ?s1 = "poke s (member_cell H k a) 0"
  have key: "derive_sub_key H k [0] \<noteq> k" using at by (simp add: aset_at_def)
  note cells = cell_poke ok_poke aset_cellsI [OF F] member_cell_neq_at [OF key]
  have at1: "aset_at H (cell ?s1) k (insert a U) xs"
    using at assms(1,3) by (auto simp: aset_at_def cells subset_iff)
  have "a \<notin> set xs" using at assms(3) by (auto simp: aset_at_def)
  then obtain s' where s': "add B H (aset H k) a ?s1 = (Ok (), s')" "ok s'"
      "aset_at H (cell s') k (insert a U) (xs @ [a])"
      "\<And>l. l \<in> F - aset_cells H k (insert a U) \<Longrightarrow> cell s' l = cell ?s1 l"
    using add_run [OF ok_poke [OF assms(1)] at1 insertI1 F assms(8)] by (auto simp only: if_False)
  have "\<not> (cell s (at k (of_nat v)) = ucast a \<and> v \<le> length xs)"
  proof
    assume "cell s (at k (of_nat v)) = ucast a \<and> v \<le> length xs"
    moreover from this idx(2) obtain i where "v = Suc i" "i < length xs" by (cases v) auto
    ultimately have "xs ! i = a"
      using at by (simp add: aset_at_def ucast_up_inj)
    with \<open>i < length xs\<close> \<open>a \<notin> set xs\<close> show False by auto
  qed
  then have "rectify_mapping B H (aset H k) a s = (Ok (), s')"
    using assms(1,8) idx s'(1)
    by (simp add: run_simps rectify_mapping_def is_member_def address_to_hash_ucast aset_access
        hash_to_uint64_def counter_simps aset_size_run [OF assms(1) at])
  moreover have "cell s' l = cell s l" if "l \<in> F - aset_cells H k (insert a U)" for l
    using that s'(4) [OF that] assms(1) by (auto simp: cells aset_cells_def)
  ultimately show thesis
    using that s'(2,3) by blast
qed

lemma rectify_all_run:
  assumes "ok s" and "aset_at H (cell s) k U xs" and "set ys \<inter> U = {}" and "distinct ys"
    and F: "aset_cells H k (U \<union> set ys) \<subseteq> F"
    and "\<And>a. a \<in> set ys \<Longrightarrow> cell s (member_cell H k a) \<noteq> 0 \<and> unat (cell s (member_cell H k a)) < 2 ^ 64"
    and "length xs + length ys + 2 < 2 ^ 64"
  shows "\<exists>s'. for_each ys (rectify_mapping B H (aset H k)) s = (Ok (), s') \<and> ok s' \<and>
    aset_at H (cell s') k (U \<union> set ys) (xs @ ys)"
  using assms(1-4,6,7) F
proof (induction ys arbitrary: s U xs)
  case Nil
  then show ?case by (simp add: run_simps)
next
  case (Cons a ys)
  let ?v = "unat (cell s (member_cell H k a))"
  have v: "cell s (member_cell H k a) = of_nat ?v" "0 < ?v" "?v < 2 ^ 64"
    using Cons.prems(5) [of a] by (auto simp: unat_gt_0)
  have F1: "aset_cells H k (insert a U) \<subseteq> F"
    using Cons.prems(7) by (auto simp: aset_cells_def)
  have key: "derive_sub_key H k [0] \<noteq> k" using Cons.prems(2) by (simp add: aset_at_def)
  obtain s1 where s1: "rectify_mapping B H (aset H k) a s = (Ok (), s1)" "ok s1"
      "aset_at H (cell s1) k (insert a U) (xs @ [a])"
      "\<And>l. l \<in> F - aset_cells H k (insert a U) \<Longrightarrow> cell s1 l = cell s l"
    using rectify_mapping_run [OF Cons.prems(1,2) _ F1 v] Cons.prems(3,6) by auto
  have frame: "cell s1 (member_cell H k b) = cell s (member_cell H k b)" if "b \<in> set ys" for b
  proof -
    have "member_cell H k b \<in> F"
      using that Cons.prems(7) by (auto simp: aset_cells_def)
    moreover have "member_cell H k b \<notin> aset_cells H k (insert a U)"
      using that Cons.prems(3,4) member_cell_neq_at [OF key] by (auto simp: aset_cells_def)
    ultimately show ?thesis using s1(4) by blast
  qed
  have "set ys \<inter> insert a U = {}" "distinct ys"
    using Cons.prems(3,4) by auto
  moreover have "cell s1 (member_cell H k b) \<noteq> 0 \<and> unat (cell s1 (member_cell H k b)) < 2 ^ 64"
    if "b \<in> set ys" for b
    using frame [OF that] Cons.prems(5) [of b] that by simp
  moreover have "aset_cells H k (insert a U \<union> set ys) \<subseteq> F"
    using Cons.prems(7) by simp
  moreover have "length (xs @ [a]) + length ys + 2 < 2 ^ 64"
    using Cons.prems(6) by simp
  ultimately obtain s2 where "for_each ys (rectify_mapping B H (aset H k)) s1 = (Ok (), s2)" "ok s2"
      "aset_at H (cell s2) k (insert a U \<union> set ys) ((xs @ [a]) @ ys)"
    using Cons.IH [OF s1(2,3)] by blast
  with s1(1) show ?case by (simp add: bnd_def)
qed

lemma rectify_refused:
  assumes "ok s" and at: "aset_at H (cell s) k U xs" and "a \<in> U"
  shows "rectify_mapping B H (aset H k) a s = (Err (if a \<in> set xs then MappingAlreadyConsistent else NotMember), s)"
proof (cases "a \<in> set xs")
  case True
  note [simp del] = of_nat_add of_nat_Suc
  from True obtain i where i: "i < length xs" "xs ! i = a" by (auto simp: in_set_conv_nth)
  have "length xs < 2 ^ 64 - 1" using at by (simp add: aset_at_def)
  with True i at assms(1) show ?thesis
    by (simp add: run_simps rectify_mapping_def is_member_run [OF assms] address_to_hash_ucast aset_access
        hash_to_uint64_def counter_simps aset_size_run [OF assms(1) at])
      (auto simp: aset_at_def counter_simps run_simps aset_access aset_size_run [OF assms(1) at])
next
  case False
  then show ?thesis by (simp add: run_simps rectify_mapping_def is_member_run [OF assms])
qed

end

section \<open>The contract of a set\<close>

datatype set_op = Add address | Remove address | Is_Member address

primrec op_address :: "set_op \<Rightarrow> address" where
  "op_address (Add a) = a"
| "op_address (Remove a) = a"
| "op_address (Is_Member a) = a"

primrec set_step :: "set_op \<Rightarrow> address set \<Rightarrow> bool option \<times> address set" where
  "set_step (Add a) X = (None, insert a X)"
| "set_step (Remove a) X = (None, X - {a})"
| "set_step (Is_Member a) X = (Some (a \<in> X), X)"

primrec set_run :: "set_op list \<Rightarrow> address set \<Rightarrow> bool option list \<times> address set" where
  "set_run [] X = ([], X)"
| "set_run (op # ops) X =
     (let (out, Y) = set_step op X; (outs, Z) = set_run ops Y in (out # outs, Z))"

text \<open>A client of a set: operations in any order, with the answers to its questions.\<close>

fun run_set_ops :: "(address \<Rightarrow> ('s, bool, 'e) comp) \<Rightarrow> (address \<Rightarrow> ('s, unit, 'e) comp)
    \<Rightarrow> (address \<Rightarrow> ('s, unit, 'e) comp) \<Rightarrow> set_op list \<Rightarrow> ('s, bool option list, 'e) comp" where
  "run_set_ops mem ad rm [] = ret []"
| "run_set_ops mem ad rm (Add a # ops) =
     bnd (ad a) (\<lambda>_. bnd (run_set_ops mem ad rm ops) (\<lambda>outs. ret (None # outs)))"
| "run_set_ops mem ad rm (Remove a # ops) =
     bnd (rm a) (\<lambda>_. bnd (run_set_ops mem ad rm ops) (\<lambda>outs. ret (None # outs)))"
| "run_set_ops mem ad rm (Is_Member a # ops) =
     bnd (mem a) (\<lambda>b. bnd (run_set_ops mem ad rm ops) (\<lambda>outs. ret (Some b # outs)))"

locale address_set_contract =
  fixes mem :: "address \<Rightarrow> ('s, bool, 'e) comp" and ad rm :: "address \<Rightarrow> ('s, unit, 'e) comp"
    and U :: "address set" and holds :: "'s \<Rightarrow> nat \<Rightarrow> address set \<Rightarrow> bool" \<comment> \<open>free places, members\<close>
  assumes mem_law: "holds s r X \<Longrightarrow> a \<in> U \<Longrightarrow> mem a s = (Ok (a \<in> X), s)"
    and ad_law: "holds s (Suc r) X \<Longrightarrow> a \<in> U \<Longrightarrow> \<exists>s'. ad a s = (Ok (), s') \<and> holds s' r (insert a X)"
    and rm_law: "holds s r X \<Longrightarrow> a \<in> U \<Longrightarrow> \<exists>s'. rm a s = (Ok (), s') \<and> holds s' r (X - {a})"
begin

lemma run_law:
  assumes "holds s (n + length ops) X" and "op_address ` set ops \<subseteq> U"
  shows "\<exists>s'. run_set_ops mem ad rm ops s = (Ok (fst (set_run ops X)), s') \<and>
           (\<exists>r \<ge> n. holds s' r (snd (set_run ops X)))"
  using assms
proof (induction ops arbitrary: s n X)
  case Nil
  then show ?case by (auto simp: run_simps)
next
  case (Cons op ops)
  have IH: "\<exists>s'. run_set_ops mem ad rm ops t = (Ok (fst (set_run ops Y)), s') \<and>
      (\<exists>r \<ge> n. holds s' r (snd (set_run ops Y)))" if "holds t (n + length ops) Y" for t Y
    using Cons.IH [OF that] Cons.prems(2) by simp
  have IH': "\<exists>s'. run_set_ops mem ad rm ops t = (Ok (fst (set_run ops Y)), s') \<and>
      (\<exists>r \<ge> n. holds s' r (snd (set_run ops Y)))" if "holds t (Suc n + length ops) Y" for t Y
    using Cons.IH [OF that] Cons.prems(2) Suc_leD by (simp, blast)
  show ?case
  proof (cases op)
    case (Add a)
    with ad_law [of s "n + length ops" X a] Cons.prems obtain s1 where
      "ad a s = (Ok (), s1)" "holds s1 (n + length ops) (insert a X)" by auto
    with Add IH [of s1 "insert a X"] show ?thesis
      by (auto simp: run_simps split: prod.splits)
  next
    case (Remove a)
    with rm_law [of s "Suc n + length ops" X a] Cons.prems obtain s1 where
      "rm a s = (Ok (), s1)" "holds s1 (Suc n + length ops) (X - {a})" by auto
    with Remove IH' [of s1 "X - {a}"] show ?thesis
      by (auto simp: run_simps split: prod.splits)
  next
    case (Is_Member a)
    with mem_law [of s _ X a] Cons.prems have "mem a s = (Ok (a \<in> X), s)" by auto
    with Is_Member IH' [of s X] Cons.prems(1) show ?thesis
      by (auto simp: run_simps split: prod.splits)
  qed
qed

end

text \<open>The storage-backed set meets it, from ArbOS version 11 on.\<close>

fun aset_holds :: "revm \<Rightarrow> keccak \<Rightarrow> cell_id set \<Rightarrow> (cell_id \<Rightarrow> u256) \<Rightarrow> u256 \<Rightarrow> address set
    \<Rightarrow> state \<times> u64 \<Rightarrow> nat \<Rightarrow> address set \<Rightarrow> bool" where
  "aset_holds E H F c k U (st, g) r X \<longleftrightarrow>
     state_ok E H (F \<union> aset_cells H k U) st \<and>
     (\<exists>xs. aset_at H (state_cell H st) k U xs \<and> set xs = X \<and> length xs + r + 2 \<le> 2 ^ 64) \<and>
     (\<forall>l \<in> F - aset_cells H k U. state_cell H st l = c l)"

interpretation sa: address_set_contract
  "\<lambda>a. on_state (is_member (state_backend E H) H (aset H k) a)"
  "\<lambda>a. on_state (add (state_backend E H) H (aset H k) a)"
  "\<lambda>a. remove (state_backend E H) H (aset H k) a (max 11 v)"
  U "aset_holds E H F c k U"
  for E H F c k U v
proof
  fix s r X a
  assume holds: "aset_holds E H F c k U s r X" and a: "a \<in> U"
  obtain st g where s: "s = (st, g)" by (cases s)
  from holds obtain xs where ok: "state_ok E H (F \<union> aset_cells H k U) st"
    and at: "aset_at H (state_cell H st) k U xs" and X: "set xs = X" and b: "length xs + r + 2 \<le> 2 ^ 64"
    and fr: "\<forall>l \<in> F - aset_cells H k U. state_cell H st l = c l"
    by (auto simp: s)
  show "on_state (is_member (state_backend E H) H (aset H k) a) s = (Ok (a \<in> X), s)"
    using st.is_member_run [OF ok at a] X by (simp add: on_state_def s)
  show "\<exists>s'. remove (state_backend E H) H (aset H k) a (max 11 v) s = (Ok (), s') \<and>
      aset_holds E H F c k U s' r (X - {a})"
  proof (cases "a \<in> set xs")
    case False
    with st.remove_absent_run [OF ok at] a X holds show ?thesis by (simp add: s)
  next
    case True
    then obtain p where p: "p < length xs" "xs ! p = a" by (auto simp: in_set_conv_nth)
    have v: "11 \<le> max 11 v" by simp
    have dist: "distinct xs" using at by (simp add: aset_at_def)
    obtain st' where "remove (state_backend E H) H (aset H k) a (max 11 v) s = (Ok (), st', g + remove_gas xs p)"
        "state_ok E H (F \<union> aset_cells H k U) st'"
        "aset_at H (state_cell H st') k U (butlast (xs[p := last xs]))"
        "\<And>l. l \<in> F \<union> aset_cells H k U - aset_cells H k U \<Longrightarrow> state_cell H st' l = state_cell H st l"
      using st.remove_run [OF ok at Un_upper2 p(1) v, of g] unfolding s p(2) by blast
    with b fr X set_swap_remove [OF dist p(1)] p(2) show ?thesis
      by (auto intro!: exI [of _ "butlast (xs[p := last xs])"])
  qed
next
  fix s r X a
  assume "aset_holds E H F c k U s (Suc r) X" and a: "a \<in> U"
  moreover obtain st g where s: "s = (st, g)" by (cases s)
  ultimately obtain xs where ok: "state_ok E H (F \<union> aset_cells H k U) st"
    and at: "aset_at H (state_cell H st) k U xs" and X: "set xs = X" and b: "length xs + Suc r + 2 \<le> 2 ^ 64"
    and fr: "\<forall>l \<in> F - aset_cells H k U. state_cell H st l = c l"
    by auto
  from b have b': "length xs + 2 < 2 ^ 64" by simp
  let ?ys = "if a \<in> set xs then xs else xs @ [a]"
  obtain st' where "add (state_backend E H) H (aset H k) a st = (Ok (), st')"
      "state_ok E H (F \<union> aset_cells H k U) st'" "aset_at H (state_cell H st') k U ?ys"
      "\<And>l. l \<in> F \<union> aset_cells H k U - aset_cells H k U \<Longrightarrow> state_cell H st' l = state_cell H st l"
    using st.add_run [OF ok at a Un_upper2 b'] by blast
  moreover have "set ?ys = insert a X" and "length ?ys + r + 2 \<le> 2 ^ 64"
    using X b by auto
  ultimately have "aset_holds E H F c k U (st', g) r (insert a X)"
    using fr unfolding aset_holds.simps by (intro conjI exI [of _ ?ys]) auto
  with \<open>add (state_backend E H) H (aset H k) a st = (Ok (), st')\<close>
  show "\<exists>s'. on_state (add (state_backend E H) H (aset H k) a) s = (Ok (), s') \<and>
      aset_holds E H F c k U s' r (insert a X)"
    by (auto simp: on_state_def s)
qed

section \<open>The properties\<close>

text \<open>
  C9: any sequence of \<open>add\<close>, \<open>remove\<close> and \<open>is_member\<close> on a storage-backed address set, from ArbOS
  version 11 on, succeeds and answers exactly as a mathematical set does; the array and the
  index of the members stay consistent, and no cell outside the set changes.
\<close>

theorem address_set_refines_set:
  assumes "state_ok E H (F \<union> aset_cells H k U) st" and "aset_at H (state_cell H st) k U xs"
    and "length xs + length ops + 2 \<le> 2 ^ 64" and "op_address ` set ops \<subseteq> U" and "11 \<le> v"
  shows "\<exists>st' g' xs'. run_set_ops (\<lambda>a. on_state (is_member (state_backend E H) H (aset H k) a))
             (\<lambda>a. on_state (add (state_backend E H) H (aset H k) a))
             (\<lambda>a. remove (state_backend E H) H (aset H k) a v) ops (st, g) =
           (Ok (fst (set_run ops (set xs))), st', g') \<and>
         aset_at H (state_cell H st') k U xs' \<and> set xs' = snd (set_run ops (set xs)) \<and>
         (\<forall>l \<in> F - aset_cells H k U. state_cell H st' l = state_cell H st l)"
proof -
  have "aset_holds E H F (state_cell H st) k U (st, g) (0 + length ops) (set xs)"
    using assms(1-3) by auto
  from sa.run_law [OF this assms(4), of v] assms(5) show ?thesis
    by (fastforce simp: max_def)
qed

definition sample_aset :: "u256 \<Rightarrow> u256 \<Rightarrow> u256" where
  "sample_aset k key = 0"

lemma sample_sub_key: "derive_sub_key sample_keccak 7 [0] = 1793"
  using unat_sub_key_sample [of 7 0] by (simp add: word_unat_eq_iff)

lemma aset_cells_small: "l \<in> aset_cells sample_keccak 7 U \<Longrightarrow> small_cell l"
proof -
  have "unat (ucast a :: u256) < 2 ^ 176" for a :: address
    using unat_bound [of a] by (simp add: unat_ucast_up)
  then show "l \<in> aset_cells sample_keccak 7 U \<Longrightarrow> small_cell l"
    by (auto simp: aset_cells_def member_cell_def sample_sub_key)
qed

lemma member_cell_sample:
  "state_cell sample_keccak (sample_state c) (member_cell sample_keccak 7 a) = c 1793 (ucast a)"
  using unat_bound [of a] unfolding member_cell_def sample_sub_key
  by (subst state_cell_sample) (simp_all add: unat_ucast_up)

lemma sample_aset_ok:
  "state_ok sample_revm sample_keccak ({} \<union> aset_cells sample_keccak 7 U) (sample_state sample_aset)"
  "aset_at sample_keccak (state_cell sample_keccak (sample_state sample_aset)) 7 U []"
  by (simp_all add: aset_at_def at_sample member_cell_sample sample_aset_def sample_sub_key
      state_ok_sample [OF aset_cells_small])

lemma address_set_refines_set_witness:
  "\<exists>st' g'. run_set_ops
      (\<lambda>a. on_state (is_member (state_backend sample_revm sample_keccak) sample_keccak (aset sample_keccak 7) a))
      (\<lambda>a. on_state (add (state_backend sample_revm sample_keccak) sample_keccak (aset sample_keccak 7) a))
      (\<lambda>a. remove (state_backend sample_revm sample_keccak) sample_keccak (aset sample_keccak 7) a 11)
      [Add 5, Add 6, Add 5, Is_Member 5, Remove 5, Is_Member 5, Is_Member 6] (sample_state sample_aset, 0) =
    (Ok [None, None, None, Some True, None, Some False, Some True], st', g')"
  using address_set_refines_set [OF sample_aset_ok [of UNIV],
      of "[Add 5, Add 6, Add 5, Is_Member 5, Remove 5, Is_Member 5, Is_Member 6]" 11 0]
  by auto


definition sample_aset_two :: "u256 \<Rightarrow> u256 \<Rightarrow> u256" where
  "sample_aset_two k key =
     (if k = 7 then (if key = 0 then 2 else if key = 1 then 5 else if key = 2 then 6 else 0)
      else (if key = 5 then 1 else if key = 6 then 2 else 0))"

lemma sample_aset_two_ok:
  "state_ok sample_revm sample_keccak (aset_cells sample_keccak 7 {5, 6, 9}) (sample_state sample_aset_two)"
  "aset_at sample_keccak (state_cell sample_keccak (sample_state sample_aset_two)) 7 {5, 6, 9} [5, 6]"
  by (simp_all add: aset_at_def at_sample member_cell_sample sample_aset_two_def sample_sub_key
      state_ok_sample [OF aset_cells_small] All_less_Suc less_Suc_eq)


text \<open>
  \<open>all_members\<close> returns the first \<open>max_num\<close> members, each once; \<open>get_any_member\<close> returns the first one, and
  \<open>clear\<close> leaves a set in which no address is a member.
\<close>

theorem members_and_clear:
  assumes "state_ok E H (aset_cells H k U) st" and "aset_at H (state_cell H st) k U xs"
  shows "all_members (state_backend E H) H (aset H k) max_num st = (Ok (take (unat max_num) xs), st) \<and>
         get_any_member (state_backend E H) H (aset H k) st =
           (Ok (case xs of [] \<Rightarrow> None | x # _ \<Rightarrow> Some x), st) \<and>
         (\<exists>st'. aset_clear (state_backend E H) H (aset H k) st = (Ok (), st') \<and>
            aset_at H (state_cell H st') k U [] \<and>
            (\<forall>a \<in> U. is_member (state_backend E H) H (aset H k) a st' = (Ok False, st')))"
proof -
  obtain st' where st': "aset_clear (state_backend E H) H (aset H k) st = (Ok (), st')"
      "state_ok E H (aset_cells H k U) st'" "aset_at H (state_cell H st') k U []"
    using st.aset_clear_run [OF assms subset_refl] by blast
  then show ?thesis
    using st.all_members_run [OF assms] st.get_any_member_run [OF assms] st.is_member_run [OF st'(2,3)]
    by simp
qed

lemma members_and_clear_witness:
  "all_members (state_backend sample_revm sample_keccak) sample_keccak (aset sample_keccak 7) 10
      (sample_state sample_aset_two) = (Ok [5, 6], sample_state sample_aset_two) \<and>
   (\<exists>st'. aset_clear (state_backend sample_revm sample_keccak) sample_keccak (aset sample_keccak 7)
      (sample_state sample_aset_two) = (Ok (), st') \<and>
      is_member (state_backend sample_revm sample_keccak) sample_keccak (aset sample_keccak 7) 5 st' =
        (Ok False, st'))"
  using members_and_clear [OF sample_aset_two_ok, of 10] by auto

text \<open>
  C23: a set whose array and index disagree is rebuilt by \<open>clear_list\<close> and then \<open>rectify_mapping\<close> for every
  address that has an index: the set then holds exactly those addresses, in that order, consistently. From there
  \<open>rectify_mapping\<close> changes nothing any more: it refuses a member as already consistent, and an address without an
  index as not a member.
\<close>

theorem rectify_rebuilds_set:
  assumes ok: "state_ok E H (aset_cells H k (U \<union> set ys)) st" and key: "derive_sub_key H k [0] \<noteq> k"
    and size: "state_cell H st (at k 0) = of_nat n" "n < 2 ^ 64 - 1"
    and "distinct ys" and "set ys \<inter> U = {}" and "length ys + 2 < 2 ^ 64"
    and pending: "\<forall>a \<in> set ys. state_cell H st (member_cell H k a) \<noteq> 0 \<and>
            unat (state_cell H st (member_cell H k a)) < 2 ^ 64"
    and absent: "\<forall>a \<in> U. state_cell H st (member_cell H k a) = 0"
  shows "\<exists>st'. bnd (clear_list (state_backend E H) H (aset H k))
             (\<lambda>_. for_each ys (rectify_mapping (state_backend E H) H (aset H k))) st = (Ok (), st') \<and>
           aset_at H (state_cell H st') k (U \<union> set ys) ys \<and>
           (\<forall>a \<in> set ys. rectify_mapping (state_backend E H) H (aset H k) a st' = (Err MappingAlreadyConsistent, st')) \<and>
           (\<forall>a \<in> U. rectify_mapping (state_backend E H) H (aset H k) a st' = (Err NotMember, st'))"
proof -
  have F: "range (at k) \<subseteq> aset_cells H k (U \<union> set ys)" by (auto simp: aset_cells_def)
  obtain st1 where st1: "clear_list (state_backend E H) H (aset H k) st = (Ok (), st1)"
      "state_ok E H (aset_cells H k (U \<union> set ys)) st1" "state_cell H st1 (at k 0) = 0"
      "\<And>l. l \<in> aset_cells H k (U \<union> set ys) - range (at k) \<Longrightarrow> state_cell H st1 l = state_cell H st l"
    using st.clear_list_run [OF ok F size] by blast
  have frame: "state_cell H st1 (member_cell H k a) = state_cell H st (member_cell H k a)"
    if "a \<in> U \<union> set ys" for a
    using that member_cell_neq_at [OF key] by (intro st1(4)) (auto simp: aset_cells_def)
  have "aset_at H (state_cell H st1) k U []"
    using st1(3) key absent frame by (simp add: aset_at_def)
  then obtain st' where st': "for_each ys (rectify_mapping (state_backend E H) H (aset H k)) st1 = (Ok (), st')"
      "state_ok E H (aset_cells H k (U \<union> set ys)) st'" "aset_at H (state_cell H st') k (U \<union> set ys) ys"
    using st.rectify_all_run [OF st1(2) _ assms(6,5) subset_refl] pending frame assms(7) by fastforce
  note refused = st.rectify_refused [OF st'(2,3)]
  have "rectify_mapping (state_backend E H) H (aset H k) a st' = (Err MappingAlreadyConsistent, st')" if "a \<in> set ys" for a
    using that refused [of a] by simp
  moreover have "rectify_mapping (state_backend E H) H (aset H k) a st' = (Err NotMember, st')" if "a \<in> U" for a
    using that refused [of a] assms(6) by (auto split: if_splits)
  ultimately show ?thesis
    using st1(1) st'(1,3) by (auto simp: bnd_def)
qed

lemma rectify_rebuilds_set_witness:
  "\<exists>st'. bnd (clear_list (state_backend sample_revm sample_keccak) sample_keccak (aset sample_keccak 7))
        (\<lambda>_. for_each [6, 5] (rectify_mapping (state_backend sample_revm sample_keccak) sample_keccak
           (aset sample_keccak 7))) (sample_state sample_aset_two) = (Ok (), st') \<and>
      aset_at sample_keccak (state_cell sample_keccak st') 7 {9, 6, 5} [6, 5] \<and>
      rectify_mapping (state_backend sample_revm sample_keccak) sample_keccak (aset sample_keccak 7) 5 st' =
        (Err MappingAlreadyConsistent, st') \<and>
      rectify_mapping (state_backend sample_revm sample_keccak) sample_keccak (aset sample_keccak 7) 9 st' = (Err NotMember, st')"
proof -
  have "{9} \<union> set [6, 5] = {5, 6, 9 :: address}" by auto
  with sample_aset_two_ok(1) have
    "state_ok sample_revm sample_keccak (aset_cells sample_keccak 7 ({9} \<union> set [6, 5])) (sample_state sample_aset_two)"
    by (simp only:)
  from rectify_rebuilds_set [OF this, of 2] show ?thesis
    by (fastforce simp add: sample_sub_key at_sample member_cell_sample sample_aset_two_def insert_commute)
qed

end
