(* ===== verification/Address_Table.thy ===== *)
theory Address_Table
  imports Sample_Env
begin

text \<open>
  The address table of \<open>crates/arbos/src/address_table/mod.rs\<close>: addresses registered once get a
  small index, and \<open>compress\<close>/\<open>decompress\<close> replace a registered address by its index in RLP. The RLP
  codec is the crate \<open>alloy_rlp\<close>, hence the parameter \<open>R\<close>; \<open>rlp_ok\<close> is what the table relies on.
\<close>

section \<open>The table\<close>

datatype address_table_error = AT_Storage storage_error | InvalidEncoding | IndexOutOfRange u64

text \<open>
  \<open>rlp_header\<close> is \<open>Header::decode\<close>: whether the item is a list, its payload length and the bytes after
  the header. \<open>rlp_decode_u64\<close> is \<open>u64::decode\<close>, with the bytes after the item.
\<close>

record rlp =
  rlp_u64 :: "u64 \<Rightarrow> bytes"
  rlp_bytes :: "bytes \<Rightarrow> bytes"
  rlp_header :: "bytes \<Rightarrow> (bool \<times> nat \<times> bytes) option"
  rlp_decode_u64 :: "bytes \<Rightarrow> (u64 \<times> bytes) option"

record address_table =
  at_backing :: storage_handle
  at_by_address :: storage_handle
  num_items :: backed

definition open_address_table :: "keccak \<Rightarrow> storage_handle \<Rightarrow> address_table" where
  "open_address_table H sto =
     \<lparr>at_backing = sto, at_by_address = open_sub_storage H sto [],
      num_items = backed_new H (base_key sto) 0\<rparr>"

definition atab_address_to_hash :: "address \<Rightarrow> u256" where
  "atab_address_to_hash addr = from_be (replicate 12 0 @ be_bytes 20 addr)"

definition atab_uint_to_hash :: "u64 \<Rightarrow> u256" where
  "atab_uint_to_hash val = ucast val"

definition atab_by_address_get ::
  "'s backend \<Rightarrow> keccak \<Rightarrow> address_table \<Rightarrow> u256 \<Rightarrow> ('s, u256, address_table_error) comp" where
  "atab_by_address_get B H self key =
     map_err AT_Storage (sload_system B (sto_account (at_by_address self))
       (slot_for_key H (at_by_address self) key))"

definition atab_by_address_set ::
  "'s backend \<Rightarrow> keccak \<Rightarrow> address_table \<Rightarrow> u256 \<Rightarrow> u256 \<Rightarrow> ('s, unit, address_table_error) comp" where
  "atab_by_address_set B H self key val =
     map_err AT_Storage (sstore B (sto_account (at_by_address self))
       (slot_for_key H (at_by_address self) key) val)"

definition atab_backing_get ::
  "'s backend \<Rightarrow> keccak \<Rightarrow> address_table \<Rightarrow> u64 \<Rightarrow> ('s, u256, address_table_error) comp" where
  "atab_backing_get B H self offset =
     map_err AT_Storage (sload_system B (sto_account (at_backing self)) (new_slot H (at_backing self) offset))"

definition atab_backing_set ::
  "'s backend \<Rightarrow> keccak \<Rightarrow> address_table \<Rightarrow> u64 \<Rightarrow> u256 \<Rightarrow> ('s, unit, address_table_error) comp" where
  "atab_backing_set B H self offset val =
     map_err AT_Storage (sstore B (sto_account (at_backing self)) (new_slot H (at_backing self) offset) val)"

definition register ::
  "'s backend \<Rightarrow> keccak \<Rightarrow> address_table \<Rightarrow> address \<Rightarrow> ('s, u64 \<times> bool, address_table_error) comp" where
  "register B H self addr =
     (let addr_hash = atab_address_to_hash addr in
     bnd (atab_by_address_get B H self addr_hash) (\<lambda>rev.
     if rev \<noteq> 0 then bnd (to_or_panic rev) (\<lambda>i :: u64. ret (i - 1, True)) else
     bnd (map_err AT_Storage (uint64_get B (num_items self))) (\<lambda>current.
     let new_num_items = current + 1 in
     bnd (map_err AT_Storage (uint64_set B (num_items self) new_num_items)) (\<lambda>_.
     bnd (atab_backing_set B H self new_num_items addr_hash) (\<lambda>_.
     bnd (atab_by_address_set B H self addr_hash (atab_uint_to_hash new_num_items)) (\<lambda>_.
     ret (new_num_items - 1, False)))))))"

definition lookup ::
  "'s backend \<Rightarrow> keccak \<Rightarrow> address_table \<Rightarrow> address \<Rightarrow> ('s, u64 \<times> bool, address_table_error) comp" where
  "lookup B H self addr =
     bnd (atab_by_address_get B H self (atab_address_to_hash addr)) (\<lambda>res_hash.
     bnd (to_or_panic res_hash) (\<lambda>res :: u64.
     if res = 0 then ret (0, False) else ret (res - 1, True)))"

definition address_exists ::
  "'s backend \<Rightarrow> keccak \<Rightarrow> address_table \<Rightarrow> address \<Rightarrow> ('s, bool, address_table_error) comp" where
  "address_exists B H self addr = bnd (lookup B H self addr) (\<lambda>r. ret (snd r))"

definition atab_size :: "'s backend \<Rightarrow> address_table \<Rightarrow> ('s, u64, address_table_error) comp" where
  "atab_size B self = map_err AT_Storage (uint64_get B (num_items self))"

definition lookup_index ::
  "'s backend \<Rightarrow> keccak \<Rightarrow> address_table \<Rightarrow> u64 \<Rightarrow> ('s, address option, address_table_error) comp" where
  "lookup_index B H self index =
     bnd (map_err AT_Storage (uint64_get B (num_items self))) (\<lambda>items.
     if items \<le> index then ret None else
     bnd (atab_backing_get B H self (index + 1)) (\<lambda>val.
     ret (Some (from_be (drop 12 (be_bytes 32 val))))))"

definition compress ::
  "'s backend \<Rightarrow> keccak \<Rightarrow> rlp \<Rightarrow> address_table \<Rightarrow> address \<Rightarrow> ('s, bytes, address_table_error) comp" where
  "compress B H R self addr =
     bnd (lookup B H self addr) (\<lambda>(index, found).
     if found then ret (rlp_u64 R index) else ret (rlp_bytes R (be_bytes 20 addr)))"

definition decompress ::
  "'s backend \<Rightarrow> keccak \<Rightarrow> rlp \<Rightarrow> address_table \<Rightarrow> bytes \<Rightarrow> ('s, address \<times> u64 \<times> bool, address_table_error) comp" where
  "decompress B H R self buf =
     (if buf = [] then throw InvalidEncoding else
      case rlp_header R buf of
        None \<Rightarrow> throw InvalidEncoding
      | Some (is_list, payload_length, header_cursor) \<Rightarrow>
          if is_list then throw InvalidEncoding
          else if payload_length = 20 then
            (if length header_cursor < 20 then throw InvalidEncoding
             else let consumed = length buf - length header_cursor + 20 in
                  ret (from_be (take 20 header_cursor), of_nat consumed, True))
          else (case rlp_decode_u64 R buf of
              None \<Rightarrow> throw InvalidEncoding
            | Some (index, cursor) \<Rightarrow>
                let bytes_read = of_nat (length buf - length cursor) in
                bnd (lookup_index B H self index) (\<lambda>r.
                case r of None \<Rightarrow> throw (IndexOutOfRange index)
                | Some addr \<Rightarrow> ret (addr, bytes_read, False))))"

text \<open>The codec: an encoding followed by anything decodes to what was encoded.\<close>

definition rlp_ok :: "rlp \<Rightarrow> bool" where
  "rlp_ok R \<longleftrightarrow>
     (\<forall>n rest. rlp_u64 R n \<noteq> [] \<and> rlp_decode_u64 R (rlp_u64 R n @ rest) = Some (n, rest) \<and>
        (\<exists>len cursor. rlp_header R (rlp_u64 R n @ rest) = Some (False, len, cursor) \<and> len \<le> 8)) \<and>
     (\<forall>bs rest. length bs = 20 \<longrightarrow> 20 < length (rlp_bytes R bs) \<and>
        rlp_header R (rlp_bytes R bs @ rest) = Some (False, 20, bs @ rest))"

section \<open>The addresses a table holds\<close>

definition index_cell :: "keccak \<Rightarrow> u256 \<Rightarrow> address \<Rightarrow> cell_id" where
  "index_cell H k a = (ARBOS_STATE_ADDRESS, derive_sub_key H k [], ucast a)"

definition atab_cells :: "keccak \<Rightarrow> u256 \<Rightarrow> address set \<Rightarrow> cell_id set" where
  "atab_cells H k U = range (at k) \<union> index_cell H k ` U"

definition atab_at :: "keccak \<Rightarrow> (cell_id \<Rightarrow> u256) \<Rightarrow> u256 \<Rightarrow> address set \<Rightarrow> address list \<Rightarrow> bool" where
  "atab_at H c k U xs \<longleftrightarrow>
     distinct xs \<and> set xs \<subseteq> U \<and> length xs < 2 ^ 64 - 1 \<and> derive_sub_key H k [] \<noteq> k \<and>
     c (at k 0) = of_nat (length xs) \<and>
     (\<forall>i < length xs. c (at k (of_nat (Suc i))) = ucast (xs ! i)) \<and>
     (\<forall>i < length xs. c (index_cell H k (xs ! i)) = of_nat (Suc i)) \<and>
     (\<forall>a \<in> U - set xs. c (index_cell H k a) = 0)"

lemma atab_hash_ucast: "atab_address_to_hash a = ucast a"
  by (simp add: atab_address_to_hash_def from_be_padded)

lemma index_cell_eq_iff [simp]: "index_cell H k a = index_cell H k b \<longleftrightarrow> a = b"
  by (simp add: index_cell_def ucast_up_inj)

lemma index_cell_neq_at:
  "derive_sub_key H k [] \<noteq> k \<Longrightarrow> index_cell H k a \<noteq> at k off"
  "derive_sub_key H k [] \<noteq> k \<Longrightarrow> at k off \<noteq> index_cell H k a"
  by (auto simp: index_cell_def at_def)

lemma atab_cellsI:
  "atab_cells H k U \<subseteq> F \<Longrightarrow> at k off \<in> F"
  "atab_cells H k U \<subseteq> F \<Longrightarrow> a \<in> U \<Longrightarrow> index_cell H k a \<in> F"
  by (auto simp: atab_cells_def)

abbreviation atab :: "keccak \<Rightarrow> u256 \<Rightarrow> address_table" where
  "atab H k \<equiv> open_address_table H (storage_new k)"

section \<open>The operations\<close>

context arb_store
begin

lemma atab_access:
  assumes "ok s"
  shows "atab_by_address_get B H (atab H k) (ucast a) s = (Ok (cell s (index_cell H k a)), s)"
    and "atab_by_address_set B H (atab H k) (ucast a) v s = (Ok (), poke s (index_cell H k a) v)"
    and "atab_backing_get B H (atab H k) off s = (Ok (cell s (at k off)), s)"
    and "atab_backing_set B H (atab H k) off v s = (Ok (), poke s (at k off) v)"
    and "uint64_get B (num_items (atab H k)) s = (Ok (narrow_or_zero (cell s (at k 0))), s)"
    and "uint64_set B (num_items (atab H k)) w s = (Ok (), poke s (at k 0) (ucast w))"
  using assms
  by (simp_all add: run_simps atab_by_address_get_def atab_by_address_set_def atab_backing_get_def
      atab_backing_set_def open_address_table_def open_sub_storage_def storage_new_def
      new_slot_slot slot_for_key_slot store_simps index_cell_def at_def)

lemma lookup_run:
  assumes "ok s" and at: "atab_at H (cell s) k U xs" and "a \<in> U"
  shows "i < length xs \<Longrightarrow> xs ! i = a \<Longrightarrow> lookup B H (atab H k) a s = (Ok (of_nat i, True), s)"
    and "a \<notin> set xs \<Longrightarrow> lookup B H (atab H k) a s = (Ok (0, False), s)"
proof -
  assume i: "i < length xs" "xs ! i = a"
  with at have "cell s (index_cell H k a) = of_nat (Suc i)" and "Suc i < 2 ^ 64"
    by (auto simp: atab_at_def)
  moreover have "(of_nat (Suc i) - 1 :: u64) = of_nat i" by simp
  ultimately show "lookup B H (atab H k) a s = (Ok (of_nat i, True), s)"
    using assms(1) by (simp add: run_simps lookup_def atab_hash_ucast atab_access counter_simps del: of_nat_Suc)
next
  assume "a \<notin> set xs"
  with at assms(3) have "cell s (index_cell H k a) = of_nat 0" by (auto simp: atab_at_def)
  with assms(1) show "lookup B H (atab H k) a s = (Ok (0, False), s)"
    by (simp add: run_simps lookup_def atab_hash_ucast atab_access to_or_panic_def)
qed

lemma lookup_index_run:
  assumes "ok s" and at: "atab_at H (cell s) k U xs"
  shows "lookup_index B H (atab H k) n s = (Ok (if unat n < length xs then Some (xs ! unat n) else None), s)"
proof -
  have size: "uint64_get B (num_items (atab H k)) s = (Ok (of_nat (length xs)), s)" and b: "length xs < 2 ^ 64"
    using assms by (simp_all add: atab_access atab_at_def counter_simps)
  have le: "of_nat (length xs) \<le> n \<longleftrightarrow> length xs \<le> unat n"
    using b by (simp add: word_le_nat_alt counter_simps)
  show ?thesis
  proof (cases "unat n < length xs")
    case True
    have "n + 1 = of_nat (Suc (unat n))" by simp
    then have "cell s (at k (n + 1)) = ucast (xs ! unat n)"
      using at True by (simp add: atab_at_def del: of_nat_Suc)
    moreover have "from_be (drop 12 (be_bytes 32 v)) = (ucast v :: address)" for v :: u256
      using drop_be_bytes [of 12 20 v] by (simp add: from_be_truncated)
    ultimately show ?thesis
      using True assms(1) by (simp add: run_simps lookup_index_def size le atab_access ucast_down_up)
  qed (simp add: run_simps lookup_index_def size le)
qed

lemma register_new_run:
  assumes "ok s" and at: "atab_at H (cell s) k U xs" and "a \<in> U - set xs" and F: "atab_cells H k U \<subseteq> F"
    and "length xs + 2 < 2 ^ 64"
  obtains s' where "register B H (atab H k) a s = (Ok (of_nat (length xs), False), s')" and "ok s'"
    and "atab_at H (cell s') k U (xs @ [a])"
    and "\<And>l. l \<in> F - atab_cells H k U \<Longrightarrow> cell s' l = cell s l"
proof -
  note [simp del] = of_nat_Suc of_nat_add
  let ?n = "length xs"
  let ?s' = "poke (poke (poke s (at k 0) (of_nat (Suc ?n))) (at k (of_nat (Suc ?n))) (ucast a))
    (index_cell H k a) (of_nat (Suc ?n))"
  have succ: "(of_nat ?n + 1 :: u64) = of_nat (Suc ?n)" "(of_nat (Suc ?n) - 1 :: u64) = of_nat ?n"
    by (simp_all add: of_nat_Suc)
  have zero: "cell s (index_cell H k a) = 0" and size: "cell s (at k 0) = of_nat ?n"
    using at assms(3) by (auto simp: atab_at_def)
  have run: "register B H (atab H k) a s = (Ok (of_nat ?n, False), ?s')"
    using assms(1,5)
    by (simp add: run_simps register_def Let_def atab_hash_ucast atab_access ok_poke zero size
        atab_uint_to_hash_def succ counter_simps)
  have neq: "i \<le> ?n \<Longrightarrow> (of_nat (Suc i) :: u64) \<noteq> 0"
    "i < ?n \<Longrightarrow> (of_nat (Suc i) :: u64) \<noteq> of_nat (Suc ?n)" for i
    using assms(5) of_nat_u64_eq_iff [of "Suc i" 0] of_nat_u64_eq_iff [of "Suc i" "Suc ?n"] by simp_all
  have key: "derive_sub_key H k [] \<noteq> k" and in_U: "set xs \<subseteq> U"
    using at by (simp_all add: atab_at_def)
  have mem: "i < ?n \<Longrightarrow> xs ! i \<in> U" for i using in_U by auto
  note cells = cell_poke ok_poke atab_cellsI [OF F] index_cell_neq_at [OF key] mem
  have "atab_at H (cell ?s') k U (xs @ [a])"
    unfolding atab_at_def
  proof (intro conjI allI impI ballI)
    show "cell ?s' (at k (of_nat (Suc i))) = ucast ((xs @ [a]) ! i)" if "i < length (xs @ [a])" for i
      using that assms(1,3) at neq by (auto simp: cells atab_at_def nth_append less_Suc_eq)
    show "cell ?s' (index_cell H k ((xs @ [a]) ! i)) = of_nat (Suc i)" if "i < length (xs @ [a])" for i
      using that assms(1,3) at
      by (auto simp: cells atab_at_def nth_append less_Suc_eq)
    show "cell ?s' (index_cell H k b) = 0" if "b \<in> U - set (xs @ [a])" for b
      using that assms(1,3) at by (auto simp: cells atab_at_def)
  qed (use assms(1,3,5) at neq(1) [of ?n] in \<open>auto simp: cells atab_at_def\<close>)
  moreover have "cell ?s' l = cell s l" if "l \<in> F - atab_cells H k U" for l
    using that assms(1,3) by (auto simp: cells atab_cells_def)
  ultimately show thesis
    using that [OF run] assms(1) by (simp add: ok_poke)
qed

lemma register_old_run:
  assumes "ok s" and at: "atab_at H (cell s) k U xs" and i: "i < length xs"
  shows "register B H (atab H k) (xs ! i) s = (Ok (of_nat i, True), s)"
proof -
  have "cell s (index_cell H k (xs ! i)) = of_nat (Suc i)" and b: "Suc i < 2 ^ 64"
    using at i by (auto simp: atab_at_def)
  moreover have "(of_nat (Suc i) - 1 :: u64) = of_nat i" by simp
  moreover have "(of_nat (Suc i) :: u256) \<noteq> 0"
    using of_nat_u256_zero_iff [OF b] by (simp del: of_nat_Suc)
  ultimately show ?thesis
    using assms(1) b
    by (simp add: run_simps register_def Let_def atab_hash_ucast atab_access counter_simps del: of_nat_Suc)
qed

end

section \<open>The properties\<close>

text \<open>
  C27: compressing an address and decompressing the result, followed by any bytes, gives the address
  back, consumes exactly the compressed bytes, and reports a raw address exactly when the
  address is not registered.
\<close>

theorem compress_round_trip:
  assumes "state_ok E H (atab_cells H k U) st" and "atab_at H (state_cell H st) k U xs"
    and "a \<in> U" and "rlp_ok R"
  shows "\<exists>enc. compress (state_backend E H) H R (atab H k) a st = (Ok enc, st) \<and>
           decompress (state_backend E H) H R (atab H k) (enc @ rest) st =
             (Ok (a, of_nat (length enc), a \<notin> set xs), st)"
proof (cases "a \<in> set xs")
  case True
  then obtain i where i: "i < length xs" "xs ! i = a" by (auto simp: in_set_conv_nth)
  then have i': "i < 2 ^ 64" using assms(2) by (simp add: atab_at_def)
  let ?enc = "rlp_u64 R (of_nat i)"
  have "compress (state_backend E H) H R (atab H k) a st = (Ok ?enc, st)"
    using st.lookup_run(1) [OF assms(1-3) i] by (simp add: run_simps compress_def)
  moreover obtain len cursor where "rlp_header R (?enc @ rest) = Some (False, len, cursor)" "len \<le> 8"
    "rlp_decode_u64 R (?enc @ rest) = Some (of_nat i, rest)" "?enc \<noteq> []"
    using assms(4) unfolding rlp_ok_def by blast
  moreover have "lookup_index (state_backend E H) H (atab H k) (of_nat i) st = (Ok (Some a), st)"
    using st.lookup_index_run [OF assms(1,2), of "of_nat i"] i i' by (simp add: counter_simps)
  ultimately show ?thesis
    using True by (simp add: run_simps decompress_def Let_def)
next
  case False
  let ?enc = "rlp_bytes R (be_bytes 20 a)"
  have "compress (state_backend E H) H R (atab H k) a st = (Ok ?enc, st)"
    using st.lookup_run(2) [OF assms(1-3) False] by (simp add: run_simps compress_def)
  moreover have "rlp_header R (?enc @ rest) = Some (False, 20, be_bytes 20 a @ rest)" "20 < length ?enc"
    using assms(4) unfolding rlp_ok_def by simp_all
  moreover have "from_be (be_bytes 20 a) = a"
    by (simp add: from_be_bytes)
  ultimately show ?thesis
    using False by (auto simp: run_simps decompress_def Let_def)
qed

text \<open>
  C28: \<open>register\<close> gives an address that is not in the table the next index and leaves every earlier
  index as it is; an address that is in the table keeps its index. Afterwards \<open>lookup\<close> and
  \<open>lookup_index\<close> are inverse on it.
\<close>

theorem register_lookup_inverse:
  assumes "state_ok E H (atab_cells H k U) st" and "atab_at H (state_cell H st) k U xs"
    and "a \<in> U" and "length xs + 2 < 2 ^ 64"
  shows "\<exists>st' i. register (state_backend E H) H (atab H k) a st = (Ok (i, a \<in> set xs), st') \<and>
           atab_at H (state_cell H st') k U (if a \<in> set xs then xs else xs @ [a]) \<and>
           lookup (state_backend E H) H (atab H k) a st' = (Ok (i, True), st') \<and>
           lookup_index (state_backend E H) H (atab H k) i st' = (Ok (Some a), st')"
proof (cases "a \<in> set xs")
  case True
  then obtain i where i: "i < length xs" "xs ! i = a" by (auto simp: in_set_conv_nth)
  have "lookup_index (state_backend E H) H (atab H k) (of_nat i) st = (Ok (Some a), st)"
    using st.lookup_index_run [OF assms(1,2), of "of_nat i"] i assms(4) by (simp add: counter_simps)
  with True st.register_old_run [OF assms(1,2) i(1)] st.lookup_run(1) [OF assms(1-3) i] assms(2) i(2)
  show ?thesis by auto
next
  case False
  with assms(3) have "a \<in> U - set xs" by simp
  then obtain st' where st': "register (state_backend E H) H (atab H k) a st = (Ok (of_nat (length xs), False), st')"
      "state_ok E H (atab_cells H k U) st'" "atab_at H (state_cell H st') k U (xs @ [a])"
    using st.register_new_run [OF assms(1,2) _ subset_refl assms(4)] by blast
  have "lookup_index (state_backend E H) H (atab H k) (of_nat (length xs)) st' = (Ok (Some a), st')"
    using st.lookup_index_run [OF st'(2,3), of "of_nat (length xs)"] assms(4) by (simp add: counter_simps)
  moreover have "lookup (state_backend E H) H (atab H k) a st' = (Ok (of_nat (length xs), True), st')"
    by (rule st.lookup_run(1) [OF st'(2,3) assms(3)]) simp_all
  ultimately show ?thesis
    using False st' by auto
qed

text \<open>A codec with fixed-size integers, and a table that holds the address 5.\<close>

definition sample_rlp :: rlp where
  "sample_rlp = \<lparr>rlp_u64 = (\<lambda>n. 0x88 # be_bytes 8 n), rlp_bytes = (\<lambda>bs. 0x94 # bs),
     rlp_header = (\<lambda>bs. case bs of [] \<Rightarrow> None
        | b # r \<Rightarrow> if b = 0x88 then Some (False, 8, r) else if b = 0x94 then Some (False, 20, r) else None),
     rlp_decode_u64 = (\<lambda>bs. case bs of [] \<Rightarrow> None
        | b # r \<Rightarrow> if b = 0x88 then Some (from_be (take 8 r), drop 8 r) else None)\<rparr>"

lemma rlp_ok_sample: "rlp_ok sample_rlp"
  by (simp add: rlp_ok_def sample_rlp_def from_be_bytes)

definition sample_table :: "u256 \<Rightarrow> u256 \<Rightarrow> u256" where
  "sample_table k key = (if k = 7 then (if key = 0 then 1 else if key = 1 then 5 else 0)
     else if key = 5 then 1 else 0)"

lemma sample_table_key: "derive_sub_key sample_keccak 7 [] = 8"
proof -
  have "drop 22 (be_bytes 32 (7 :: u256)) = be_bytes 10 (7 :: u256)"
    using drop_be_bytes [of 22 10 "7 :: u256"] by simp
  then show ?thesis
    by (simp add: derive_sub_key_def storage_key_def sample_keccak_def from_be_of_nat be_nat_be_bytes)
qed

lemma index_cell_sample:
  "state_cell sample_keccak (sample_state c) (index_cell sample_keccak 7 a) = c 8 (ucast a)"
  "small_cell (index_cell sample_keccak 7 a)"
proof -
  have small: "unat (ucast a :: u256) < 2 ^ 176"
    using unat_bound [of a] by (simp add: unat_ucast_up)
  then show "small_cell (index_cell sample_keccak 7 a)"
    by (simp add: index_cell_def sample_table_key)
  from small show "state_cell sample_keccak (sample_state c) (index_cell sample_keccak 7 a) = c 8 (ucast a)"
    unfolding index_cell_def sample_table_key by (intro state_cell_sample) simp_all
qed

lemma sample_table_ok:
  "state_ok sample_revm sample_keccak (atab_cells sample_keccak 7 {5, 6}) (sample_state sample_table)"
  "atab_at sample_keccak (state_cell sample_keccak (sample_state sample_table)) 7 {5, 6} [5]"
  by (rule state_ok_sample)
    (auto simp: atab_cells_def atab_at_def at_sample index_cell_sample sample_table_def sample_table_key)

lemma compress_round_trip_witness:
  "\<exists>enc. compress (state_backend sample_revm sample_keccak) sample_keccak sample_rlp (atab sample_keccak 7) 5
        (sample_state sample_table) = (Ok enc, sample_state sample_table) \<and>
      decompress (state_backend sample_revm sample_keccak) sample_keccak sample_rlp (atab sample_keccak 7)
        (enc @ [1, 2]) (sample_state sample_table) = (Ok (5, of_nat (length enc), False), sample_state sample_table)"
  using compress_round_trip [OF sample_table_ok _ rlp_ok_sample, of 5 "[1, 2]"] by simp

lemma register_lookup_inverse_witness:
  "\<exists>st' i. register (state_backend sample_revm sample_keccak) sample_keccak (atab sample_keccak 7) 6
        (sample_state sample_table) = (Ok (i, False), st') \<and>
      lookup (state_backend sample_revm sample_keccak) sample_keccak (atab sample_keccak 7) 6 st' =
        (Ok (i, True), st')"
  using register_lookup_inverse [OF sample_table_ok, of 6] by auto

end
