(* ===== verification/Blockhashes.thy ===== *)
theory Blockhashes
  imports Sample_Env
begin

text \<open>
  The recent parent-chain block hashes of \<open>crates/arbos/src/blockhash/mod.rs\<close>: a ring of 256
  hashes and the number of the next block. Recording a block fills the places of the blocks
  that were skipped with hashes derived from the new one.
\<close>

section \<open>The ring\<close>

record blockhashes =
  bh_backing :: storage_handle
  l1_block_number :: backed

definition open_blockhashes :: "keccak \<Rightarrow> storage_handle \<Rightarrow> blockhashes" where
  "open_blockhashes H sto = \<lparr>bh_backing = sto, l1_block_number = backed_new H (base_key sto) 0\<rparr>"

definition get_l1_block_number :: "'s backend \<Rightarrow> blockhashes \<Rightarrow> ('s, u64, storage_error) comp" where
  "get_l1_block_number B self = uint64_get B (l1_block_number self)"

definition block_hash ::
  "'s backend \<Rightarrow> keccak \<Rightarrow> blockhashes \<Rightarrow> u64 \<Rightarrow> ('s, u256 option, storage_error) comp" where
  "block_hash B H self number =
     bnd (uint64_get B (l1_block_number self)) (\<lambda>current_number.
     if current_number \<le> number \<or> number + 256 < current_number then ret None else
     bnd (get_by_uint64 B H (bh_backing self) (1 + number mod 256)) (\<lambda>hash.
     ret (Some hash)))"

text \<open>The hash put in the place of a skipped block.\<close>

definition fill_hash :: "keccak \<Rightarrow> u256 \<Rightarrow> u64 \<Rightarrow> u64 \<Rightarrow> u256" where
  "fill_hash H hash arbos_version next_number =
     (let next_num_buf = (if 8 \<le> arbos_version then le_bytes 8 next_number else replicate 8 0)
      in H (be_bytes 32 hash @ next_num_buf))"

lemma distance_decreases: "n + 1 < (m :: u64) \<Longrightarrow> unat (m - ((n + 1) + 1)) < unat (m - (n + 1))"
proof -
  assume less: "n + 1 < m"
  then have "m - (n + 1) \<noteq> 0" by auto
  moreover have "m - ((n + 1) + 1) = (m - (n + 1)) - 1" by simp
  ultimately show ?thesis
    by (metis diff_less less_numeral_extra(1) unat_eq_zero unat_gt_0 unat_minus_one)
qed

function fill_skipped :: "'s backend \<Rightarrow> keccak \<Rightarrow> blockhashes \<Rightarrow> u64 \<Rightarrow> u256 \<Rightarrow> u64 \<Rightarrow> u64
    \<Rightarrow> ('s, unit, storage_error) comp" where
  "fill_skipped B H self number hash arbos_version next_number =
     (if next_number + 1 < number then
        let next_number = next_number + 1 in
        bnd (set_by_uint64 B H (bh_backing self) (1 + next_number mod 256)
               (fill_hash H hash arbos_version next_number)) (\<lambda>_.
        fill_skipped B H self number hash arbos_version next_number)
      else ret ())"
  by pat_completeness auto

termination
  by (relation "measure (\<lambda>(B, H, self, number, h, v, n). unat (number - (n + 1)))")
    (use distance_decreases in \<open>simp_all add: Let_def\<close>)

declare fill_skipped.simps [simp del]

definition record_new_l1_block ::
  "'s backend \<Rightarrow> keccak \<Rightarrow> blockhashes \<Rightarrow> u64 \<Rightarrow> u256 \<Rightarrow> u64 \<Rightarrow> ('s, unit, storage_error) comp" where
  "record_new_l1_block B H self number hash arbos_version =
     bnd (uint64_get B (l1_block_number self)) (\<lambda>next_number.
     if number < next_number then ret () else
     let next_number = (if next_number + 256 < number then number - 256 else next_number) in
     bnd (fill_skipped B H self number hash arbos_version next_number) (\<lambda>_.
     bnd (set_by_uint64 B H (bh_backing self) (1 + number mod 256) hash) (\<lambda>_.
     uint64_set B (l1_block_number self) (number + 1))))"

section \<open>The places of the ring\<close>

abbreviation bhs :: "keccak \<Rightarrow> u256 \<Rightarrow> blockhashes" where
  "bhs H k \<equiv> open_blockhashes H (storage_new k)"

definition place :: "u256 \<Rightarrow> u64 \<Rightarrow> cell_id" where
  "place k n = at k (1 + n mod 256)"

lemma unat_mod_256: "unat (n mod 256 :: u64) = unat n mod 256"
  by (simp add: unat_mod)

lemma unat_offset: "unat (1 + n mod 256 :: u64) = 1 + unat n mod 256"
  by (subst unat_add_lem [THEN iffD1]) (simp_all add: unat_mod_256)

lemma place_eq_iff: "place k m = place k n \<longleftrightarrow> unat m mod 256 = unat n mod 256"
  by (simp add: place_def word_unat_eq_iff unat_offset)

lemma place_neq_0: "place k n \<noteq> at k 0" "at k 0 \<noteq> place k n"
proof -
  have "1 + n mod 256 \<noteq> 0" by (metis unat_offset add_is_0 one_neq_zero unat_0)
  then show "place k n \<noteq> at k 0" "at k 0 \<noteq> place k n" by (auto simp: place_def)
qed

context arb_store
begin

lemma ring_access:
  assumes "ok s"
  shows "set_by_uint64 B H (bh_backing (bhs H k)) (1 + n mod 256) v s = (Ok (), poke s (place k n) v)"
    and "get_by_uint64 B H (bh_backing (bhs H k)) (1 + n mod 256) s = (Ok (cell s (place k n)), s)"
    and "uint64_get B (l1_block_number (bhs H k)) s = (Ok (narrow_or_zero (cell s (at k 0))), s)"
    and "uint64_set B (l1_block_number (bhs H k)) w s = (Ok (), poke s (at k 0) (ucast w))"
  using assms by (simp_all add: open_blockhashes_def storage_new_def store_simps place_def at_def)

text \<open>The loop fills the places of the blocks strictly between and changes nothing else.\<close>

lemma fill_skipped_run:
  assumes "ok s" and F: "range (at k) \<subseteq> F" and "unat n < 2 ^ 64 - 1" and "unat n - unat x \<le> 256"
    and "unat x \<le> unat n"
  shows "\<exists>s'. fill_skipped B H (bhs H k) n h v x s = (Ok (), s') \<and> ok s' \<and>
     (\<forall>m. x < m \<and> m < n \<longrightarrow> cell s' (place k m) = fill_hash H h v m) \<and>
     (\<forall>l \<in> F. (\<forall>m. x < m \<and> m < n \<longrightarrow> l \<noteq> place k m) \<longrightarrow> cell s' l = cell s l)"
  using assms(1,4,5)
proof (induction "unat n - unat x" arbitrary: x s)
  case 0
  then have "x = n" by (simp add: word_unat_eq_iff)
  moreover have "\<not> n + 1 < n"
    using assms(3) by (simp add: word_less_nat_alt unat_plus_one)
  ultimately show ?case
    using 0 by (subst fill_skipped.simps) (auto simp: run_simps)
next
  case (Suc d)
  have x1: "unat (x + 1) = unat x + 1"
    using Suc.hyps(2) assms(3) by (intro unat_plus_one) simp
  show ?case
  proof (cases "x + 1 < n")
    case False
    then have "\<not> (x < m \<and> m < n)" for m
      using x1 by (auto simp: word_less_nat_alt)
    with False Suc.prems show ?thesis
      by (subst fill_skipped.simps) (auto simp: run_simps)
  next
    case True
    let ?s1 = "poke s (place k (x + 1)) (fill_hash H h v (x + 1))"
    have in_F: "place k m \<in> F" for m using F by (auto simp: place_def)
    have "d = unat n - unat (x + 1)" "unat n - unat (x + 1) \<le> 256" "unat (x + 1) \<le> unat n"
      using Suc.hyps(2) Suc.prems x1 by simp_all
    from Suc.hyps(1) [OF this(1) ok_poke [OF Suc.prems(1)] this(2,3)] obtain s' where
      s': "fill_skipped B H (bhs H k) n h v (x + 1) ?s1 = (Ok (), s')" "ok s'"
        "\<forall>m. x + 1 < m \<and> m < n \<longrightarrow> cell s' (place k m) = fill_hash H h v m"
        "\<forall>l \<in> F. (\<forall>m. x + 1 < m \<and> m < n \<longrightarrow> l \<noteq> place k m) \<longrightarrow> cell s' l = cell ?s1 l"
      by blast
    have run: "fill_skipped B H (bhs H k) n h v x s = (Ok (), s')"
      using True s'(1) Suc.prems(1) by (subst fill_skipped.simps) (simp add: bnd_def Let_def ring_access)
    have "place k (x + 1) \<noteq> place k m" if "x + 1 < m" "m < n" for m
      using that Suc.prems(2) x1 mod_eq_dvd_iff_nat [of "unat (x + 1)" "unat m" 256]
      by (auto simp: place_eq_iff word_less_nat_alt dest: dvd_imp_le)
    then have "cell s' (place k (x + 1)) = fill_hash H h v (x + 1)"
      using s'(4) in_F Suc.prems(1) by (simp add: cell_poke)
    moreover have "x < m \<longleftrightarrow> m = x + 1 \<or> x + 1 < m" for m
      using x1 by (auto simp: word_less_nat_alt word_unat_eq_iff)
    ultimately show ?thesis
      using run s' Suc.prems(1) in_F True by (intro exI [of _ s']) (auto simp: cell_poke)
  qed
qed

text \<open>
  Recording block \<open>n\<close> when \<open>c\<close> was expected: \<open>n\<close> has its hash, the blocks strictly between \<open>c\<close> (or the
  start of the window) and \<open>n\<close> have derived hashes, every other place is kept.
\<close>

lemma record_run:
  assumes "ok s" and F: "range (at k) \<subseteq> F" and c: "cell s (at k 0) = ucast c" and "c \<le> n"
    and n: "unat n < 2 ^ 64 - 256"
  obtains s' where "record_new_l1_block B H (bhs H k) n h v s = (Ok (), s')" and "ok s'"
    and "cell s' (at k 0) = ucast (n + 1)" and "cell s' (place k n) = h"
    and "\<And>m. c < m \<Longrightarrow> m < n \<Longrightarrow> unat n < unat m + 256 \<Longrightarrow> cell s' (place k m) = fill_hash H h v m"
    and "\<And>l. l \<in> F \<Longrightarrow> l \<noteq> at k 0 \<Longrightarrow>
           (\<And>m. m = n \<or> c < m \<and> m < n \<and> unat n < unat m + 256 \<Longrightarrow> l \<noteq> place k m) \<Longrightarrow> cell s' l = cell s l"
proof -
  define x where "x = (if c + 256 < n then n - 256 else c)"
  have cn: "unat c \<le> unat n" using assms(4) by (simp add: word_le_nat_alt)
  then have c256: "unat (c + 256) = unat c + 256"
    using n by (subst unat_add_lem [THEN iffD1]) simp_all
  have unat_x: "unat x = max (unat c) (unat n - 256)"
  proof (cases "unat c + 256 < unat n")
    case True
    then have "unat (n - 256) = unat n - 256" by (subst unat_sub) (simp_all add: word_le_nat_alt)
    with True show ?thesis by (simp add: x_def word_less_nat_alt c256)
  qed (simp add: x_def word_less_nat_alt c256)
  have xm: "x < m \<longleftrightarrow> c < m \<and> unat n < unat m + 256" for m
    by (auto simp: word_less_nat_alt unat_x)
  have in_F: "place k m \<in> F" "at k 0 \<in> F" for m using F by (auto simp: place_def)
  obtain s1 where s1: "fill_skipped B H (bhs H k) n h v x s = (Ok (), s1)" "ok s1"
      "\<forall>m. x < m \<and> m < n \<longrightarrow> cell s1 (place k m) = fill_hash H h v m"
      "\<forall>l \<in> F. (\<forall>m. x < m \<and> m < n \<longrightarrow> l \<noteq> place k m) \<longrightarrow> cell s1 l = cell s l"
    using fill_skipped_run [OF assms(1) F, of n x h v] n cn unat_x by fastforce
  let ?s' = "poke (poke s1 (place k n) h) (at k 0) (ucast (n + 1))"
  have run: "record_new_l1_block B H (bhs H k) n h v s = (Ok (), ?s')"
    using assms(1,4) s1(1,2) leD [OF assms(4)]
    by (simp add: bnd_def record_new_l1_block_def ring_access ok_poke c Let_def x_def [symmetric])
  have fill: "cell ?s' (place k m) = fill_hash H h v m"
    if "c < m" "m < n" "unat n < unat m + 256" for m
  proof -
    have "place k n \<noteq> place k m"
      using that mod_eq_dvd_iff_nat [of "unat m" "unat n" 256]
      by (auto simp: place_eq_iff word_less_nat_alt dest: dvd_imp_le)
    with that xm s1 show ?thesis
      by (auto simp: cell_poke ok_poke in_F place_neq_0)
  qed
  have frame: "cell ?s' l = cell s l" if "l \<in> F" "l \<noteq> at k 0"
      "\<And>m. m = n \<or> c < m \<and> m < n \<and> unat n < unat m + 256 \<Longrightarrow> l \<noteq> place k m" for l
    using that s1(2,4) xm by (simp add: cell_poke ok_poke in_F)
  show thesis
    by (rule that [OF run]) (use s1(2) fill frame in \<open>simp_all add: cell_poke ok_poke in_F place_neq_0\<close>)
qed

lemma block_hash_run:
  assumes "ok s" and "cell s (at k 0) = ucast c" and "unat n < 2 ^ 64 - 256"
  shows "block_hash B H (bhs H k) n s =
    (Ok (if n < c \<and> unat c \<le> unat n + 256 then Some (cell s (place k n)) else None), s)"
proof -
  have "unat (n + 256) = unat n + 256"
    using assms(3) by (subst unat_add_lem [THEN iffD1]) simp_all
  then show ?thesis
    using assms(1,2)
    by (auto simp: run_simps block_hash_def ring_access word_less_nat_alt word_le_nat_alt)
qed

end

section \<open>The properties\<close>

text \<open>
  C21: after recording parent-chain block \<open>n\<close>, the next expected number is \<open>n + 1\<close> and the hash of \<open>n\<close> is the
  recorded one; a skipped block of the last 256 has the hash derived from the new block and its number, except the
  first skipped one, the expected number itself, which gets whatever hash its place held before; every block known
  before and still among the last 256 keeps its hash.
\<close>

theorem record_new_l1_block_window:
  assumes "state_ok E H (range (at k)) st" and "state_cell H st (at k 0) = ucast c" and "c \<le> n"
    and "unat n < 2 ^ 64 - 256"
  shows "\<exists>st'. record_new_l1_block (state_backend E H) H (bhs H k) n h v st = (Ok (), st') \<and>
           get_l1_block_number (state_backend E H) (bhs H k) st' = (Ok (n + 1), st') \<and>
           block_hash (state_backend E H) H (bhs H k) n st' = (Ok (Some h), st') \<and>
           (\<forall>m. c < m \<and> m < n \<and> unat n < unat m + 256 \<longrightarrow>
              block_hash (state_backend E H) H (bhs H k) m st' = (Ok (Some (fill_hash H h v m)), st')) \<and>
           (c < n \<and> unat n < unat c + 256 \<longrightarrow>
              block_hash (state_backend E H) H (bhs H k) c st' = (Ok (Some (state_cell H st (place k c))), st')) \<and>
           (\<forall>m. m < c \<and> unat n < unat m + 256 \<longrightarrow>
              block_hash (state_backend E H) H (bhs H k) m st' =
                (Ok (Some (state_cell H st (place k m))), st') \<and>
              block_hash (state_backend E H) H (bhs H k) m st = (Ok (Some (state_cell H st (place k m))), st))"
proof -
  obtain st' where st': "record_new_l1_block (state_backend E H) H (bhs H k) n h v st = (Ok (), st')"
      "state_ok E H (range (at k)) st'" "state_cell H st' (at k 0) = ucast (n + 1)"
      "state_cell H st' (place k n) = h"
      "\<And>m. c < m \<Longrightarrow> m < n \<Longrightarrow> unat n < unat m + 256 \<Longrightarrow> state_cell H st' (place k m) = fill_hash H h v m"
      "\<And>l. l \<in> range (at k) \<Longrightarrow> l \<noteq> at k 0 \<Longrightarrow>
         (\<And>m. m = n \<or> c < m \<and> m < n \<and> unat n < unat m + 256 \<Longrightarrow> l \<noteq> place k m) \<Longrightarrow>
         state_cell H st' l = state_cell H st l"
    using st.record_run [OF assms(1) subset_refl assms(2-4)] by blast
  have n1: "unat (n + 1) = unat n + 1"
    using assms(4) by (intro unat_plus_one) simp
  note hash = st.block_hash_run [OF st'(2,3)]
  have old: "state_cell H st' (place k m) = state_cell H st (place k m)"
    if m: "m \<le> c" "m < n" "unat n < unat m + 256" for m
  proof (rule st'(6))
    fix j assume "j = n \<or> c < j \<and> j < n \<and> unat n < unat j + 256"
    with m have "unat m < unat j" "unat j < unat m + 256"
      by (auto simp: word_less_nat_alt word_le_nat_alt)
    then show "place k m \<noteq> place k j"
      using mod_eq_dvd_iff_nat [of "unat m" "unat j" 256] by (auto simp: place_eq_iff dest: dvd_imp_le)
  qed (simp_all add: place_neq_0, simp add: place_def)
  have "get_l1_block_number (state_backend E H) (bhs H k) st' = (Ok (n + 1), st')"
    using st'(2,3) by (simp add: get_l1_block_number_def st.ring_access)
  moreover have "block_hash (state_backend E H) H (bhs H k) n st' = (Ok (Some h), st')"
    using hash [of n] assms(4) st'(4) n1 by (simp add: word_less_nat_alt)
  moreover have "block_hash (state_backend E H) H (bhs H k) m st' = (Ok (Some (fill_hash H h v m)), st')"
    if "c < m" "m < n" "unat n < unat m + 256" for m
    using that hash [of m] assms(4) st'(5) [OF that] n1 by (simp add: word_less_nat_alt)
  moreover have "block_hash (state_backend E H) H (bhs H k) m st' = (Ok (Some (state_cell H st (place k m))), st') \<and>
      block_hash (state_backend E H) H (bhs H k) m st = (Ok (Some (state_cell H st (place k m))), st)"
    if "m < c" "unat n < unat m + 256" for m
    using that hash [of m] st.block_hash_run [OF assms(1,2), of m] assms(3,4) old [of m] n1
    by (simp add: word_less_nat_alt word_le_nat_alt)
  moreover have "block_hash (state_backend E H) H (bhs H k) c st' = (Ok (Some (state_cell H st (place k c))), st')"
    if "c < n" "unat n < unat c + 256"
    using that hash [of c] assms(4) old [of c] n1 by (simp add: word_less_nat_alt)
  ultimately show ?thesis
    using st'(1) by blast
qed

lemma record_new_l1_block_window_witness:
  "\<exists>st'. record_new_l1_block (state_backend sample_revm sample_keccak) sample_keccak (bhs sample_keccak 7)
        9 77 8 (sample_state (\<lambda>_ _. 5)) = (Ok (), st') \<and>
      block_hash (state_backend sample_revm sample_keccak) sample_keccak (bhs sample_keccak 7) 9 st' =
        (Ok (Some 77), st') \<and>
      block_hash (state_backend sample_revm sample_keccak) sample_keccak (bhs sample_keccak 7) 7 st' =
        (Ok (Some (fill_hash sample_keccak 77 8 7)), st') \<and>
      block_hash (state_backend sample_revm sample_keccak) sample_keccak (bhs sample_keccak 7) 5 st' =
        (Ok (Some (state_cell sample_keccak (sample_state (\<lambda>_ _. 5)) (place 7 5))), st')"
proof -
  have "state_ok sample_revm sample_keccak (range (at 7)) (sample_state (\<lambda>_ _. 5))"
    by (rule state_ok_sample) auto
  moreover have "state_cell sample_keccak (sample_state (\<lambda>_ _. 5)) (at 7 0) = ucast (5 :: u64)"
    by (simp add: at_sample)
  ultimately obtain st' where "record_new_l1_block (state_backend sample_revm sample_keccak) sample_keccak
        (bhs sample_keccak 7) 9 77 8 (sample_state (\<lambda>_ _. 5)) = (Ok (), st')"
      "block_hash (state_backend sample_revm sample_keccak) sample_keccak (bhs sample_keccak 7) 9 st' =
        (Ok (Some 77), st')"
      "\<forall>m. 5 < m \<and> m < 9 \<and> unat (9 :: u64) < unat m + 256 \<longrightarrow>
         block_hash (state_backend sample_revm sample_keccak) sample_keccak (bhs sample_keccak 7) m st' =
           (Ok (Some (fill_hash sample_keccak 77 8 m)), st')"
      "block_hash (state_backend sample_revm sample_keccak) sample_keccak (bhs sample_keccak 7) 5 st' =
        (Ok (Some (state_cell sample_keccak (sample_state (\<lambda>_ _. 5)) (place 7 5))), st')"
    using record_new_l1_block_window [of sample_revm sample_keccak 7 "sample_state (\<lambda>_ _. 5)" 5 9 77 8]
    by auto
  then show ?thesis by auto
qed



end
