(* ===== verification/Merkle.thy ===== *)
theory Merkle
  imports Sample_Env
begin

text \<open>
  The Merkle accumulator of \<open>crates/arbos/src/merkle_accumulator/mod.rs\<close>, which commits to the
  messages sent to the parent chain: the roots of the complete subtrees of the leaves so far,
  kept in storage (\<open>MerkleAccumulator\<close>) or in a vector (\<open>InMemoryMerkleAccumulator\<close>).

  The reference is \<open>proot\<close>, the root of the tree of a given depth over a list of leaves, with
  zero for an empty subtree. The in-memory accumulator is shown to compute it, and the
  storage-backed one to agree with the in-memory one operation by operation.
\<close>

section \<open>Shared pieces\<close>

record merkle_tree_node_event =
  ev_level :: u64
  ev_num_leaves :: u64
  ev_hash :: u256

text \<open>The number of binary digits of a number; \<open>leading_zeros\<close> of a \<open>u64\<close>.\<close>

fun bit_length :: "nat \<Rightarrow> nat" where
  "bit_length n = (if n = 0 then 0 else Suc (bit_length (n div 2)))"

declare bit_length.simps [simp del]

definition leading_zeros :: "u64 \<Rightarrow> nat" where
  "leading_zeros w = 64 - bit_length (unat w)"

definition calc_num_partials :: "u64 \<Rightarrow> u64" where
  "calc_num_partials sz = (if sz = 0 then 0 else 64 - of_nat (leading_zeros sz))"

text \<open>\<open>combined\<close>: the hash of two hashes.\<close>

definition node :: "keccak \<Rightarrow> u256 \<Rightarrow> u256 \<Rightarrow> u256" where
  "node H a b = H (be_bytes 32 a @ be_bytes 32 b)"

text \<open>The inner loop of \<open>root\<close>, which need not end on arbitrary numbers (0 never grows).\<close>

partial_function (option) pad :: "keccak \<Rightarrow> u256 \<Rightarrow> u64 \<Rightarrow> u64 \<Rightarrow> (u256 \<times> u64) option" where
  "pad H current capacity_in_hash capacity =
     (if capacity_in_hash < capacity
      then pad H (node H current 0) (capacity_in_hash * 2) capacity
      else Some (current, capacity_in_hash))"

text \<open>One round of the loop of \<open>root\<close>: \<open>hash_so_far\<close>, \<open>capacity_in_hash\<close> and \<open>capacity\<close>.\<close>

type_synonym root_vars = "u256 option \<times> u64 \<times> u64"

definition root_step :: "keccak \<Rightarrow> u256 \<Rightarrow> root_vars \<Rightarrow> root_vars option" where
  "root_step H partial = (\<lambda>(hash_so_far, capacity_in_hash, capacity).
     if partial \<noteq> 0 then
       (case hash_so_far of
          Some current \<Rightarrow>
            Option.bind (pad H current capacity_in_hash capacity) (\<lambda>(current, _).
            Some (Some (node H partial current), 2 * capacity, capacity * 2))
        | None \<Rightarrow> Some (Some partial, capacity, capacity * 2))
     else Some (hash_so_far, capacity_in_hash, capacity * 2))"

definition root_result :: "root_vars option \<Rightarrow> u256 option" where
  "root_result = map_option (\<lambda>(hash_so_far, _, _). case hash_so_far of Some h \<Rightarrow> h | None \<Rightarrow> 0)"

section \<open>The in-memory accumulator\<close>

record mem_merkle =
  mm_size :: u64
  mm_partials :: "u256 list"

definition mem_new :: mem_merkle where
  "mem_new = \<lparr>mm_size = 0, mm_partials = []\<rparr>"

definition from_partials :: "u256 list \<Rightarrow> mem_merkle" where
  "from_partials partials =
     \<lparr>mm_size = fst (foldl (\<lambda>(size, level_size) p.
          (if p \<noteq> 0 then size + level_size else size, level_size * 2)) (0, 1) partials),
      mm_partials = partials\<rparr>"

definition get_partial :: "mem_merkle \<Rightarrow> u64 \<Rightarrow> u256" where
  "get_partial m level =
     (if unat level < length (mm_partials m) then mm_partials m ! unat level else 0)"

definition set_partial :: "mem_merkle \<Rightarrow> u64 \<Rightarrow> u256 \<Rightarrow> mem_merkle" where
  "set_partial m level val =
     (let idx = unat level; ps = mm_partials m;
          ps = (if length ps \<le> idx then ps @ replicate (idx + 1 - length ps) 0 else ps)
      in m\<lparr>mm_partials := ps[idx := val]\<rparr>)"

lemma level_decreases: "l \<noteq> (n :: u64) \<Longrightarrow> unat (n - (l + 1)) < unat (n - l)"
proof -
  assume "l \<noteq> n"
  then have "n - l \<noteq> 0" by simp
  moreover have "n - (l + 1) = (n - l) - 1" by simp
  ultimately show ?thesis
    by (metis diff_less less_numeral_extra(1) unat_gt_0 unat_minus_one)
qed

function mem_append_loop :: "keccak \<Rightarrow> u64 \<Rightarrow> u64 \<Rightarrow> mem_merkle \<Rightarrow> u64 \<Rightarrow> u256 \<Rightarrow> merkle_tree_node_event list
    \<Rightarrow> merkle_tree_node_event list \<times> mem_merkle" where
  "mem_append_loop H current_size new_size m level so_far events =
     (if level = calc_num_partials current_size then (events, set_partial m level so_far)
      else let this_level = get_partial m level in
        if this_level = 0 then (events, set_partial m level so_far)
        else let so_far = node H this_level so_far; m = set_partial m level 0; level = level + 1 in
          mem_append_loop H current_size new_size m level so_far
            (events @ [\<lparr>ev_level = level, ev_num_leaves = new_size - 1, ev_hash = so_far\<rparr>]))"
  by pat_completeness auto

termination
  by (relation "measure (\<lambda>(H, cs, ns, m, level, h, evs). unat (calc_num_partials cs - level))")
    (simp_all add: level_decreases)

declare mem_append_loop.simps [simp del]

definition mem_append :: "keccak \<Rightarrow> mem_merkle \<Rightarrow> u256 \<Rightarrow> merkle_tree_node_event list \<times> mem_merkle" where
  "mem_append H m item_hash =
     (let current_size = mm_size m; new_size = current_size + 1
      in mem_append_loop H current_size new_size (m\<lparr>mm_size := new_size\<rparr>) 0 (H (be_bytes 32 item_hash)) [])"

definition mem_root :: "keccak \<Rightarrow> mem_merkle \<Rightarrow> u256 option" where
  "mem_root H m =
     (if mm_size m = 0 then Some 0 else
      root_result (fold (\<lambda>level acc. Option.bind acc (root_step H (get_partial m level)))
        (u64_range 0 (calc_num_partials (mm_size m))) (Some (None, 0, 1))))"

definition mem_get_partials :: "mem_merkle \<Rightarrow> u256 list" where
  "mem_get_partials m = map (get_partial m) (u64_range 0 (calc_num_partials (mm_size m)))"

section \<open>The storage-backed accumulator\<close>

record merkle_accumulator =
  ma_backing :: storage_handle
  ma_size :: backed

definition open_merkle_accumulator :: "keccak \<Rightarrow> storage_handle \<Rightarrow> merkle_accumulator" where
  "open_merkle_accumulator H sto = \<lparr>ma_backing = sto, ma_size = backed_new H (base_key sto) 0\<rparr>"

definition partial_slot :: "keccak \<Rightarrow> merkle_accumulator \<Rightarrow> u64 \<Rightarrow> u256" where
  "partial_slot H self level = new_slot H (ma_backing self) (2 + level)"

definition read_partial ::
  "'s backend \<Rightarrow> keccak \<Rightarrow> merkle_accumulator \<Rightarrow> u64 \<Rightarrow> ('s, u256, storage_error) comp" where
  "read_partial B H self level =
     sload_system B (sto_account (ma_backing self)) (partial_slot H self level)"

definition write_partial ::
  "'s backend \<Rightarrow> keccak \<Rightarrow> merkle_accumulator \<Rightarrow> u64 \<Rightarrow> u256 \<Rightarrow> ('s, unit, storage_error) comp" where
  "write_partial B H self level val =
     sstore B (sto_account (ma_backing self)) (partial_slot H self level) val"

function append_loop :: "'s backend \<Rightarrow> keccak \<Rightarrow> merkle_accumulator \<Rightarrow> u64 \<Rightarrow> u64 \<Rightarrow> u64 \<Rightarrow> u256
    \<Rightarrow> merkle_tree_node_event list \<Rightarrow> ('s, merkle_tree_node_event list, storage_error) comp" where
  "append_loop B H self current_size new_size level so_far events =
     (if level = calc_num_partials current_size then
        bnd (write_partial B H self level so_far) (\<lambda>_. ret events)
      else
        bnd (read_partial B H self level) (\<lambda>this_level.
        if this_level = 0 then bnd (write_partial B H self level so_far) (\<lambda>_. ret events)
        else let so_far = node H this_level so_far in
          bnd (write_partial B H self level 0) (\<lambda>_.
          let level = level + 1 in
          append_loop B H self current_size new_size level so_far
            (events @ [\<lparr>ev_level = level, ev_num_leaves = new_size - 1, ev_hash = so_far\<rparr>]))))"
  by pat_completeness auto

termination
  by (relation "measure (\<lambda>(B, H, self, cs, ns, level, h, evs). unat (calc_num_partials cs - level))")
    (simp_all add: level_decreases)

declare append_loop.simps [simp del]

definition merkle_append :: "'s backend \<Rightarrow> keccak \<Rightarrow> merkle_accumulator \<Rightarrow> u256
    \<Rightarrow> ('s, merkle_tree_node_event list, storage_error) comp" where
  "merkle_append B H self item_hash =
     bnd (uint64_get B (ma_size self)) (\<lambda>current_size.
     let new_size = current_size + 1 in
     bnd (uint64_set B (ma_size self) new_size) (\<lambda>_.
     append_loop B H self current_size new_size 0 (H (be_bytes 32 item_hash)) []))"

definition merkle_size :: "'s backend \<Rightarrow> merkle_accumulator \<Rightarrow> ('s, u64, storage_error) comp" where
  "merkle_size B self = uint64_get B (ma_size self)"

definition partial_at ::
  "'s backend \<Rightarrow> keccak \<Rightarrow> merkle_accumulator \<Rightarrow> u64 \<Rightarrow> ('s, u256, storage_error) comp" where
  "partial_at B H self level = read_partial B H self level"

text \<open>\<open>None\<close> would be a run of the inner loop that does not end.\<close>

definition merkle_root ::
  "'s backend \<Rightarrow> keccak \<Rightarrow> merkle_accumulator \<Rightarrow> ('s, u256 option, storage_error) comp" where
  "merkle_root B H self =
     bnd (uint64_get B (ma_size self)) (\<lambda>size.
     if size = 0 then ret (Some 0) else
     bnd (fold_each (u64_range 0 (calc_num_partials size)) (\<lambda>level acc.
        bnd (read_partial B H self level) (\<lambda>partial.
        ret (Option.bind acc (root_step H partial)))) (Some (None, 0, 1))) (\<lambda>acc.
     ret (root_result acc)))"

definition merkle_get_partials ::
  "'s backend \<Rightarrow> keccak \<Rightarrow> merkle_accumulator \<Rightarrow> ('s, u256 list, storage_error) comp" where
  "merkle_get_partials B H self =
     bnd (uint64_get B (ma_size self)) (\<lambda>size.
     fold_each (u64_range 0 (calc_num_partials size)) (\<lambda>i partials.
        bnd (read_partial B H self i) (\<lambda>p. ret (partials @ [p]))) [])"

definition state_for_export :: "'s backend \<Rightarrow> keccak \<Rightarrow> merkle_accumulator
    \<Rightarrow> ('s, u64 \<times> u256 option \<times> u256 list, storage_error) comp" where
  "state_for_export B H self =
     bnd (merkle_root B H self) (\<lambda>root.
     bnd (uint64_get B (ma_size self)) (\<lambda>size.
     bnd (merkle_get_partials B H self) (\<lambda>partials.
     ret (size, root, partials))))"

section \<open>The reference\<close>

text \<open>The tree of depth \<open>d\<close> over the leaves, an empty subtree counting as zero.\<close>

fun proot :: "keccak \<Rightarrow> nat \<Rightarrow> u256 list \<Rightarrow> u256" where
  "proot H d [] = 0"
| "proot H 0 (x # xs) = x"
| "proot H (Suc d) (x # xs) = node H (proot H d (take (2 ^ d) (x # xs))) (proot H d (drop (2 ^ d) (x # xs)))"

text \<open>The depth of the smallest tree with room for \<open>n\<close> leaves.\<close>

definition depth :: "nat \<Rightarrow> nat" where
  "depth n = bit_length (n - 1)"

text \<open>The partial of a level: the root of the complete subtree that ends the leaves up to the
  higher levels, when the binary digit of the number of leaves is set.\<close>

definition part :: "keccak \<Rightarrow> u256 list \<Rightarrow> nat \<Rightarrow> u256" where
  "part H ls i =
     (if bit (length ls) i
      then proot H i (take (2 ^ i) (drop (length ls div 2 ^ Suc i * 2 ^ Suc i) ls)) else 0)"

definition leaf :: "keccak \<Rightarrow> u256 \<Rightarrow> u256" where
  "leaf H item = H (be_bytes 32 item)"

text \<open>No hash of one or two words is zero.\<close>

definition nonzero_hash :: "keccak \<Rightarrow> bool" where
  "nonzero_hash H \<longleftrightarrow> (\<forall>bs. length bs = 32 \<or> length bs = 64 \<longrightarrow> H bs \<noteq> 0)"

definition mm_inv :: "keccak \<Rightarrow> mem_merkle \<Rightarrow> u256 list \<Rightarrow> bool" where
  "mm_inv H m ls \<longleftrightarrow> length ls < 2 ^ 63 \<and> mm_size m = of_nat (length ls) \<and>
     (\<forall>i < 64. get_partial m (of_nat i) = part H ls i)"

section \<open>Binary digits\<close>

lemma bit_length_le_iff: "bit_length n \<le> l \<longleftrightarrow> n < 2 ^ l"
proof (induction n arbitrary: l rule: bit_length.induct)
  case (1 n)
  show ?case
  proof (cases "n = 0")
    case True
    then show ?thesis by (simp add: bit_length.simps)
  next
    case False
    then have bl: "bit_length n = Suc (bit_length (n div 2))" by (simp add: bit_length.simps)
    show ?thesis
    proof (cases l)
      case 0
      with False bl show ?thesis by simp
    next
      case (Suc l')
      have "n div 2 < 2 ^ l' \<longleftrightarrow> n < 2 ^ l' * 2"
        by (simp add: div_less_iff_less_mult)
      with Suc bl 1 [OF False, of l'] show ?thesis by (simp add: mult.commute)
    qed
  qed
qed

lemma less_bit_length: "n < 2 ^ bit_length n"
  using bit_length_le_iff [of n "bit_length n"] by simp

lemma bit_length_eqI: "2 ^ l \<le> n \<Longrightarrow> n < 2 ^ Suc l \<Longrightarrow> bit_length n = Suc l"
  using bit_length_le_iff [of n l] bit_length_le_iff [of n "Suc l"] by simp

lemma calc_num_partials_of_nat:
  assumes "n < 2 ^ 64"
  shows "calc_num_partials (of_nat n) = of_nat (bit_length n)"
proof (cases "n = 0")
  case True
  then show ?thesis by (simp add: calc_num_partials_def bit_length.simps)
next
  case False
  have "bit_length n \<le> 64" using assms by (simp add: bit_length_le_iff)
  with False assms show ?thesis
    by (simp add: calc_num_partials_def leading_zeros_def counter_simps of_nat_diff)
qed

lemma depth_power: "depth (2 ^ l) = l"
proof (cases l)
  case 0
  then show ?thesis by (simp add: depth_def bit_length.simps)
next
  case (Suc l')
  have "bit_length (2 ^ Suc l' - 1) = Suc l'"
    by (rule bit_length_eqI) simp_all
  with Suc show ?thesis by (simp add: depth_def)
qed

lemma depth_above_power: "0 < r \<Longrightarrow> r \<le> 2 ^ l \<Longrightarrow> depth (2 ^ l + r) = Suc l"
  unfolding depth_def by (rule bit_length_eqI) simp_all

lemma le_power_depth: "n \<le> 2 ^ depth n"
  using less_bit_length [of "n - 1"] by (cases n) (simp_all add: depth_def)

lemma depth_le: "n \<le> 2 ^ l \<Longrightarrow> depth n \<le> l"
  by (cases n) (simp_all add: depth_def bit_length_le_iff)

text \<open>Counting up by one: the low ones become zeros and the first zero becomes a one.\<close>

lemma carry:
  fixes n :: nat
  assumes "n mod 2 ^ l = 2 ^ l - 1" and "\<not> bit n l"
  obtains q where "n = q * 2 ^ Suc l + 2 ^ l - 1" and "n + 1 = (2 * q + 1) * 2 ^ l"
proof -
  have "even (n div 2 ^ l)" using assms(2) by (simp add: bit_iff_odd)
  then obtain q where q: "n div 2 ^ l = 2 * q" by blast
  have "n = n div 2 ^ l * 2 ^ l + n mod 2 ^ l" by (simp only: div_mult_mod_eq)
  then have "n = 2 * q * 2 ^ l + (2 ^ l - 1)" using q assms(1) by simp
  then show thesis
    by (intro that [of q]) (simp_all add: algebra_simps)
qed

lemma div_power_above: "l < i \<Longrightarrow> r < 2 ^ Suc l \<Longrightarrow> (q * 2 ^ Suc l + r) div 2 ^ i = q div 2 ^ (i - Suc l)"
  for q r :: nat
proof -
  assume "l < i" and r: "r < 2 ^ Suc l"
  then have "(2 :: nat) ^ i = 2 ^ Suc l * 2 ^ (i - Suc l)"
    by (simp flip: power_add del: power_Suc)
  then have "(q * 2 ^ Suc l + r) div 2 ^ i = (q * 2 ^ Suc l + r) div 2 ^ Suc l div 2 ^ (i - Suc l)"
    by (simp only: div_mult2_eq)
  also have "(q * 2 ^ Suc l + r) div 2 ^ Suc l = q"
    using r by (rule mix_div)
  finally show ?thesis .
qed

lemma bit_block: "bit n i \<Longrightarrow> n div 2 ^ Suc i * 2 ^ Suc i + 2 ^ i \<le> n"
  for n :: nat
proof -
  assume "bit n i"
  then have "odd (n div 2 ^ i)" by (simp add: bit_iff_odd)
  then obtain q where q: "n div 2 ^ i = 2 * q + 1" by (rule oddE)
  have "n div 2 ^ Suc i = n div 2 ^ i div 2"
    by (simp only: power_Suc2 div_mult2_eq)
  then have "n div 2 ^ Suc i = q" using q by simp
  moreover have "(2 * q + 1) * 2 ^ i \<le> n"
    using q by (metis div_times_less_eq_dividend)
  ultimately show ?thesis by (simp add: algebra_simps)
qed

section \<open>The reference tree\<close>

lemma proot_nonempty:
  "ls \<noteq> [] \<Longrightarrow> proot H (Suc d) ls = node H (proot H d (take (2 ^ d) ls)) (proot H d (drop (2 ^ d) ls))"
  by (cases ls) simp_all

lemma proot_nonzero:
  assumes "nonzero_hash H" and "ls \<noteq> []" and "0 \<notin> set ls"
  shows "proot H d ls \<noteq> 0"
  using assms by (cases ls; cases d) (auto simp: node_def nonzero_hash_def)

lemma proot_pad: "ls \<noteq> [] \<Longrightarrow> length ls \<le> 2 ^ d \<Longrightarrow> proot H (Suc d) ls = node H (proot H d ls) 0"
  by (simp add: proot_nonempty)

lemma part_append:
  assumes "length ls mod 2 ^ l = 2 ^ l - 1" and "\<not> bit (length ls) l"
  shows "i < l \<Longrightarrow> part H (ls @ [x]) i = 0"
    and "part H (ls @ [x]) l = proot H l (drop (length ls + 1 - 2 ^ l) (ls @ [x]))"
    and "l < i \<Longrightarrow> part H (ls @ [x]) i = part H ls i"
proof -
  let ?n = "length ls"
  obtain q where q: "?n = q * 2 ^ Suc l + 2 ^ l - 1" "?n + 1 = (2 * q + 1) * 2 ^ l"
    using carry [OF assms] .
  have q': "?n = q * 2 ^ Suc l + (2 ^ l - 1)" "?n + 1 = q * 2 ^ Suc l + 2 ^ l"
    using q by (simp_all add: algebra_simps)
  show "part H (ls @ [x]) i = 0" if "i < l"
  proof -
    have "(2 :: nat) ^ l = 2 ^ i * (2 * 2 ^ (l - Suc i))"
      using that by (simp flip: power_add power_Suc del: power_Suc)
    then have "(?n + 1) div 2 ^ i = (2 * q + 1) * (2 * 2 ^ (l - Suc i))"
      using q(2) by (simp add: mult.left_commute)
    then show ?thesis by (simp add: part_def bit_iff_odd)
  qed
  have div: "(?n + 1) div 2 ^ Suc l = q"
    unfolding q'(2) by (rule mix_div) simp
  have "bit (?n + 1) l"
    unfolding bit_iff_odd q(2) by simp
  then show "part H (ls @ [x]) l = proot H l (drop (?n + 1 - 2 ^ l) (ls @ [x]))"
    using div q'(2) by (simp add: part_def)
  show "part H (ls @ [x]) i = part H ls i" if "l < i"
  proof -
    have low: "(2 :: nat) ^ l - 1 < 2 ^ Suc l" "(2 :: nat) ^ l < 2 ^ Suc l"
      by (simp_all add: less_imp_diff_less)
    have same: "(?n + 1) div 2 ^ j = ?n div 2 ^ j" if "l < j" for j
      using div_power_above [OF that low(1), of q] div_power_above [OF that low(2), of q]
      by (simp only: q'(2)) (simp only: q'(1))
    have "bit (?n + 1) i \<longleftrightarrow> bit ?n i"
      unfolding bit_iff_odd same [OF that] ..
    moreover have "take (2 ^ i) (drop (?n div 2 ^ Suc i * 2 ^ Suc i) (ls @ [x])) =
        take (2 ^ i) (drop (?n div 2 ^ Suc i * 2 ^ Suc i) ls)" if "bit ?n i"
      using bit_block [OF that] by simp
    moreover have "(?n + 1) div 2 ^ Suc i = ?n div 2 ^ Suc i"
      using that by (intro same) simp
    ultimately show ?thesis
      by (simp add: part_def)
  qed
qed

section \<open>The in-memory accumulator computes the reference\<close>

lemma get_set_partial:
  "get_partial (set_partial m l v) j = (if j = l then v else get_partial m j)"
  by (auto simp: get_partial_def set_partial_def Let_def nth_append word_unat_eq_iff)

lemma mm_size_set_partial [simp]: "mm_size (set_partial m l v) = mm_size m"
  by (simp add: set_partial_def Let_def)

lemma part_nonzero_iff:
  assumes "nonzero_hash H" and "0 \<notin> set ls"
  shows "part H ls i \<noteq> 0 \<longleftrightarrow> bit (length ls) i"
proof -
  have "take (2 ^ i) (drop (length ls div 2 ^ Suc i * 2 ^ Suc i) ls) \<noteq> []" if "bit (length ls) i"
  proof -
    have "length ls div 2 ^ Suc i * 2 ^ Suc i < length ls div 2 ^ Suc i * 2 ^ Suc i + 2 ^ i" by simp
    also have "\<dots> \<le> length ls" by (rule bit_block [OF that])
    finally show ?thesis by (simp del: power_Suc)
  qed
  moreover have "0 \<notin> set (take (2 ^ i) (drop (length ls div 2 ^ Suc i * 2 ^ Suc i) ls))"
    using assms(2) by (meson in_set_dropD in_set_takeD)
  ultimately show ?thesis
    using proot_nonzero [OF assms(1)] by (auto simp: part_def)
qed

text \<open>One round of the carry: a full block of the next level.\<close>

lemma full_block:
  assumes "length ls mod 2 ^ l = 2 ^ l - 1" and "bit (length ls) l"
  shows "length ls mod 2 ^ Suc l = 2 ^ Suc l - 1"
    and "node H (part H ls l) (proot H l (drop (length ls + 1 - 2 ^ l) (ls @ [x]))) =
      proot H (Suc l) (drop (length ls + 1 - 2 ^ Suc l) (ls @ [x]))"
proof -
  let ?n = "length ls"
  obtain q where "?n div 2 ^ l = 2 * q + 1"
    using assms(2) unfolding bit_iff_odd by (rule oddE)
  moreover have "?n = ?n div 2 ^ l * 2 ^ l + ?n mod 2 ^ l" by (simp only: div_mult_mod_eq)
  ultimately have "?n = (2 * q + 1) * 2 ^ l + (2 ^ l - 1)" using assms(1) by simp
  then have n: "?n = q * 2 ^ Suc l + (2 ^ Suc l - 1)" "?n + 1 = q * 2 ^ Suc l + 2 ^ Suc l"
    by (simp_all add: algebra_simps)
  have q: "?n div 2 ^ Suc l = q"
    unfolding n(1) by (rule mix_div) simp
  show "?n mod 2 ^ Suc l = 2 ^ Suc l - 1"
    unfolding n(1) by (rule mix_mod) simp
  let ?b = "drop (?n + 1 - 2 ^ Suc l) (ls @ [x])"
  have "?n + 1 - 2 ^ Suc l = q * 2 ^ Suc l" using n(2) by simp
  moreover have "q * 2 ^ Suc l + 2 ^ l \<le> ?n"
    using bit_block [OF assms(2)] q by simp
  ultimately have "take (2 ^ l) ?b = take (2 ^ l) (drop (q * 2 ^ Suc l) ls)"
    by simp
  moreover have "2 ^ l + (?n + 1 - 2 ^ Suc l) = ?n + 1 - 2 ^ l"
    using n(2) by (simp add: algebra_simps)
  then have "drop (2 ^ l) ?b = drop (?n + 1 - 2 ^ l) (ls @ [x])"
    by (simp only: drop_drop)
  moreover have "length ?b = 2 ^ Suc l" using n(2) by (simp del: power_Suc)
  then have "?b \<noteq> []" by (auto simp del: drop_append)
  ultimately show "node H (part H ls l) (proot H l (drop (?n + 1 - 2 ^ l) (ls @ [x]))) = proot H (Suc l) ?b"
    using assms(2) q by (simp add: proot_nonempty part_def del: power_Suc)
qed

lemma mem_append_loop_inv:
  assumes nz: "nonzero_hash H" "0 \<notin> set ls"
    and "length ls + 1 < 2 ^ 63" and "mm_size m = of_nat (length ls + 1)"
    and "length ls mod 2 ^ l = 2 ^ l - 1" and "l \<le> bit_length (length ls)"
    and "\<And>i. i < l \<Longrightarrow> get_partial m (of_nat i) = 0"
    and "\<And>i. l \<le> i \<Longrightarrow> i < 64 \<Longrightarrow> get_partial m (of_nat i) = part H ls i"
    and "so_far = proot H l (drop (length ls + 1 - 2 ^ l) (ls @ [x]))"
  shows "mm_inv H (snd (mem_append_loop H (of_nat (length ls)) ns m (of_nat l) so_far evs)) (ls @ [x])"
  using assms(4-)
proof (induction "bit_length (length ls) - l" arbitrary: l m so_far evs rule: less_induct)
  case less
  let ?n = "length ls"
  note [simp del] = of_nat_Suc of_nat_add
  have bl: "bit_length ?n \<le> 63" using assms(3) by (simp add: bit_length_le_iff)
  then have l: "l < 64" using less.prems(3) by simp
  have num: "calc_num_partials (of_nat ?n) = of_nat (bit_length ?n)"
    using assms(3) by (intro calc_num_partials_of_nat) simp
  have eq: "(of_nat l :: u64) = of_nat (bit_length ?n) \<longleftrightarrow> l = bit_length ?n"
    using l bl by (subst of_nat_u64_eq_iff) auto
  have final: "mm_inv H (set_partial m (of_nat l) so_far) (ls @ [x])" if "\<not> bit ?n l"
  proof -
    have "get_partial (set_partial m (of_nat l) so_far) (of_nat i) = part H (ls @ [x]) i" if "i < 64" for i
    proof -
      have "(of_nat i :: u64) = of_nat l \<longleftrightarrow> i = l"
        using that l by (subst of_nat_u64_eq_iff) auto
      then show ?thesis
        using part_append [OF less.prems(2) \<open>\<not> bit ?n l\<close>] less.prems(4,5,6) that
        by (cases i l rule: linorder_cases) (simp_all add: get_set_partial)
    qed
    then show ?thesis
      using assms(3) less.prems(1) by (simp add: mm_inv_def)
  qed
  have this_level: "get_partial m (of_nat l) = part H ls l"
    using less.prems(5) l by simp
  show ?case
  proof (cases "bit ?n l")
    case False
    then have "part H ls l = 0" by (simp add: part_def)
    then have "mem_append_loop H (of_nat ?n) ns m (of_nat l) so_far evs =
        (evs, set_partial m (of_nat l) so_far)"
      using this_level by (subst mem_append_loop.simps) (simp add: Let_def)
    with final [OF False] show ?thesis by simp
  next
    case True
    have nonzero: "part H ls l \<noteq> 0" using part_nonzero_iff [OF nz] True by simp
    have "l < bit_length ?n"
    proof (rule ccontr)
      assume "\<not> l < bit_length ?n"
      then have "?n < 2 ^ l" by (simp flip: bit_length_le_iff)
      then have "?n div 2 ^ l = 0" by simp
      with True show False by (simp add: bit_iff_odd)
    qed
    then have step: "mem_append_loop H (of_nat ?n) ns m (of_nat l) so_far evs =
        mem_append_loop H (of_nat ?n) ns (set_partial m (of_nat l) 0) (of_nat (Suc l))
          (node H (part H ls l) so_far)
          (evs @ [\<lparr>ev_level = of_nat (Suc l), ev_num_leaves = ns - 1, ev_hash = node H (part H ls l) so_far\<rparr>])"
      using nonzero eq num this_level
      by (subst mem_append_loop.simps) (simp add: Let_def of_nat_Suc add.commute)
    show ?thesis
      unfolding step
    proof (rule less.hyps)
      show "bit_length ?n - Suc l < bit_length ?n - l" and "Suc l \<le> bit_length ?n"
        using \<open>l < bit_length ?n\<close> by simp_all
      show "?n mod 2 ^ Suc l = 2 ^ Suc l - 1"
        using full_block(1) [OF less.prems(2) True] .
      show "node H (part H ls l) so_far = proot H (Suc l) (drop (?n + 1 - 2 ^ Suc l) (ls @ [x]))"
        unfolding less.prems(6) by (rule full_block(2) [OF less.prems(2) True])
      show "get_partial (set_partial m (of_nat l) 0) (of_nat i) = 0" if "i < Suc l" for i
        using that less.prems(4) by (auto simp: get_set_partial less_Suc_eq)
      show "get_partial (set_partial m (of_nat l) 0) (of_nat i) = part H ls i" if "Suc l \<le> i" "i < 64" for i
        using that less.prems(5) l of_nat_u64_eq_iff [of i l] by (simp add: get_set_partial)
    qed (simp add: less.prems(1))
  qed
qed

lemma mem_append_inv:
  assumes "nonzero_hash H" and "0 \<notin> set ls" and "mm_inv H m ls" and "length ls + 1 < 2 ^ 63"
  shows "mm_inv H (snd (mem_append H m item)) (ls @ [leaf H item])"
proof -
  have "mm_inv H (snd (mem_append_loop H (of_nat (length ls)) (of_nat (length ls) + 1)
      (m\<lparr>mm_size := of_nat (length ls) + 1\<rparr>) (of_nat 0) (leaf H item) [])) (ls @ [leaf H item])"
    by (rule mem_append_loop_inv) (use assms in \<open>auto simp: mm_inv_def get_partial_def leaf_def\<close>)
  with assms(3) show ?thesis
    by (simp add: mem_append_def mm_inv_def leaf_def Let_def)
qed

lemma mm_inv_new: "mm_inv H mem_new []"
  by (simp add: mm_inv_def mem_new_def get_partial_def part_def)

text \<open>The root: the partials from the lowest level up, the smaller side padded with zeros.\<close>

lemma unat_power_u64: "d < 64 \<Longrightarrow> unat ((2 :: u64) ^ d) = 2 ^ d"
proof -
  assume "d < 64"
  then have "(2 :: nat) ^ d < 2 ^ 64" by (intro power_strict_increasing) simp_all
  then show ?thesis using unat_of_nat_u64 [of "2 ^ d"] by simp
qed

lemma pad_proot:
  assumes "d \<le> l" and "l < 63" and "ls \<noteq> []" and "length ls \<le> 2 ^ d"
  shows "pad H (proot H d ls) (2 ^ d) (2 ^ l) = Some (proot H l ls, 2 ^ l)"
  using assms
proof (induction "l - d" arbitrary: d)
  case 0
  then show ?case by (subst pad.simps) simp
next
  case (Suc k)
  then have "(2 :: u64) ^ d < 2 ^ l"
    by (simp add: word_less_nat_alt unat_power_u64)
  moreover have "pad H (proot H (Suc d) ls) (2 ^ Suc d) (2 ^ l) = Some (proot H l ls, 2 ^ l)"
    using Suc.hyps(2) Suc.prems by (intro Suc.hyps(1)) simp_all
  ultimately show ?case
    using Suc.prems by (subst pad.simps) (simp add: proot_pad mult.commute)
qed

lemma mod_power_Suc: "n mod 2 ^ Suc l = (if bit n l then 2 ^ l else 0) + n mod 2 ^ l"
  for n :: nat
  using mod_mult2_eq [of n "2 ^ l" 2]
  by (simp add: bit_iff_odd mult.commute odd_iff_mod_2_eq_one even_iff_mod_2_eq_zero)

definition root_vars_at :: "keccak \<Rightarrow> u256 list \<Rightarrow> nat \<Rightarrow> root_vars" where
  "root_vars_at H ls l =
     (let n = length ls; r = n mod 2 ^ l in
      if r = 0 then (None, 0, 2 ^ l)
      else (Some (proot H (depth r) (drop (n - r) ls)), 2 ^ depth r, 2 ^ l))"

lemma root_step_at:
  assumes nz: "nonzero_hash H" "0 \<notin> set ls" and l: "l < 63"
  shows "root_step H (part H ls l) (root_vars_at H ls l) = Some (root_vars_at H ls (Suc l))"
proof (cases "bit (length ls) l")
  case False
  then have "length ls mod 2 ^ Suc l = length ls mod 2 ^ l" by (simp only: mod_power_Suc) simp
  with False show ?thesis
    by (simp add: root_step_def root_vars_at_def part_def Let_def del: power_Suc) (simp add: mult.commute)
next
  case True
  let ?n = "length ls" and ?r = "length ls mod 2 ^ l"
  have p: "part H ls l \<noteq> 0" using part_nonzero_iff [OF nz] True by simp
  have r': "?n mod 2 ^ Suc l = 2 ^ l + ?r" using True by (simp only: mod_power_Suc if_True)
  have start: "?n - (2 ^ l + ?r) = ?n div 2 ^ Suc l * 2 ^ Suc l"
    unfolding r' [symmetric] by (rule minus_mod_eq_div_mult)
  have le: "2 ^ l + ?r \<le> ?n" unfolding r' [symmetric] by simp
  let ?b = "drop (?n - (2 ^ l + ?r)) ls"
  have part: "part H ls l = proot H l (take (2 ^ l) ?b)"
    using True start by (simp add: part_def)
  have rest: "drop (2 ^ l) ?b = drop (?n - ?r) ls"
    using le by (simp add: drop_drop)
  have "length ?b = 2 ^ l + ?r" using le by simp
  then have nonempty: "?b \<noteq> []" by auto
  show ?thesis
  proof (cases "?r = 0")
    case True
    have "proot H l (take (2 ^ l) ?b) = proot H l ?b"
      using True le by (simp add: take_all)
    with True p part show ?thesis
      by (simp add: root_step_def root_vars_at_def r' depth_power Let_def mult.commute del: power_Suc)
        (simp add: mult.commute)
  next
    case False
    let ?tail = "drop (?n - ?r) ls"
    have len: "length ?tail = ?r" using le by simp
    then have tail: "?tail \<noteq> []" using False by (metis list.size(3))
    have "?r < 2 ^ l" by simp
    then have "depth ?r \<le> l" by (intro depth_le) simp
    then have "pad H (proot H (depth ?r) ?tail) (2 ^ depth ?r) (2 ^ l) = Some (proot H l ?tail, 2 ^ l)"
      using l tail len le_power_depth [of ?r] by (intro pad_proot) simp_all
    moreover have "node H (part H ls l) (proot H l ?tail) = proot H (Suc l) ?b"
      using part rest nonempty by (simp add: proot_nonempty)
    moreover have "depth (2 ^ l + ?r) = Suc l"
      using False \<open>?r < 2 ^ l\<close> by (intro depth_above_power) simp_all
    ultimately show ?thesis
      using False p
      by (simp add: root_step_def root_vars_at_def r' Let_def del: power_Suc) (simp add: mult.commute)
  qed
qed

lemma mem_root_correct:
  assumes nz: "nonzero_hash H" "0 \<notin> set ls" and inv: "mm_inv H m ls"
  shows "mem_root H m = Some (proot H (depth (length ls)) ls)"
proof (cases "ls = []")
  case True
  with inv show ?thesis by (simp add: mem_root_def mm_inv_def)
next
  case False
  let ?n = "length ls"
  have n: "?n < 2 ^ 63" and size: "mm_size m = of_nat ?n" using inv by (simp_all add: mm_inv_def)
  have bl: "bit_length ?n \<le> 63" using n by (simp add: bit_length_le_iff)
  have fold: "fold (\<lambda>level acc. Option.bind acc (root_step H (get_partial m level)))
      (map of_nat [0..<l]) (Some (None, 0, 1)) = Some (root_vars_at H ls l)" if "l \<le> bit_length ?n" for l
    using that
  proof (induction l)
    case 0
    then show ?case by (simp add: root_vars_at_def)
  next
    case (Suc l)
    then have l: "l < 63" using bl by simp
    have "get_partial m (of_nat l) = part H ls l" using inv l by (simp add: mm_inv_def)
    with Suc root_step_at [OF nz l] show ?case by simp
  qed
  have "calc_num_partials (mm_size m) = of_nat (bit_length ?n)"
    using n unfolding size by (intro calc_num_partials_of_nat) simp
  then have "u64_range 0 (calc_num_partials (mm_size m)) = map of_nat [0..<bit_length ?n]"
    using bl by (simp add: u64_range_def counter_simps)
  moreover have "?n mod 2 ^ bit_length ?n = ?n" by (simp add: less_bit_length)
  then have "root_vars_at H ls (bit_length ?n) =
      (Some (proot H (depth ?n) ls), 2 ^ depth ?n, 2 ^ bit_length ?n)"
    using False by (simp add: root_vars_at_def Let_def)
  moreover have "mm_size m \<noteq> 0" using size n False by (simp add: of_nat_u64_zero_iff)
  ultimately show ?thesis
    using fold [of "bit_length ?n"] by (simp add: mem_root_def root_result_def)
qed

text \<open>Exported partials restore the accumulator.\<close>

lemma mem_get_partials_inv:
  assumes "mm_inv H m ls"
  shows "mem_get_partials m = map (part H ls) [0..<bit_length (length ls)]"
proof -
  let ?n = "length ls"
  have n: "?n < 2 ^ 63" and size: "mm_size m = of_nat ?n" using assms by (simp_all add: mm_inv_def)
  have bl: "bit_length ?n \<le> 63" using n by (simp add: bit_length_le_iff)
  have "calc_num_partials (mm_size m) = of_nat (bit_length ?n)"
    using n unfolding size by (intro calc_num_partials_of_nat) simp
  then have "u64_range 0 (calc_num_partials (mm_size m)) = map of_nat [0..<bit_length ?n]"
    using bl by (simp add: u64_range_def counter_simps)
  then show ?thesis
    using assms bl by (simp add: mem_get_partials_def mm_inv_def)
qed

lemma from_partials_size:
  assumes "nonzero_hash H" and "0 \<notin> set ls"
  shows "foldl (\<lambda>(size, level_size) p. (if p \<noteq> 0 then size + level_size else size, level_size * 2)) (0, 1)
    (map (part H ls) [0..<l]) = (of_nat (length ls mod 2 ^ l) :: u64, 2 ^ l)"
proof (induction l)
  case 0
  then show ?case by simp
next
  case (Suc l)
  have "(of_nat (length ls mod 2 ^ Suc l) :: u64) =
      (if part H ls l \<noteq> 0 then of_nat (length ls mod 2 ^ l) + 2 ^ l else of_nat (length ls mod 2 ^ l))"
    unfolding part_nonzero_iff [OF assms] mod_power_Suc by simp
  with Suc show ?case by (simp add: mult.commute)
qed

lemma from_partials_inv:
  assumes nz: "nonzero_hash H" "0 \<notin> set ls" and inv: "mm_inv H m ls"
  shows "mm_inv H (from_partials (mem_get_partials m)) ls"
proof -
  let ?n = "length ls"
  have n: "?n < 2 ^ 63" using inv by (simp add: mm_inv_def)
  have bl: "bit_length ?n \<le> 63" using n by (simp add: bit_length_le_iff)
  note ps = mem_get_partials_inv [OF inv]
  have "?n mod 2 ^ bit_length ?n = ?n" by (simp add: less_bit_length)
  then have "mm_size (from_partials (mem_get_partials m)) = of_nat ?n"
    by (simp add: ps from_partials_def from_partials_size [OF nz])
  moreover have "get_partial (from_partials (mem_get_partials m)) (of_nat i) = part H ls i" if "i < 64" for i
  proof (cases "i < bit_length ?n")
    case True
    with that show ?thesis by (simp add: ps from_partials_def get_partial_def counter_simps)
  next
    case False
    then have "?n < 2 ^ i" by (simp flip: bit_length_le_iff)
    then have "\<not> bit ?n i" by (simp add: bit_iff_odd)
    with False that show ?thesis by (simp add: ps from_partials_def get_partial_def counter_simps part_def)
  qed
  ultimately show ?thesis using n by (simp add: mm_inv_def)
qed

section \<open>The storage-backed accumulator agrees with the in-memory one\<close>

abbreviation macc :: "keccak \<Rightarrow> u256 \<Rightarrow> merkle_accumulator" where
  "macc H k \<equiv> open_merkle_accumulator H (storage_new k)"

definition merkle_sim :: "(cell_id \<Rightarrow> u256) \<Rightarrow> u256 \<Rightarrow> mem_merkle \<Rightarrow> bool" where
  "merkle_sim c k m \<longleftrightarrow>
     c (at k 0) = ucast (mm_size m) \<and> (\<forall>i \<le> 64. c (at k (2 + i)) = get_partial m i)"

lemma calc_num_partials_le: "calc_num_partials n \<le> 64"
proof -
  have "bit_length (unat n) \<le> 64" using unat_bound [of n] by (simp add: bit_length_le_iff)
  then show ?thesis
    using calc_num_partials_of_nat [of "unat n"] unat_bound [of n]
    by (simp add: word_le_nat_alt counter_simps)
qed

lemma level_offset: "i \<le> 64 \<Longrightarrow> 2 + i \<noteq> (0 :: u64)"
proof -
  assume "i \<le> 64"
  then have "unat (2 + i) = 2 + unat i"
    by (subst unat_add_lem [THEN iffD1]) (simp_all add: word_le_nat_alt)
  then show ?thesis by (metis add_is_0 unat_0 zero_neq_numeral)
qed

context arb_store
begin

lemma merkle_access:
  assumes "ok s"
  shows "read_partial B H (macc H k) i s = (Ok (cell s (at k (2 + i))), s)"
    and "write_partial B H (macc H k) i v s = (Ok (), poke s (at k (2 + i)) v)"
    and "uint64_get B (ma_size (macc H k)) s = (Ok (narrow_or_zero (cell s (at k 0))), s)"
    and "uint64_set B (ma_size (macc H k)) w s = (Ok (), poke s (at k 0) (ucast w))"
  using assms
  by (simp_all add: read_partial_def write_partial_def partial_slot_def open_merkle_accumulator_def
      storage_new_def new_slot_slot store_simps at_def)

lemma merkle_sim_poke:
  assumes "ok s" and "range (at k) \<subseteq> F" and "merkle_sim (cell s) k m"
  shows "l \<le> 64 \<Longrightarrow> merkle_sim (cell (poke s (at k (2 + l)) v)) k (set_partial m l v)"
    and "merkle_sim (cell (poke s (at k 0) (ucast w))) k (m\<lparr>mm_size := w\<rparr>)"
proof -
  have in_F: "at k off \<in> F" for off using assms(2) by auto
  show "merkle_sim (cell (poke s (at k (2 + l)) v)) k (set_partial m l v)" if "l \<le> 64"
    using assms(1,3) in_F level_offset [OF that] by (simp add: merkle_sim_def cell_poke get_set_partial)
  show "merkle_sim (cell (poke s (at k 0) (ucast w))) k (m\<lparr>mm_size := w\<rparr>)"
    using assms(1,3) in_F level_offset by (simp add: merkle_sim_def cell_poke get_partial_def)
qed

lemma append_loop_sim:
  assumes "ok s" and F: "range (at k) \<subseteq> F" and "merkle_sim (cell s) k m" and "level \<le> calc_num_partials cs"
  shows "\<exists>s'. append_loop B H (macc H k) cs ns level h evs s =
      (Ok (fst (mem_append_loop H cs ns m level h evs)), s') \<and> ok s' \<and>
      merkle_sim (cell s') k (snd (mem_append_loop H cs ns m level h evs)) \<and>
      (\<forall>l \<in> F - range (at k). cell s' l = cell s l)"
  using assms(1,3,4)
proof (induction "unat (calc_num_partials cs - level)" arbitrary: s m level h evs rule: less_induct)
  case less
  have level: "level \<le> 64" using less.prems(3) calc_num_partials_le order_trans by blast
  have read: "cell s (at k (2 + level)) = get_partial m level"
    using less.prems(2) level by (simp add: merkle_sim_def)
  let ?done = "level = calc_num_partials cs \<or> get_partial m level = 0"
  show ?case
  proof (cases ?done)
    case True
    then have "mem_append_loop H cs ns m level h evs = (evs, set_partial m level h)"
      by (subst mem_append_loop.simps) (auto simp: Let_def)
    moreover have "append_loop B H (macc H k) cs ns level h evs s = (Ok evs, poke s (at k (2 + level)) h)"
      using True less.prems(1) read
      by (subst append_loop.simps) (auto simp: run_simps merkle_access)
    ultimately show ?thesis
      using merkle_sim_poke(1) [OF less.prems(1) F less.prems(2) level] less.prems(1)
        cell_poke_other [OF less.prems(1) F rangeI]
      by (simp add: ok_poke)
  next
    case False
    let ?s1 = "poke s (at k (2 + level)) 0" and ?m1 = "set_partial m level 0"
      and ?h = "node H (get_partial m level) h"
    let ?evs = "evs @ [\<lparr>ev_level = level + 1, ev_num_leaves = ns - 1, ev_hash = ?h\<rparr>]"
    have "level + 1 \<le> calc_num_partials cs"
      using False less.prems(3) by (intro inc_le) (simp add: order_less_le)
    moreover have "unat (calc_num_partials cs - (level + 1)) < unat (calc_num_partials cs - level)"
      using False by (intro level_decreases) simp
    ultimately obtain s' where s': "append_loop B H (macc H k) cs ns (level + 1) ?h ?evs ?s1 =
        (Ok (fst (mem_append_loop H cs ns ?m1 (level + 1) ?h ?evs)), s')" "ok s'"
        "merkle_sim (cell s') k (snd (mem_append_loop H cs ns ?m1 (level + 1) ?h ?evs))"
        "\<forall>l \<in> F - range (at k). cell s' l = cell ?s1 l"
      using less.hyps [OF _ ok_poke [OF less.prems(1)] merkle_sim_poke(1) [OF less.prems(1) F less.prems(2) level]]
      by blast
    moreover have "mem_append_loop H cs ns m level h evs = mem_append_loop H cs ns ?m1 (level + 1) ?h ?evs"
      using False by (subst mem_append_loop.simps) (simp add: Let_def)
    moreover have "append_loop B H (macc H k) cs ns level h evs s =
        append_loop B H (macc H k) cs ns (level + 1) ?h ?evs ?s1"
      using False less.prems(1) read by (subst append_loop.simps) (simp add: bnd_def merkle_access Let_def)
    ultimately show ?thesis
      using cell_poke_other [OF less.prems(1) F rangeI] by simp
  qed
qed

lemma merkle_append_sim:
  assumes "ok s" and F: "range (at k) \<subseteq> F" and sim: "merkle_sim (cell s) k m"
  obtains s' where "merkle_append B H (macc H k) item s = (Ok (fst (mem_append H m item)), s')" and "ok s'"
    and "merkle_sim (cell s') k (snd (mem_append H m item))"
    and "\<And>l. l \<in> F - range (at k) \<Longrightarrow> cell s' l = cell s l"
proof -
  let ?s1 = "poke s (at k 0) (ucast (mm_size m + 1))" and ?m1 = "m\<lparr>mm_size := mm_size m + 1\<rparr>"
  obtain s' where s': "append_loop B H (macc H k) (mm_size m) (mm_size m + 1) 0 (H (be_bytes 32 item)) [] ?s1 =
      (Ok (fst (mem_append H m item)), s')" "ok s'" "merkle_sim (cell s') k (snd (mem_append H m item))"
      "\<forall>l \<in> F - range (at k). cell s' l = cell ?s1 l"
    using append_loop_sim [OF ok_poke [OF assms(1)] F merkle_sim_poke(2) [OF assms(1) F sim],
        where level = 0 and cs = "mm_size m" and ns = "mm_size m + 1" and h = "H (be_bytes 32 item)" and evs = "[]"]
    by (auto simp: mem_append_def Let_def)
  have "merkle_append B H (macc H k) item s = (Ok (fst (mem_append H m item)), s')"
    using assms(1) sim s'(1) by (simp add: bnd_def merkle_append_def merkle_access merkle_sim_def Let_def)
  moreover have "cell s' l = cell s l" if "l \<in> F - range (at k)" for l
    using that s'(4) cell_poke_other [OF assms(1) F rangeI that] by simp
  ultimately show thesis
    using that s'(2,3) by blast
qed

lemma merkle_reads_sim:
  assumes "ok s" and sim: "merkle_sim (cell s) k m"
  shows "merkle_root B H (macc H k) s = (Ok (mem_root H m), s)"
    and "merkle_get_partials B H (macc H k) s = (Ok (mem_get_partials m), s)"
    and "merkle_size B (macc H k) s = (Ok (mm_size m), s)"
proof -
  let ?is = "u64_range 0 (calc_num_partials (mm_size m))"
  have size: "uint64_get B (ma_size (macc H k)) s = (Ok (mm_size m), s)"
    using assms by (simp add: merkle_access merkle_sim_def)
  then show "merkle_size B (macc H k) s = (Ok (mm_size m), s)" by (simp add: merkle_size_def)
  have "i \<le> 64" if "i \<in> set ?is" for i
  proof -
    from that obtain j where "i = of_nat j" "j < unat (calc_num_partials (mm_size m))"
      by (auto simp: u64_range_def)
    moreover from this(2) have "j < 64"
      using calc_num_partials_le [of "mm_size m"] by (simp add: word_le_nat_alt)
    ultimately show ?thesis by (simp add: word_le_nat_alt counter_simps)
  qed
  then have read: "read_partial B H (macc H k) i s = (Ok (get_partial m i), s)" if "i \<in> set ?is" for i
    using that assms by (simp add: merkle_access merkle_sim_def)
  have "fold_each is (\<lambda>level acc. bnd (read_partial B H (macc H k) level) (\<lambda>partial.
        ret (Option.bind acc (root_step H partial)))) acc s =
      (Ok (fold (\<lambda>level acc. Option.bind acc (root_step H (get_partial m level))) is acc), s)"
    if "set is \<subseteq> set ?is" for "is" acc
    using that by (induction "is" arbitrary: acc) (simp_all add: run_simps read)
  then show "merkle_root B H (macc H k) s = (Ok (mem_root H m), s)"
    by (simp add: bnd_def ret_run merkle_root_def mem_root_def size)
  have "fold_each is (\<lambda>i partials. bnd (read_partial B H (macc H k) i) (\<lambda>p. ret (partials @ [p]))) acc s =
      (Ok (acc @ map (get_partial m) is), s)" if "set is \<subseteq> set ?is" for "is" acc
    using that by (induction "is" arbitrary: acc) (simp_all add: run_simps read)
  then show "merkle_get_partials B H (macc H k) s = (Ok (mem_get_partials m), s)"
    by (simp add: bnd_def merkle_get_partials_def mem_get_partials_def size)
qed

lemma state_for_export_sim:
  assumes "ok s" and "merkle_sim (cell s) k m"
  shows "state_for_export B H (macc H k) s = (Ok (mm_size m, mem_root H m, mem_get_partials m), s)"
  using merkle_reads_sim [OF assms] by (simp add: state_for_export_def merkle_size_def bnd_def ret_run)

end

section \<open>The properties\<close>

text \<open>Appending a sequence of items, in memory and in storage.\<close>

definition mem_append_all :: "keccak \<Rightarrow> u256 list \<Rightarrow> mem_merkle \<Rightarrow> mem_merkle" where
  "mem_append_all H items m = fold (\<lambda>item m. snd (mem_append H m item)) items m"

definition merkle_append_all :: "'s backend \<Rightarrow> keccak \<Rightarrow> merkle_accumulator \<Rightarrow> u256 list
    \<Rightarrow> ('s, unit, storage_error) comp" where
  "merkle_append_all B H self items = for_each items (\<lambda>item. bnd (merkle_append B H self item) (\<lambda>_. ret ()))"

lemma mem_append_all_inv:
  assumes "nonzero_hash H" and "0 \<notin> set ls" and "mm_inv H m ls" and "length ls + length items < 2 ^ 63"
  shows "mm_inv H (mem_append_all H items m) (ls @ map (leaf H) items)"
  using assms(2-4)
proof (induction items arbitrary: m ls)
  case Nil
  then show ?case by (simp add: mem_append_all_def)
next
  case (Cons item items)
  have "leaf H item \<noteq> 0" using assms(1) by (simp add: leaf_def nonzero_hash_def)
  with Cons.IH [of "ls @ [leaf H item]" "snd (mem_append H m item)"] Cons.prems
    mem_append_inv [OF assms(1) Cons.prems(1,2), of item]
  show ?case by (simp add: mem_append_all_def)
qed

lemma merkle_append_all_sim:
  assumes "state_ok E H (F \<union> range (at k)) st" and "merkle_sim (state_cell H st) k m"
  shows "\<exists>st'. merkle_append_all (state_backend E H) H (macc H k) items st = (Ok (), st') \<and>
     state_ok E H (F \<union> range (at k)) st' \<and> merkle_sim (state_cell H st') k (mem_append_all H items m) \<and>
     (\<forall>l \<in> F - range (at k). state_cell H st' l = state_cell H st l)"
  using assms
proof (induction items arbitrary: st m)
  case Nil
  then show ?case by (simp add: merkle_append_all_def mem_append_all_def run_simps)
next
  case (Cons item items)
  obtain st1 where st1: "merkle_append (state_backend E H) H (macc H k) item st =
        (Ok (fst (mem_append H m item)), st1)" "state_ok E H (F \<union> range (at k)) st1"
      "merkle_sim (state_cell H st1) k (snd (mem_append H m item))"
      "\<And>l. l \<in> F \<union> range (at k) - range (at k) \<Longrightarrow> state_cell H st1 l = state_cell H st l"
    using st.merkle_append_sim [OF Cons.prems(1) Un_upper2 Cons.prems(2)] by blast
  with Cons.IH [OF st1(2,3)] show ?case
    by (auto simp: merkle_append_all_def mem_append_all_def run_simps)
qed

text \<open>
  C4: for a hash that is never zero, after any sequence of fewer than 2^63 items is appended to an empty storage-backed accumulator, its root is
  the root of the Merkle tree over the hashes of the items, the smallest binary tree with room for them in which an
  empty subtree is zero; its size is their number, the loops end, and no other cell of the footprint changes.
\<close>

theorem merkle_root_of_appends:
  assumes "state_ok E H (F \<union> range (at k)) st" and "merkle_sim (state_cell H st) k mem_new"
    and "nonzero_hash H" and "length items < 2 ^ 63"
  shows "\<exists>st'. merkle_append_all (state_backend E H) H (macc H k) items st = (Ok (), st') \<and>
           merkle_root (state_backend E H) H (macc H k) st' =
             (Ok (Some (proot H (depth (length items)) (map (leaf H) items))), st') \<and>
           merkle_size (state_backend E H) (macc H k) st' = (Ok (of_nat (length items)), st') \<and>
           (\<forall>l \<in> F - range (at k). state_cell H st' l = state_cell H st l)"
proof -
  obtain st' where st': "merkle_append_all (state_backend E H) H (macc H k) items st = (Ok (), st')"
      "state_ok E H (F \<union> range (at k)) st'" "merkle_sim (state_cell H st') k (mem_append_all H items mem_new)"
      "\<forall>l \<in> F - range (at k). state_cell H st' l = state_cell H st l"
    using merkle_append_all_sim [OF assms(1,2)] by blast
  have inv: "mm_inv H (mem_append_all H items mem_new) (map (leaf H) items)"
    using mem_append_all_inv [OF assms(3) _ mm_inv_new] assms(4) by simp
  have "0 \<notin> set (map (leaf H) items)"
    using assms(3) by (auto simp: leaf_def nonzero_hash_def)
  from mem_root_correct [OF assms(3) this inv] have "mem_root H (mem_append_all H items mem_new) =
      Some (proot H (depth (length items)) (map (leaf H) items))"
    by simp
  moreover have "mm_size (mem_append_all H items mem_new) = of_nat (length items)"
    using inv by (simp add: mm_inv_def)
  ultimately show ?thesis
    using st' st.merkle_reads_sim [OF st'(2,3)] by auto
qed

lemma sample_merkle_ok:
  "state_ok sample_revm sample_keccak ({} \<union> range (at 7)) (sample_state (\<lambda>_ _. 0))"
  "merkle_sim (state_cell sample_keccak (sample_state (\<lambda>_ _. 0))) 7 mem_new"
  "nonzero_hash sample_keccak"
proof -
  show "state_ok sample_revm sample_keccak ({} \<union> range (at 7)) (sample_state (\<lambda>_ _. 0))"
    by (rule state_ok_sample) auto
  show "merkle_sim (state_cell sample_keccak (sample_state (\<lambda>_ _. 0))) 7 mem_new"
    by (simp add: merkle_sim_def at_sample mem_new_def get_partial_def)
  have "from_be (drop (length bs - 10) bs) + 1 \<noteq> (0 :: u256)" for bs
  proof -
    have len: "length (drop (length bs - 10) bs) \<le> 10" by simp
    then have "be_nat (drop (length bs - 10) bs) < 256 ^ 10"
      using be_nat_bound [of "drop (length bs - 10) bs"]
      by (meson less_le_trans one_le_numeral power_increasing)
    moreover have "unat (from_be (drop (length bs - 10) bs) :: u256) = be_nat (drop (length bs - 10) bs)"
      using len by (intro unat_from_be) simp
    ultimately have "unat (from_be (drop (length bs - 10) bs) + 1 :: u256) = be_nat (drop (length bs - 10) bs) + 1"
      by (subst unat_plus_one) simp_all
    then show ?thesis by (metis add_is_0 one_neq_zero unat_0)
  qed
  then have "sample_keccak bs \<noteq> 0" if "length bs = 32 \<or> length bs = 64" for bs
    using that by (auto simp only: sample_keccak_def split: if_splits)
  then show "nonzero_hash sample_keccak"
    by (simp add: nonzero_hash_def)
qed

lemma merkle_root_of_appends_witness:
  "\<exists>st'. merkle_append_all (state_backend sample_revm sample_keccak) sample_keccak (macc sample_keccak 7)
        [10, 20, 30] (sample_state (\<lambda>_ _. 0)) = (Ok (), st') \<and>
      merkle_root (state_backend sample_revm sample_keccak) sample_keccak (macc sample_keccak 7) st' =
        (Ok (Some (node sample_keccak
           (node sample_keccak (leaf sample_keccak 10) (leaf sample_keccak 20))
           (node sample_keccak (leaf sample_keccak 30) 0))), st')"
proof -
  have "depth (Suc (Suc (Suc 0))) = 2" by (simp add: depth_def bit_length.simps)
  moreover have "proot sample_keccak 2 [x, y, z] =
      node sample_keccak (node sample_keccak x y) (node sample_keccak z 0)" for x y z
    by (simp add: numeral_2_eq_2)
  ultimately show ?thesis
    using merkle_root_of_appends [OF sample_merkle_ok, of "[10, 20, 30]"] by auto
qed

text \<open>
  C25: the storage-backed accumulator and the in-memory one are equivalent: started from the same
  contents, after any sequence of appended items they have the same size, root and
  partials, and the next append emits the same events in both.
\<close>

theorem merkle_storage_memory_equivalence:
  assumes "state_ok E H (range (at k)) st" and "merkle_sim (state_cell H st) k m"
  shows "\<exists>st' st''. merkle_append_all (state_backend E H) H (macc H k) items st = (Ok (), st') \<and>
           merkle_root (state_backend E H) H (macc H k) st' = (Ok (mem_root H (mem_append_all H items m)), st') \<and>
           merkle_size (state_backend E H) (macc H k) st' = (Ok (mm_size (mem_append_all H items m)), st') \<and>
           merkle_get_partials (state_backend E H) H (macc H k) st' =
             (Ok (mem_get_partials (mem_append_all H items m)), st') \<and>
           merkle_append (state_backend E H) H (macc H k) item st' =
             (Ok (fst (mem_append H (mem_append_all H items m) item)), st'')"
proof -
  have "state_ok E H ({} \<union> range (at k)) st" using assms(1) by simp
  from merkle_append_all_sim [OF this assms(2), of items] obtain st' where
    st': "merkle_append_all (state_backend E H) H (macc H k) items st = (Ok (), st')"
      "state_ok E H (range (at k)) st'" "merkle_sim (state_cell H st') k (mem_append_all H items m)"
    by auto
  from st.merkle_append_sim [OF st'(2) subset_refl st'(3), of item] obtain st'' where
    "merkle_append (state_backend E H) H (macc H k) item st' =
      (Ok (fst (mem_append H (mem_append_all H items m) item)), st'')" by blast
  then show ?thesis
    using st' st.merkle_reads_sim [OF st'(2,3)] by auto
qed

lemma merkle_storage_memory_equivalence_witness:
  "\<exists>st'. merkle_append_all (state_backend sample_revm sample_keccak) sample_keccak (macc sample_keccak 7)
        [10, 20] (sample_state (\<lambda>_ _. 0)) = (Ok (), st') \<and>
      merkle_size (state_backend sample_revm sample_keccak) (macc sample_keccak 7) st' =
        (Ok (mm_size (mem_append_all sample_keccak [10, 20] mem_new)), st')"
  using merkle_storage_memory_equivalence [of sample_revm sample_keccak 7 "sample_state (\<lambda>_ _. 0)" mem_new "[10, 20]" 30]
    sample_merkle_ok by auto

lemma mm_inv_same:
  assumes "nonzero_hash H" and "mm_inv H m (map (leaf H) items)" and "mm_inv H m' (map (leaf H) items)"
  shows "mm_size m' = mm_size m" and "mem_root H m' = mem_root H m" and "mem_get_partials m' = mem_get_partials m"
proof -
  have nz: "0 \<notin> set (map (leaf H) items)" using assms(1) by (auto simp: leaf_def nonzero_hash_def)
  show "mm_size m' = mm_size m" using assms(2,3) by (simp add: mm_inv_def)
  show "mem_root H m' = mem_root H m"
    by (simp only: mem_root_correct [OF assms(1) nz assms(2)] mem_root_correct [OF assms(1) nz assms(3)])
  show "mem_get_partials m' = mem_get_partials m"
    by (simp only: mem_get_partials_inv [OF assms(2)] mem_get_partials_inv [OF assms(3)])
qed

text \<open>
  C26: after any items are appended to an empty storage-backed accumulator, its exported state is its size, its root and
  its partials; the in-memory accumulator restored from the exported partials has that size, that root and those partials,
  and when the same further items are appended to both, the storage-backed one again exports the size, the
  root and the partials of the restored one.
\<close>

theorem merkle_export_import:
  assumes "state_ok E H (range (at k)) st" and "merkle_sim (state_cell H st) k mem_new"
    and "nonzero_hash H" and "length items + length later < 2 ^ 63"
  shows "\<exists>st' st'' size_out root partials.
    merkle_append_all (state_backend E H) H (macc H k) items st = (Ok (), st') \<and>
    state_for_export (state_backend E H) H (macc H k) st' = (Ok (size_out, Some root, partials), st') \<and>
    size_out = of_nat (length items) \<and> root = proot H (depth (length items)) (map (leaf H) items) \<and>
    mm_size (from_partials partials) = size_out \<and> mem_root H (from_partials partials) = Some root \<and>
    mem_get_partials (from_partials partials) = partials \<and>
    merkle_append_all (state_backend E H) H (macc H k) later st' = (Ok (), st'') \<and>
    state_for_export (state_backend E H) H (macc H k) st'' =
      (let m = mem_append_all H later (from_partials partials) in (Ok (mm_size m, mem_root H m, mem_get_partials m), st''))"
proof -
  let ?m = "mem_append_all H items mem_new" and ?ls = "map (leaf H) items" and ?B = "state_backend E H"
  let ?m' = "from_partials (mem_get_partials ?m)"
  have ok: "state_ok E H ({} \<union> range (at k)) st" using assms(1) by simp
  have nz: "0 \<notin> set (map (leaf H) xs)" for xs
    using assms(3) by (auto simp: leaf_def nonzero_hash_def)
  have inv: "mm_inv H ?m ?ls"
    using mem_append_all_inv [OF assms(3) _ mm_inv_new] assms(4) by simp
  have inv': "mm_inv H ?m' ?ls"
    by (rule from_partials_inv [OF assms(3) nz inv])
  have later: "mm_inv H (mem_append_all H later x) (map (leaf H) (items @ later))" if "mm_inv H x ?ls" for x
    using mem_append_all_inv [OF assms(3) nz that] assms(4) by simp
  obtain st' where st': "merkle_append_all ?B H (macc H k) items st = (Ok (), st')"
      "state_ok E H ({} \<union> range (at k)) st'" "merkle_sim (state_cell H st') k ?m"
    using merkle_append_all_sim [OF ok assms(2)] by blast
  obtain st'' where st'': "merkle_append_all ?B H (macc H k) later st' = (Ok (), st'')"
      "state_ok E H ({} \<union> range (at k)) st''" "merkle_sim (state_cell H st'') k (mem_append_all H later ?m)"
    using merkle_append_all_sim [OF st'(2,3)] by blast
  note same = mm_inv_same [OF assms(3) inv inv'] and same_later = mm_inv_same [OF assms(3) later [OF inv] later [OF inv']]
  have root: "mem_root H ?m = Some (proot H (depth (length items)) ?ls)"
    using mem_root_correct [OF assms(3) nz inv] by simp
  have sz: "mm_size ?m = of_nat (length items)" using inv by (simp add: mm_inv_def)
  show ?thesis
    using st'(1) st''(1) st.state_for_export_sim [OF st'(2,3)] st.state_for_export_sim [OF st''(2,3)] same root sz
    by (auto simp: Let_def same_later)
qed

lemma merkle_export_import_witness:
  "\<exists>st' root partials.
    merkle_append_all (state_backend sample_revm sample_keccak) sample_keccak (macc sample_keccak 7)
      [10, 20] (sample_state (\<lambda>_ _. 0)) = (Ok (), st') \<and>
    state_for_export (state_backend sample_revm sample_keccak) sample_keccak (macc sample_keccak 7) st' =
      (Ok (2, Some root, partials), st') \<and>
    mm_size (from_partials partials) = 2 \<and> mem_root sample_keccak (from_partials partials) = Some root"
  using merkle_export_import [OF sample_merkle_ok(1) [unfolded Un_empty_left] sample_merkle_ok(2,3), of "[10, 20]" "[30]"] by auto

end
