(* ===== verification/Util.thy ===== *)
theory Util
  imports Storage
begin

text \<open>
  The helpers of \<open>crates/arb-math/src/lib.rs\<close> (the exponential in basis points that all prices
  use) and of \<open>crates/arbos/src/util\<close>: address aliasing between the chains, balance transfers
  through a callback, and the big-endian wire encodings.
\<close>

section \<open>The exponential in basis points\<close>

definition ONE_IN_BIPS :: u64 where "ONE_IN_BIPS = 10000"

text \<open>The loop over \<open>i\<close> from \<open>n\<close> down to 1; \<open>None\<close> is the panic of a division by zero.\<close>

primrec approx_exp_loop :: "u64 \<Rightarrow> nat \<Rightarrow> u64 \<Rightarrow> u64 option" where
  "approx_exp_loop bips 0 res = Some res"
| "approx_exp_loop bips (Suc n) res =
     (let d = of_nat (Suc n) * ONE_IN_BIPS in
      if d = 0 then None
      else approx_exp_loop bips n (sat_add ONE_IN_BIPS (sat_mul res bips div d)))"

definition approx_exp_basis_points :: "u64 \<Rightarrow> u64 \<Rightarrow> u64 option" where
  "approx_exp_basis_points bips accuracy =
     (if bips = 0 \<or> accuracy = 0 then Some ONE_IN_BIPS
      else approx_exp_loop bips (unat (accuracy - 1)) (sat_add ONE_IN_BIPS (bips div accuracy)))"

section \<open>Address aliasing\<close>

definition ADDRESS_ALIAS_OFFSET :: address where
  "ADDRESS_ALIAS_OFFSET = 0x1111000000000000000000000000000000001111"

definition INVERSE_ADDRESS_ALIAS_OFFSET :: address where
  "INVERSE_ADDRESS_ALIAS_OFFSET = 0xeeeeffffffffffffffffffffffffffffffffeeef"

text \<open>Byte by byte from the last, with a 16-bit carry.\<close>

fun add_bytes :: "bytes \<Rightarrow> bytes \<Rightarrow> u16 \<times> bytes" where
  "add_bytes (a # as) (b # bs) =
     (let (carry, res) = add_bytes as bs;
          sum = ucast a + ucast b + carry
      in (drop_bit 8 sum, ucast sum # res))"
| "add_bytes _ _ = (0, [])"

definition address_add :: "address \<Rightarrow> address \<Rightarrow> address" where
  "address_add a b = from_be (snd (add_bytes (be_bytes 20 a) (be_bytes 20 b)))"

definition remap_l1_address :: "address \<Rightarrow> address" where
  "remap_l1_address l1_address = address_add l1_address ADDRESS_ALIAS_OFFSET"

definition inverse_remap_l1_address :: "address \<Rightarrow> address" where
  "inverse_remap_l1_address l2_address = address_add l2_address INVERSE_ADDRESS_ALIAS_OFFSET"

definition does_tx_type_alias :: "u8 \<Rightarrow> bool" where
  "does_tx_type_alias tx_type \<longleftrightarrow> tx_type \<in> {0x65, 0x66, 0x68}"

definition tx_type_has_poster_costs :: "u8 \<Rightarrow> bool" where
  "tx_type_has_poster_costs tx_type \<longleftrightarrow> \<not> tx_type \<in> {0x64, 0x65, 0x66, 0x68, 0x69, 0x6a}"

section \<open>Balance transfers\<close>

datatype balance_error = InsufficientBalance address u256 u256 | BE_Database database_error

type_synonym 's state_fn = "address option \<Rightarrow> address option \<Rightarrow> u256 \<Rightarrow> ('s, unit, balance_error) comp"

definition transfer_balance ::
  "address option \<Rightarrow> address option \<Rightarrow> u256 \<Rightarrow> 's state_fn \<Rightarrow> ('s, unit, balance_error) comp" where
  "transfer_balance from to amount state_fn = state_fn from to amount"

definition mint_balance :: "address \<Rightarrow> u256 \<Rightarrow> 's state_fn \<Rightarrow> ('s, unit, balance_error) comp" where
  "mint_balance to amount state_fn = transfer_balance None (Some to) amount state_fn"

definition burn_balance :: "address \<Rightarrow> u256 \<Rightarrow> 's state_fn \<Rightarrow> ('s, unit, balance_error) comp" where
  "burn_balance from amount state_fn = transfer_balance (Some from) None amount state_fn"

section \<open>Wire encodings\<close>

text \<open>A reader is the bytes left; reading returns the value and the rest, or an error.\<close>

datatype io_error = UnexpectedEof | InvalidData u64 u64

type_synonym 'a reader = "bytes \<Rightarrow> ('a \<times> bytes, io_error) result"

definition read_exact :: "nat \<Rightarrow> bytes reader" where
  "read_exact n r = (if n \<le> length r then Ok (take n r, drop n r) else Err UnexpectedEof)"

definition map_reader :: "('a \<Rightarrow> 'b) \<Rightarrow> 'a reader \<Rightarrow> 'b reader" where
  "map_reader f rd r = (case rd r of Ok (x, r') \<Rightarrow> Ok (f x, r') | Err e \<Rightarrow> Err e | Panic \<Rightarrow> Panic)"

definition hash_from_reader :: "u256 reader" where
  "hash_from_reader = map_reader from_be (read_exact 32)"

definition hash_to_writer :: "u256 \<Rightarrow> bytes" where
  "hash_to_writer hash = be_bytes 32 hash"

definition uint256_from_reader :: "u256 reader" where
  "uint256_from_reader = hash_from_reader"

definition address_from_reader :: "address reader" where
  "address_from_reader = map_reader from_be (read_exact 20)"

definition address_to_writer :: "address \<Rightarrow> bytes" where
  "address_to_writer addr = be_bytes 20 addr"

definition address_from_256_from_reader :: "address reader" where
  "address_from_256_from_reader = map_reader (\<lambda>hash. from_be (drop 12 (be_bytes 32 hash))) hash_from_reader"

definition address_to_256_to_writer :: "address \<Rightarrow> bytes" where
  "address_to_256_to_writer addr = replicate 12 0 @ be_bytes 20 addr"

definition uint64_from_reader :: "u64 reader" where
  "uint64_from_reader = map_reader from_be (read_exact 8)"

definition uint64_to_writer :: "u64 \<Rightarrow> bytes" where
  "uint64_to_writer val = be_bytes 8 val"

definition bytestring_from_reader :: "u64 \<Rightarrow> bytes reader" where
  "bytestring_from_reader max_bytes_to_read r =
     (case uint64_from_reader r of
        Ok (len, r') \<Rightarrow>
          if max_bytes_to_read < len then Err (InvalidData len max_bytes_to_read)
          else read_exact (unat len) r'
      | Err e \<Rightarrow> Err e
      | Panic \<Rightarrow> Panic)"

definition bytestring_to_writer :: "bytes \<Rightarrow> bytes" where
  "bytestring_to_writer data = uint64_to_writer (of_nat (length data)) @ data"

definition int_to_hash :: "u64 \<Rightarrow> u256" where
  "int_to_hash val =
     (if 0 \<le> sint val then from_be (replicate 24 0 @ be_bytes 8 val)
      else from_be (replicate 24 0xFF @ be_bytes 8 val))"

definition util_uint_to_hash :: "u64 \<Rightarrow> u256" where
  "util_uint_to_hash val = from_be (replicate 24 0 @ be_bytes 8 val)"

definition util_address_to_hash :: "address \<Rightarrow> u256" where
  "util_address_to_hash addr = from_be (replicate 12 0 @ be_bytes 20 addr)"

section \<open>Properties of the exponential\<close>

text \<open>The loop in \<open>nat\<close>, with the saturation at the largest \<open>u64\<close>.\<close>

definition exp_round :: "nat \<Rightarrow> nat \<Rightarrow> nat \<Rightarrow> nat" where
  "exp_round x i r = min (10000 + min (r * x) (2 ^ 64 - 1) div (i * 10000)) (2 ^ 64 - 1)"

primrec exp_nat :: "nat \<Rightarrow> nat \<Rightarrow> nat \<Rightarrow> nat" where
  "exp_nat x 0 r = r"
| "exp_nat x (Suc n) r = exp_nat x n (exp_round x (Suc n) r)"

lemma approx_exp_loop_nat:
  "n < 2 ^ 50 \<Longrightarrow> \<exists>r'. approx_exp_loop bips n r = Some r' \<and> unat r' = exp_nat (unat bips) n (unat r)"
proof (induction n arbitrary: r)
  case 0
  then show ?case by simp
next
  case (Suc n)
  have d: "unat (of_nat (Suc n) * ONE_IN_BIPS) = Suc n * 10000"
    using Suc.prems by (simp add: ONE_IN_BIPS_def unat_mult_lem [THEN iffD1] counter_simps del: of_nat_Suc)
  then have "of_nat (Suc n) * ONE_IN_BIPS \<noteq> 0" by (metis mult_is_0 nat.distinct(1) unat_0 zero_neq_numeral)
  moreover have "unat (sat_add ONE_IN_BIPS (sat_mul r bips div (of_nat (Suc n) * ONE_IN_BIPS))) =
      exp_round (unat bips) (Suc n) (unat r)"
    by (simp only: unat_sat unat_div d exp_round_def) (simp add: ONE_IN_BIPS_def)
  ultimately show ?case
    using Suc.IH [of "sat_add ONE_IN_BIPS (sat_mul r bips div (of_nat (Suc n) * ONE_IN_BIPS))"] Suc.prems
    by (simp del: of_nat_Suc)
qed

lemma exp_round_mono: "x \<le> y \<Longrightarrow> r \<le> s \<Longrightarrow> exp_round x i r \<le> exp_round y i s"
  unfolding exp_round_def by (intro min.mono add_mono div_le_mono mult_mono order_refl) auto

lemma exp_nat_mono: "x \<le> y \<Longrightarrow> r \<le> s \<Longrightarrow> exp_nat x n r \<le> exp_nat y n s"
  by (induction n arbitrary: r s) (simp_all add: exp_round_mono)

lemma exp_nat_ge: "10000 \<le> r \<Longrightarrow> 10000 \<le> exp_nat x n r"
  by (induction n arbitrary: r) (simp_all add: exp_round_def)

lemma approx_exp_run:
  assumes "0 < unat acc" and "unat acc < 2 ^ 50" and "x \<noteq> 0"
  shows "\<exists>r. approx_exp_basis_points x acc = Some r \<and>
     unat r = exp_nat (unat x) (unat acc - 1) (min (10000 + unat x div unat acc) (2 ^ 64 - 1))"
proof -
  have "unat (acc - 1) = unat acc - 1" using assms(1) by (simp add: unat_minus_one unat_gt_0)
  moreover have "unat (sat_add ONE_IN_BIPS (x div acc)) = min (10000 + unat x div unat acc) (2 ^ 64 - 1)"
    by (simp add: unat_sat unat_div ONE_IN_BIPS_def)
  ultimately show ?thesis
    using assms approx_exp_loop_nat [of "unat acc - 1" x "sat_add ONE_IN_BIPS (x div acc)"]
    by (auto simp: approx_exp_basis_points_def)
qed

lemma approx_exp_mono:
  assumes "unat acc < 2 ^ 50" and "x \<le> y"
  obtains r s where "approx_exp_basis_points x acc = Some r" and "approx_exp_basis_points y acc = Some s"
    and "10000 \<le> unat r" and "r \<le> s"
proof -
  have one: "approx_exp_basis_points z acc = Some 10000" if "z = 0 \<or> acc = 0" for z
    using that by (auto simp: approx_exp_basis_points_def ONE_IN_BIPS_def)
  let ?start = "\<lambda>z. min (10000 + unat z div unat acc) (2 ^ 64 - 1)"
  have runs: "\<exists>r. approx_exp_basis_points z acc = Some r \<and> unat r = exp_nat (unat z) (unat acc - 1) (?start z) \<and>
      10000 \<le> unat r" if z: "z \<noteq> 0" and a: "acc \<noteq> 0" for z
  proof -
    obtain r where "approx_exp_basis_points z acc = Some r" "unat r = exp_nat (unat z) (unat acc - 1) (?start z)"
      using approx_exp_run [of acc z] assms(1) z a by (auto simp: unat_gt_0)
    then show ?thesis using exp_nat_ge [of "?start z"] by simp
  qed
  show thesis
  proof (cases "x = 0 \<or> acc = 0")
    case True
    then show thesis
      using one [of x] one [of y] runs [of y] that [of 10000]
      by (cases "y = 0 \<or> acc = 0") (auto simp: word_le_nat_alt)
  next
    case False
    have xy: "unat x \<le> unat y" using assms(2) by (simp add: word_le_nat_alt)
    moreover have "0 < unat x" using False by (simp add: unat_gt_0)
    ultimately have "y \<noteq> 0" by auto
    moreover have "?start x \<le> ?start y"
      using xy by (intro min.mono add_mono div_le_mono order_refl)
    moreover obtain r where "approx_exp_basis_points x acc = Some r" "10000 \<le> unat r"
      "unat r = exp_nat (unat x) (unat acc - 1) (?start x)"
      using runs [of x] False by blast
    moreover obtain s where "approx_exp_basis_points y acc = Some s"
      "unat s = exp_nat (unat y) (unat acc - 1) (?start y)"
      using runs [of y] \<open>y \<noteq> 0\<close> False by blast
    ultimately show thesis
      using exp_nat_mono [OF xy, of "?start x" "?start y"] that by (metis word_le_nat_alt)
  qed
qed

section \<open>The properties\<close>

lemma add_bytes_nat:
  "length as = length bs \<Longrightarrow> add_bytes as bs = (c, res) \<Longrightarrow>
     length res = length as \<and> unat c \<le> 1 \<and>
     be_nat res + unat c * 256 ^ length as = be_nat as + be_nat bs"
proof (induction as bs arbitrary: c res rule: list_induct2)
  case Nil
  then show ?case by simp
next
  case (Cons a as b bs)
  obtain c' r where cr: "add_bytes as bs = (c', r)" by force
  with Cons.IH have IH: "length r = length as" "unat c' \<le> 1"
    "be_nat r + unat c' * 256 ^ length as = be_nat as + be_nat bs" by blast+
  let ?sum = "ucast a + ucast b + c' :: u16"
  have "unat (ucast a + ucast b :: u16) = unat a + unat b"
    using unat_bound [of a] unat_bound [of b]
    by (subst unat_add_lem [THEN iffD1]) (simp_all add: unat_ucast_up)
  then have sum: "unat ?sum = unat a + unat b + unat c'"
    using unat_bound [of a] unat_bound [of b] IH(2)
    by (subst unat_add_lem [THEN iffD1]) (simp_all add: unat_ucast_up)
  have c: "c = drop_bit 8 ?sum" "res = ucast ?sum # r"
    using Cons.prems cr by (auto simp: Let_def)
  have "unat c = unat ?sum div 256"
    unfolding c by (simp add: unat_drop_bit_div)
  moreover have "unat (ucast ?sum :: u8) = unat ?sum mod 256"
    by (rule unat_ucast_u8)
  ultimately have "unat (ucast ?sum :: u8) + unat c * 256 = unat ?sum"
    by simp
  then have split: "unat (ucast ?sum :: u8) + unat c * 256 = unat a + unat b + unat c'"
    using sum by simp
  have "unat c \<le> 1"
    using \<open>unat c = unat ?sum div 256\<close> sum unat_bound [of a] unat_bound [of b] IH(2) by simp
  moreover have "(unat (ucast ?sum :: u8) + unat c * 256) * 256 ^ length as + be_nat r =
      (unat a + unat b) * 256 ^ length as + (be_nat as + be_nat bs)"
    unfolding split IH(3) [symmetric] by (simp add: algebra_simps)
  ultimately show ?case
    using IH(1) Cons.hyps c(2) by (simp add: be_nat_Cons algebra_simps)
qed

lemma address_add_plus: "address_add a b = a + b"
proof -
  obtain c r where cr: "add_bytes (be_bytes 20 a) (be_bytes 20 b) = (c, r)" by force
  from add_bytes_nat [OF _ cr] have len: "length r = 20"
    and eq: "be_nat r + unat c * 256 ^ 20 = be_nat (be_bytes 20 a) + be_nat (be_bytes 20 b)"
    by simp_all
  have "unat a < 256 ^ 20" "unat b < 256 ^ 20"
    using unat_bound [of a] unat_bound [of b] by simp_all
  then have "be_nat r + unat c * 2 ^ 160 = unat a + unat b"
    using eq by (simp add: be_nat_be_bytes)
  moreover have "be_nat r < 2 ^ 160"
    using be_nat_bound [of r] len by simp
  ultimately have "be_nat r = (unat a + unat b) mod 2 ^ 160"
    using mix_mod [of "be_nat r" "2 ^ 160" "unat c"] by (simp only: add.commute)
  then have "unat (from_be r :: address) = unat (a + b)"
    using len by (simp add: unat_from_be unat_word_ariths)
  then show ?thesis
    by (simp add: address_add_def cr word_unat_eq_iff)
qed

text \<open>
  The byte-wise addition of addresses is addition modulo 2^160, and mapping a parent-chain address
  to its alias and back is the identity in both directions.
\<close>

theorem alias_round_trip:
  "address_add a b = a + b \<and>
   inverse_remap_l1_address (remap_l1_address a) = a \<and> remap_l1_address (inverse_remap_l1_address a) = a"
  by (simp add: address_add_plus remap_l1_address_def inverse_remap_l1_address_def
      ADDRESS_ALIAS_OFFSET_def INVERSE_ADDRESS_ALIAS_OFFSET_def)

text \<open>
  Every wire encoding reads back as what was written, leaving the bytes that follow; a byte string
  is accepted exactly up to the cap the reader passes; and a signed integer becomes its sign-extended
  256-bit word.
\<close>

theorem wire_round_trips:
  assumes "length data < 2 ^ 64"
  shows "hash_from_reader (hash_to_writer h @ rest) = Ok (h, rest) \<and>
         address_from_reader (address_to_writer a @ rest) = Ok (a, rest) \<and>
         address_from_256_from_reader (address_to_256_to_writer a @ rest) = Ok (a, rest) \<and>
         uint64_from_reader (uint64_to_writer n @ rest) = Ok (n, rest) \<and>
         bytestring_from_reader cap (bytestring_to_writer data @ rest) =
           (if length data \<le> unat cap then Ok (data, rest) else Err (InvalidData (of_nat (length data)) cap)) \<and>
         sint (int_to_hash n) = sint n"
proof (intro conjI)
  have u64: "uint64_from_reader (uint64_to_writer m @ r) = Ok (m, r)" for m r
    by (simp add: uint64_from_reader_def uint64_to_writer_def map_reader_def read_exact_def from_be_bytes)
  then show "uint64_from_reader (uint64_to_writer n @ rest) = Ok (n, rest)" .
  show "hash_from_reader (hash_to_writer h @ rest) = Ok (h, rest)"
    by (simp add: hash_from_reader_def hash_to_writer_def map_reader_def read_exact_def from_be_bytes)
  show "address_from_reader (address_to_writer a @ rest) = Ok (a, rest)"
    by (simp add: address_from_reader_def address_to_writer_def map_reader_def read_exact_def from_be_bytes)
  show "address_from_256_from_reader (address_to_256_to_writer a @ rest) = Ok (a, rest)"
  proof -
    have "from_be (drop 12 (be_bytes 32 v)) = (ucast v :: address)" for v :: u256
      using drop_be_bytes [of 12 20 v] by (simp add: from_be_truncated)
    moreover have "(from_be (replicate 12 0 @ be_bytes 20 a) :: u256) = ucast a"
      by (simp add: from_be_padded)
    ultimately show ?thesis
      by (simp add: address_from_256_from_reader_def address_to_256_to_writer_def hash_from_reader_def
          map_reader_def read_exact_def ucast_down_up)
  qed
  show "bytestring_from_reader cap (bytestring_to_writer data @ rest) =
      (if length data \<le> unat cap then Ok (data, rest) else Err (InvalidData (of_nat (length data)) cap))"
    using assms u64
    by (simp add: bytestring_from_reader_def bytestring_to_writer_def read_exact_def word_less_nat_alt counter_simps)
  have n: "unat n < 2 ^ 64" using unat_bound [of n] by simp
  have sn: "0 \<le> sint n \<longleftrightarrow> unat n < 2 ^ 63" and top: "bit n 63 \<longleftrightarrow> 2 ^ 63 \<le> unat n"
    using n bit_top_iff [of n] unsigned_less [of n, where 'a = int] by (auto simp: sint_unat)
  show "sint (int_to_hash n) = sint n"
  proof (cases "unat n < 2 ^ 63")
    case True
    then have "unat (int_to_hash n) = unat n"
      using sn n by (simp add: int_to_hash_def unat_from_be be_nat_append be_nat_be_bytes)
    with True top bit_top_iff [of "int_to_hash n"] show ?thesis by (simp add: sint_unat)
  next
    case False
    then have "unat (int_to_hash n) = (256 ^ 24 - 1) * 256 ^ 8 + unat n"
      using sn n by (simp add: int_to_hash_def unat_from_be be_nat_append be_nat_be_bytes be_nat_ones)
    with False top bit_top_iff [of "int_to_hash n"] show ?thesis by (simp add: sint_unat)
  qed
qed

lemma wire_round_trips_witness:
  "bytestring_from_reader 5 (bytestring_to_writer [1, 2, 3] @ [9]) = Ok ([1, 2, 3], [9]) \<and>
   bytestring_from_reader 2 (bytestring_to_writer [1, 2, 3] @ [9]) = Err (InvalidData 3 2)"
  using wire_round_trips [of "[1, 2, 3]" 0 "[9]" 0 0 5] wire_round_trips [of "[1, 2, 3]" 0 "[9]" 0 0 2]
  by simp

end
