(* ===== verification/Exp_Bounds.thy ===== *)
theory Exp_Bounds
  imports Util Complex_Main
begin

text \<open>
  The basis-point exponential of \<open>crates/arb-math/src/lib.rs\<close> against the real exponential. The model is in
  \<open>Util\<close>; this theory compares its rounds with the exact series.
\<close>

text \<open>Every round is below the round of the exact series, so the result is below the exponential.\<close>

lemma exp_round_real:
  assumes "0 < i" and "real r \<le> 10000 * t"
  shows "real (exp_round x i r) \<le> 10000 * (1 + real x / 10000 / i * t)"
proof -
  have "real (min (r * x) (2 ^ 64 - 1) div (i * 10000)) \<le> real (min (r * x) (2 ^ 64 - 1)) / real (i * 10000)"
    by (rule of_nat_div_le_of_nat)
  also have "\<dots> \<le> real (r * x) / real (i * 10000)"
    by (intro divide_right_mono of_nat_mono min.cobounded1) simp
  also have "\<dots> \<le> 10000 * t * x / real (i * 10000)"
    using assms(2) by (intro divide_right_mono) (simp_all add: mult_right_mono)
  also have "\<dots> = 10000 * (real x / 10000 / i * t)"
    using assms(1) by (simp add: field_simps)
  finally show ?thesis
    unfolding exp_round_def by (simp add: algebra_simps min.coboundedI1)
qed

text \<open>The rest of the series from the \<open>i\<close>-th factor on, up to the \<open>n\<close>-th term.\<close>

definition tail_series :: "real \<Rightarrow> nat \<Rightarrow> nat \<Rightarrow> real" where
  "tail_series z i n = (\<Sum>j \<le> n - i. z ^ j * fact i / fact (i + j))"

lemma tail_series_0_exp: "0 \<le> z \<Longrightarrow> tail_series z 0 n \<le> exp z"
proof -
  assume "0 \<le> z"
  have "tail_series z 0 n = (\<Sum>j \<in> {..n}. inverse (fact j) *\<^sub>R z ^ j)"
    by (simp add: tail_series_def field_simps)
  also have "\<dots> \<le> (\<Sum>j. inverse (fact j) *\<^sub>R z ^ j)"
    using \<open>0 \<le> z\<close> by (intro sum_le_suminf summable_exp_generic) simp_all
  finally show ?thesis by (simp add: exp_def)
qed

lemma tail_series_step:
  assumes "i < n"
  shows "tail_series z i n = 1 + z / Suc i * tail_series z (Suc i) n"
proof -
  have "n - i = Suc (n - Suc i)" using assms by simp
  then have "tail_series z i n = 1 + (\<Sum>j \<le> n - Suc i. z ^ Suc j * fact i / fact (i + Suc j))"
    unfolding tail_series_def by (simp only: sum.atMost_Suc_shift) simp
  also have "(\<Sum>j \<le> n - Suc i. z ^ Suc j * fact i / fact (i + Suc j)) =
      z / Suc i * (\<Sum>j \<le> n - Suc i. z ^ j * fact (Suc i) / fact (Suc i + j))"
    unfolding sum_distrib_left by (rule sum.cong) (simp_all add: field_simps del: of_nat_Suc)
  finally show ?thesis unfolding tail_series_def .
qed

lemma exp_nat_real:
  assumes "real r \<le> 10000 * tail_series (real x / 10000) i n" and "i \<le> n"
  shows "real (exp_nat x i r) \<le> 10000 * tail_series (real x / 10000) 0 n"
  using assms
proof (induction i arbitrary: r)
  case 0
  then show ?case by simp
next
  case (Suc i)
  have "real (exp_round x (Suc i) r) \<le>
      10000 * (1 + real x / 10000 / Suc i * tail_series (real x / 10000) (Suc i) n)"
    using Suc.prems(1) by (intro exp_round_real) simp_all
  then have "real (exp_round x (Suc i) r) \<le> 10000 * tail_series (real x / 10000) i n"
    using Suc.prems(2) by (simp only: tail_series_step [of i n] Suc_le_eq)
  with Suc.IH Suc.prems(2) show ?case by simp
qed

lemma exp_start_real:
  assumes "0 < n"
  shows "real (min (10000 + x div n) (2 ^ 64 - 1)) \<le> 10000 * tail_series (real x / 10000) (n - 1) n"
proof -
  have "tail_series (real x / 10000) (n - 1) n = 1 + real x / 10000 / n * tail_series (real x / 10000) n n"
    using assms tail_series_step [of "n - 1" n "real x / 10000"] by simp
  also have "tail_series (real x / 10000) n n = 1"
    by (simp add: tail_series_def)
  finally have "10000 * tail_series (real x / 10000) (n - 1) n = 10000 + real x / n"
    by simp
  moreover have "real (x div n) \<le> real x / real n"
    by (rule of_nat_div_le_of_nat)
  ultimately show ?thesis by (simp add: min.coboundedI1)
qed

lemma approx_exp_upper:
  assumes "unat acc < 2 ^ 50" and "approx_exp_basis_points z acc = Some r"
  shows "real (unat r) \<le> 10000 * exp (real (unat z) / 10000)"
proof (cases "z = 0 \<or> acc = 0")
  case True
  then have "r = 10000"
    using assms(2) by (auto simp: approx_exp_basis_points_def ONE_IN_BIPS_def)
  with of_nat_0_le_iff [of "unat z", where 'a = real] show ?thesis by auto
next
  case False
  then have acc: "0 < unat acc" by (simp add: unat_gt_0)
  have r: "unat r = exp_nat (unat z) (unat acc - 1) (min (10000 + unat z div unat acc) (2 ^ 64 - 1))"
    using approx_exp_run [OF acc assms(1), of z] False assms(2) by simp
  have "real (unat r) \<le> 10000 * tail_series (real (unat z) / 10000) 0 (unat acc)"
    unfolding r using acc by (intro exp_nat_real exp_start_real) simp_all
  also have "\<dots> \<le> 10000 * exp (real (unat z) / 10000)"
    using tail_series_0_exp [of "real (unat z) / 10000" "unat acc"] of_nat_0_le_iff [of "unat z", where 'a = real]
    by simp
  finally show ?thesis .
qed

text \<open>
  C30: the exponential in basis points always returns when the number of terms is below 2^50; the
  result lies between one (10000) and 10000 times the real exponential of \<open>bips / 10000\<close>, so rounding and saturation never
  overshoot, and it never decreases when \<open>bips\<close> grows.
\<close>

theorem approx_exp_bounds_monotone:
  assumes "unat acc < 2 ^ 50" and "x \<le> y"
  shows "\<exists>r s. approx_exp_basis_points x acc = Some r \<and> approx_exp_basis_points y acc = Some s \<and>
           10000 \<le> unat r \<and> real (unat r) \<le> 10000 * exp (real (unat x) / 10000) \<and> r \<le> s"
proof -
  obtain r s where "approx_exp_basis_points x acc = Some r" "approx_exp_basis_points y acc = Some s"
    "10000 \<le> unat r" "r \<le> s"
    using approx_exp_mono [OF assms] .
  with approx_exp_upper [OF assms(1)] show ?thesis by blast
qed

lemma approx_exp_bounds_monotone_witness:
  "\<exists>r s. approx_exp_basis_points 500 4 = Some r \<and> approx_exp_basis_points 20000 4 = Some s \<and> r \<le> s \<and>
     approx_exp_basis_points 500 4 = Some 10512 \<and> approx_exp_basis_points 20000 4 = Some 70000"
proof -
  have "\<exists>r s. approx_exp_basis_points 500 4 = Some r \<and> approx_exp_basis_points 20000 4 = Some s \<and> r \<le> s"
    using approx_exp_bounds_monotone [of 4 500 20000] by auto
  moreover have "approx_exp_loop b 3 r = approx_exp_loop b (Suc (Suc (Suc 0))) r" for b r
    by (simp only: numeral_3_eq_3)
  then have "approx_exp_basis_points 500 4 = Some 10512" "approx_exp_basis_points 20000 4 = Some 70000"
    by (simp_all add: approx_exp_basis_points_def ONE_IN_BIPS_def sat_add_def sat_mul_def)
  ultimately show ?thesis by blast
qed

end
