(* ===== verification/Multi_Gas.thy ===== *)
theory Multi_Gas
  imports Prelude
begin

text \<open>
  Multi-dimensional gas, \<open>crates/arb-primitives/src/multigas.rs\<close>: the resource kinds, the gas
  vector with its total and refund, the checked and saturating operations on it, and its text form.
  The array of nine counters is a list of nine words; an index is a kind's number.

  \<open>mg_ok\<close> says that the total is the sum of the dimensions. It is what the single-gas view of a
  vector relies on, and the checked operations keep it.
\<close>

section \<open>Resource kinds\<close>

datatype resource_kind = Unknown | Computation | HistoryGrowth | StorageAccessRead
  | StorageAccessWrite | StorageGrowth | SingleDim | L2Calldata | WasmComputation

definition NUM_RESOURCE_KIND :: nat where "NUM_RESOURCE_KIND = 9"

primrec kind_id :: "resource_kind \<Rightarrow> nat" where
  "kind_id Unknown = 0"
| "kind_id Computation = 1"
| "kind_id HistoryGrowth = 2"
| "kind_id StorageAccessRead = 3"
| "kind_id StorageAccessWrite = 4"
| "kind_id StorageGrowth = 5"
| "kind_id SingleDim = 6"
| "kind_id L2Calldata = 7"
| "kind_id WasmComputation = 8"

definition all_kinds :: "resource_kind list" where
  "all_kinds = [Unknown, Computation, HistoryGrowth, StorageAccessRead, StorageAccessWrite,
     StorageGrowth, SingleDim, L2Calldata, WasmComputation]"

definition is_valid_id :: "u8 \<Rightarrow> bool" where
  "is_valid_id i \<longleftrightarrow> of_nat (kind_id Unknown) < i \<and> unat i < NUM_RESOURCE_KIND"

definition from_u8 :: "u8 \<Rightarrow> resource_kind option" where
  "from_u8 v =
     (if v = 0 then Some Unknown
      else if v = 1 then Some Computation
      else if v = 2 then Some HistoryGrowth
      else if v = 3 then Some StorageAccessRead
      else if v = 4 then Some StorageAccessWrite
      else if v = 5 then Some StorageGrowth
      else if v = 6 then Some SingleDim
      else if v = 7 then Some L2Calldata
      else if v = 8 then Some WasmComputation
      else None)"

section \<open>Gas vectors\<close>

record multi_gas =
  mg_gas :: "u64 list"
  mg_total :: u64
  mg_refund :: u64

definition mg_zero :: multi_gas where
  "mg_zero = \<lparr>mg_gas = replicate NUM_RESOURCE_KIND 0, mg_total = 0, mg_refund = 0\<rparr>"

definition mg_from_raw :: "u64 list \<Rightarrow> u64 \<Rightarrow> u64 \<Rightarrow> multi_gas" where
  "mg_from_raw g t r = \<lparr>mg_gas = g, mg_total = t, mg_refund = r\<rparr>"

definition mg_new :: "resource_kind \<Rightarrow> u64 \<Rightarrow> multi_gas" where
  "mg_new kind amount =
     mg_zero\<lparr>mg_gas := (mg_gas mg_zero)[kind_id kind := amount], mg_total := amount\<rparr>"

text \<open>\<open>None\<close> is the panic of \<open>expect\<close>.\<close>

primrec from_pairs_loop :: "(resource_kind \<times> u64) list \<Rightarrow> multi_gas \<Rightarrow> multi_gas option" where
  "from_pairs_loop [] mg = Some mg"
| "from_pairs_loop (p # ps) mg =
     (case checked_add (mg_total mg) (snd p) of
        None \<Rightarrow> None
      | Some t \<Rightarrow> from_pairs_loop ps
          (mg\<lparr>mg_gas := (mg_gas mg)[kind_id (fst p) := snd p], mg_total := t\<rparr>))"

definition from_pairs :: "(resource_kind \<times> u64) list \<Rightarrow> multi_gas option" where
  "from_pairs pairs = from_pairs_loop pairs mg_zero"

definition unknown_gas :: "u64 \<Rightarrow> multi_gas" where
  "unknown_gas = mg_new Unknown"

definition computation_gas :: "u64 \<Rightarrow> multi_gas" where
  "computation_gas = mg_new Computation"

definition history_growth_gas :: "u64 \<Rightarrow> multi_gas" where
  "history_growth_gas = mg_new HistoryGrowth"

definition storage_access_read_gas :: "u64 \<Rightarrow> multi_gas" where
  "storage_access_read_gas = mg_new StorageAccessRead"

definition storage_access_write_gas :: "u64 \<Rightarrow> multi_gas" where
  "storage_access_write_gas = mg_new StorageAccessWrite"

definition storage_growth_gas :: "u64 \<Rightarrow> multi_gas" where
  "storage_growth_gas = mg_new StorageGrowth"

definition single_dim_gas :: "u64 \<Rightarrow> multi_gas" where
  "single_dim_gas = mg_new SingleDim"

definition l2_calldata_gas :: "u64 \<Rightarrow> multi_gas" where
  "l2_calldata_gas = mg_new L2Calldata"

definition wasm_computation_gas :: "u64 \<Rightarrow> multi_gas" where
  "wasm_computation_gas = mg_new WasmComputation"

definition mg_get :: "multi_gas \<Rightarrow> resource_kind \<Rightarrow> u64" where
  "mg_get m kind = mg_gas m ! kind_id kind"

definition mg_with :: "multi_gas \<Rightarrow> resource_kind \<Rightarrow> u64 \<Rightarrow> multi_gas \<times> bool" where
  "mg_with m kind amount =
     (let old = mg_gas m ! kind_id kind in
      case checked_add (mg_total m - old) amount of
        Some new_total \<Rightarrow>
          (m\<lparr>mg_gas := (mg_gas m)[kind_id kind := amount], mg_total := new_total\<rparr>, False)
      | None \<Rightarrow> (m, True))"

definition single_gas :: "multi_gas \<Rightarrow> u64" where
  "single_gas m = mg_total m"

definition with_refund :: "multi_gas \<Rightarrow> u64 \<Rightarrow> multi_gas" where
  "with_refund m r = m\<lparr>mg_refund := r\<rparr>"

text \<open>The loop over the dimensions with an early return on the first failure.\<close>

primrec checked_dims :: "(u64 \<Rightarrow> u64 \<Rightarrow> u64 option) \<Rightarrow> u64 list \<Rightarrow> nat list \<Rightarrow> u64 list \<Rightarrow> u64 list option" where
  "checked_dims f x [] res = Some res"
| "checked_dims f x (i # is) res =
     (case f (res ! i) (x ! i) of
        Some v \<Rightarrow> checked_dims f x is (res[i := v])
      | None \<Rightarrow> None)"

definition safe_op :: "(u64 \<Rightarrow> u64 \<Rightarrow> u64 option) \<Rightarrow> multi_gas \<Rightarrow> multi_gas \<Rightarrow> multi_gas \<times> bool" where
  "safe_op f m x =
     (case checked_dims f (mg_gas x) [0..<NUM_RESOURCE_KIND] (mg_gas m) of
        None \<Rightarrow> (m, True)
      | Some g \<Rightarrow>
          (case f (mg_total m) (mg_total x) of
             None \<Rightarrow> (m, True)
           | Some t \<Rightarrow>
               (case f (mg_refund m) (mg_refund x) of
                  None \<Rightarrow> (m, True)
                | Some r \<Rightarrow> (\<lparr>mg_gas = g, mg_total = t, mg_refund = r\<rparr>, False))))"

definition safe_add :: "multi_gas \<Rightarrow> multi_gas \<Rightarrow> multi_gas \<times> bool" where
  "safe_add = safe_op checked_add"

definition safe_sub :: "multi_gas \<Rightarrow> multi_gas \<Rightarrow> multi_gas \<times> bool" where
  "safe_sub = safe_op checked_sub"

primrec each_dim :: "(u64 \<Rightarrow> u64 \<Rightarrow> u64) \<Rightarrow> u64 list \<Rightarrow> nat list \<Rightarrow> u64 list \<Rightarrow> u64 list" where
  "each_dim f x [] res = res"
| "each_dim f x (i # is) res = each_dim f x is (res[i := f (res ! i) (x ! i)])"

definition mg_saturating_add :: "multi_gas \<Rightarrow> multi_gas \<Rightarrow> multi_gas" where
  "mg_saturating_add m x =
     \<lparr>mg_gas = each_dim sat_add (mg_gas x) [0..<NUM_RESOURCE_KIND] (mg_gas m),
      mg_total = sat_add (mg_total m) (mg_total x), mg_refund = sat_add (mg_refund m) (mg_refund x)\<rparr>"

definition mg_saturating_sub :: "multi_gas \<Rightarrow> multi_gas \<Rightarrow> multi_gas" where
  "mg_saturating_sub m x =
     \<lparr>mg_gas = each_dim sat_sub (mg_gas x) [0..<NUM_RESOURCE_KIND] (mg_gas m),
      mg_total = sat_sub (mg_total m) (mg_total x), mg_refund = sat_sub (mg_refund m) (mg_refund x)\<rparr>"

text \<open>The in-place variants replace the receiver, here the first argument, by the result.\<close>

definition saturating_add_into :: "multi_gas \<Rightarrow> multi_gas \<Rightarrow> multi_gas" where
  "saturating_add_into m other =
     m\<lparr>mg_gas := each_dim sat_add (mg_gas other) [0..<NUM_RESOURCE_KIND] (mg_gas m),
       mg_total := sat_add (mg_total m) (mg_total other),
       mg_refund := sat_add (mg_refund m) (mg_refund other)\<rparr>"

definition saturating_sub_into :: "multi_gas \<Rightarrow> multi_gas \<Rightarrow> multi_gas" where
  "saturating_sub_into m other =
     m\<lparr>mg_gas := each_dim sat_sub (mg_gas other) [0..<NUM_RESOURCE_KIND] (mg_gas m),
       mg_total := sat_sub (mg_total m) (mg_total other),
       mg_refund := sat_sub (mg_refund m) (mg_refund other)\<rparr>"

definition safe_increment :: "multi_gas \<Rightarrow> resource_kind \<Rightarrow> u64 \<Rightarrow> multi_gas \<times> bool" where
  "safe_increment m kind g =
     (case checked_add (mg_gas m ! kind_id kind) g of
        None \<Rightarrow> (m, True)
      | Some v \<Rightarrow>
          (case checked_add (mg_total m) g of
             None \<Rightarrow> (m, True)
           | Some t \<Rightarrow> (m\<lparr>mg_gas := (mg_gas m)[kind_id kind := v], mg_total := t\<rparr>, False)))"

definition saturating_increment :: "multi_gas \<Rightarrow> resource_kind \<Rightarrow> u64 \<Rightarrow> multi_gas" where
  "saturating_increment m kind g =
     m\<lparr>mg_gas := (mg_gas m)[kind_id kind := sat_add (mg_gas m ! kind_id kind) g],
       mg_total := sat_add (mg_total m) g\<rparr>"

definition saturating_increment_into :: "multi_gas \<Rightarrow> resource_kind \<Rightarrow> u64 \<Rightarrow> multi_gas" where
  "saturating_increment_into m kind amount =
     m\<lparr>mg_gas := (mg_gas m)[kind_id kind := sat_add (mg_gas m ! kind_id kind) amount],
       mg_total := sat_add (mg_total m) amount\<rparr>"

definition add_refund :: "multi_gas \<Rightarrow> u64 \<Rightarrow> multi_gas" where
  "add_refund m amount = m\<lparr>mg_refund := sat_add (mg_refund m) amount\<rparr>"

definition sub_refund :: "multi_gas \<Rightarrow> u64 \<Rightarrow> multi_gas" where
  "sub_refund m amount = m\<lparr>mg_refund := sat_sub (mg_refund m) amount\<rparr>"

definition mg_is_zero :: "multi_gas \<Rightarrow> bool" where
  "mg_is_zero m \<longleftrightarrow>
     mg_total m = 0 \<and> mg_refund m = 0 \<and> mg_gas m = replicate NUM_RESOURCE_KIND 0"

section \<open>Text form\<close>

text \<open>\<open>format!("{:#x}", n)\<close>.\<close>

definition hex_digit :: "nat \<Rightarrow> char" where
  "hex_digit d = char_of (if d < 10 then 48 + d else 87 + d)"

fun hex_of :: "nat \<Rightarrow> string" where
  "hex_of n = (if n < 16 then [hex_digit n] else hex_of (n div 16) @ [hex_digit (n mod 16)])"

declare hex_of.simps [simp del]

definition hex_u64 :: "u64 \<Rightarrow> string" where
  "hex_u64 n = ''0x'' @ hex_of (unat n)"

text \<open>\<open>str::trim_start_matches("0x")\<close> and \<open>u64::from_str_radix(_, 16)\<close>.\<close>

fun trim_0x :: "string \<Rightarrow> string" where
  "trim_0x (a # b # cs) = (if a = CHR ''0'' \<and> b = CHR ''x'' then trim_0x cs else a # b # cs)"
| "trim_0x s = s"

datatype parse_int_error = ParseEmpty | InvalidDigit | PosOverflow

definition hex_val :: "char \<Rightarrow> nat option" where
  "hex_val c =
     (let k = (of_char c :: nat) in
      if 48 \<le> k \<and> k \<le> 57 then Some (k - 48)
      else if 97 \<le> k \<and> k \<le> 102 then Some (k - 87)
      else if 65 \<le> k \<and> k \<le> 70 then Some (k - 55)
      else None)"

fun from_digits :: "u64 \<Rightarrow> string \<Rightarrow> (u64, parse_int_error) result" where
  "from_digits acc [] = Ok acc"
| "from_digits acc (c # cs) =
     (case hex_val c of
        None \<Rightarrow> Err InvalidDigit
      | Some d \<Rightarrow>
          if unat acc * 16 + d < 2 ^ 64 then from_digits (acc * 16 + of_nat d) cs
          else Err PosOverflow)"

definition from_str_radix_16 :: "string \<Rightarrow> (u64, parse_int_error) result" where
  "from_str_radix_16 s =
     (case s of
        [] \<Rightarrow> Err ParseEmpty
      | c # cs \<Rightarrow>
          if cs = [] \<and> (c = CHR ''+'' \<or> c = CHR ''-'') then Err InvalidDigit
          else if c = CHR ''+'' then from_digits 0 cs
          else from_digits 0 s)"

definition hex_u64_from :: "string \<Rightarrow> (u64, parse_int_error) result" where
  "hex_u64_from s = from_str_radix_16 (trim_0x s)"

definition mg_field_names :: "string list" where
  "mg_field_names = [''unknown'', ''computation'', ''historyGrowth'', ''storageAccessRead'',
     ''storageAccessWrite'', ''storageGrowth'', ''singleDim'', ''l2Calldata'', ''wasmComputation'']"

text \<open>The fields \<open>serialize\<close> hands to the data format, in order, and \<open>deserialize\<close> from what the
  data format has for a field name; a missing field is the default, zero.\<close>

definition mg_serialize :: "multi_gas \<Rightarrow> (string \<times> string) list" where
  "mg_serialize m =
     zip mg_field_names (map (\<lambda>i. hex_u64 (mg_gas m ! i)) [0..<NUM_RESOURCE_KIND]) @
     [(''refund'', hex_u64 (mg_refund m)), (''total'', hex_u64 (mg_total m))]"

definition field_of :: "(string \<Rightarrow> string option) \<Rightarrow> string \<Rightarrow> (u64, parse_int_error) result" where
  "field_of src name = (case src name of None \<Rightarrow> Ok 0 | Some s \<Rightarrow> hex_u64_from s)"

primrec fields_of :: "(string \<Rightarrow> string option) \<Rightarrow> string list \<Rightarrow> (u64 list, parse_int_error) result" where
  "fields_of src [] = Ok []"
| "fields_of src (n # ns) =
     (case field_of src n of
        Ok v \<Rightarrow> (case fields_of src ns of Ok vs \<Rightarrow> Ok (v # vs) | Err e \<Rightarrow> Err e | Panic \<Rightarrow> Panic)
      | Err e \<Rightarrow> Err e
      | Panic \<Rightarrow> Panic)"

definition mg_deserialize :: "(string \<Rightarrow> string option) \<Rightarrow> (multi_gas, parse_int_error) result" where
  "mg_deserialize src =
     (case fields_of src (mg_field_names @ [''refund'', ''total'']) of
        Ok vs \<Rightarrow> Ok \<lparr>mg_gas = take 9 vs, mg_total = vs ! 10, mg_refund = vs ! 9\<rparr>
      | Err e \<Rightarrow> Err e
      | Panic \<Rightarrow> Panic)"


section \<open>The total is the sum of the dimensions\<close>

definition mg_ok :: "multi_gas \<Rightarrow> bool" where
  "mg_ok m \<longleftrightarrow> length (mg_gas m) = NUM_RESOURCE_KIND \<and> sum_list (map unat (mg_gas m)) = unat (mg_total m)"

lemma kind_id_less [simp]: "kind_id k < NUM_RESOURCE_KIND"
  by (cases k) (simp_all add: NUM_RESOURCE_KIND_def)

lemma kind_id_inj [simp]: "kind_id k = kind_id k' \<longleftrightarrow> k = k'"
  by (cases k; cases k') simp_all

lemma checked_dims_those:
  "length res = n \<Longrightarrow> length x = n \<Longrightarrow> k \<le> n \<Longrightarrow>
   checked_dims f x [k..<n] res =
     map_option ((@) (take k res)) (those (map2 f (drop k res) (drop k x)))"
proof (induction "n - k" arbitrary: k res)
  case 0
  then show ?case by simp
next
  case (Suc d)
  then have k: "k < n" by simp
  have "drop k res = res ! k # drop (Suc k) res" "drop k x = x ! k # drop (Suc k) x"
    using Suc.prems k by (simp_all add: Cons_nth_drop_Suc)
  then have drops: "map2 f (drop k res) (drop k x) =
      f (res ! k) (x ! k) # map2 f (drop (Suc k) res) (drop (Suc k) x)"
    by simp
  have step: "[k..<n] = k # [Suc k..<n]"
    using k by (rule upt_conv_Cons)
  show ?case
  proof (cases "f (res ! k) (x ! k)")
    case None
    then show ?thesis by (simp add: step drops)
  next
    case (Some v)
    have "take (Suc k) (res[k := v]) = take k res @ [v]"
      using Suc.prems k by (simp add: take_Suc_conv_app_nth)
    moreover have "(@) (take k res @ [v]) = (\<lambda>r. take k res @ v # r)"
      by (rule ext) simp
    ultimately show ?thesis
      using Some Suc.hyps(1) [of "Suc k" "res[k := v]"] Suc.hyps(2) Suc.prems k
      by (simp add: step drops option.map_comp comp_def)
  qed
qed

lemma each_dim_map2:
  "length res = n \<Longrightarrow> length x = n \<Longrightarrow> k \<le> n \<Longrightarrow>
   each_dim f x [k..<n] res = take k res @ map2 f (drop k res) (drop k x)"
proof (induction "n - k" arbitrary: k res)
  case 0
  then show ?case by simp
next
  case (Suc d)
  then have k: "k < n" by simp
  have "drop k res = res ! k # drop (Suc k) res" "drop k x = x ! k # drop (Suc k) x"
    using Suc.prems k by (simp_all add: Cons_nth_drop_Suc)
  moreover have "take (Suc k) (res[k := v]) = take k res @ [v]" for v
    using Suc.prems k by (simp add: take_Suc_conv_app_nth)
  moreover have "[k..<n] = k # [Suc k..<n]"
    using k by (rule upt_conv_Cons)
  ultimately show ?case
    using Suc.hyps(1) [of "Suc k" "res[k := f (res ! k) (x ! k)]"] Suc.hyps(2) Suc.prems k by simp
qed

lemma those_total:
  "those (map2 f xs ys) = (if \<forall>(x, y) \<in> set (zip xs ys). f x y \<noteq> None
     then Some (map2 (\<lambda>x y. the (f x y)) xs ys) else None)"
  by (induction xs ys rule: list_induct2') (auto split: option.splits)

text \<open>Sums of dimensions.\<close>

lemma sum_add_dims:
  "length xs = length ys \<Longrightarrow> \<forall>(x, y) \<in> set (zip xs ys). unat x + unat y < 2 ^ 64 \<Longrightarrow>
   sum_list (map unat (map2 (+) xs ys)) = sum_list (map unat xs) + sum_list (map unat (ys :: u64 list))"
proof (induction xs ys rule: list_induct2)
  case Nil
  then show ?case by simp
next
  case (Cons x xs y ys)
  then have "unat (x + y) = unat x + unat y"
    using unat_add_lem [of x y] by simp
  with Cons show ?case by simp
qed

lemma nth_le_sum: "i < length xs \<Longrightarrow> unat (xs ! i :: u64) \<le> sum_list (map unat xs)"
  using member_le_sum_list [of "unat (xs ! i)" "map unat xs"] by simp

lemma dim_le_sum: "length xs = length ys \<Longrightarrow> (x, y) \<in> set (zip xs ys) \<Longrightarrow>
    unat x + unat y \<le> sum_list (map unat xs) + sum_list (map unat ys)"
  for x y :: u64
proof -
  assume "length xs = length ys" and "(x, y) \<in> set (zip xs ys)"
  then obtain i where "i < length xs" "i < length ys" "x = xs ! i" "y = ys ! i"
    by (auto simp: set_zip)
  then show ?thesis
    using nth_le_sum [of i xs] nth_le_sum [of i ys] by simp
qed

lemma sum_update:
  "i < length xs \<Longrightarrow> sum_list (map unat (xs[i := v])) + unat (xs ! i) = sum_list (map unat xs) + unat v"
  for v :: u64
proof (induction xs arbitrary: i)
  case Nil
  then show ?case by simp
next
  case (Cons x xs)
  then show ?case by (cases i) (simp_all add: algebra_simps)
qed

lemma safe_add_run:
  assumes a: "mg_ok a" and b: "mg_ok b"
  shows "safe_add a b =
    (if unat (mg_total a) + unat (mg_total b) < 2 ^ 64 \<and> unat (mg_refund a) + unat (mg_refund b) < 2 ^ 64
     then (\<lparr>mg_gas = map2 (+) (mg_gas a) (mg_gas b), mg_total = mg_total a + mg_total b,
            mg_refund = mg_refund a + mg_refund b\<rparr>, False)
     else (a, True))"
proof -
  let ?fits = "\<forall>(x, y) \<in> set (zip (mg_gas a) (mg_gas b)). unat x + unat y < 2 ^ 64"
  have len: "length (mg_gas a) = 9" "length (mg_gas b) = 9"
    using a b by (simp_all add: mg_ok_def NUM_RESOURCE_KIND_def)
  have small: ?fits if "unat (mg_total a) + unat (mg_total b) < 2 ^ 64"
    using that a b dim_le_sum [of "mg_gas a" "mg_gas b"] len
    by (auto simp: mg_ok_def intro: le_less_trans)
  have "checked_dims checked_add (mg_gas b) [0..<9] (mg_gas a) =
      (if ?fits then Some (map2 (+) (mg_gas a) (mg_gas b)) else None)"
    using len by (auto simp: checked_dims_those those_total checked_add_def split: if_splits)
  then show ?thesis
    using small
    by (auto simp: safe_add_def safe_op_def checked_add_def NUM_RESOURCE_KIND_def split: option.splits)
qed

lemma mg_ok_add:
  assumes a: "mg_ok a" and b: "mg_ok b" and fits: "unat (mg_total a) + unat (mg_total b) < 2 ^ 64"
  shows "mg_ok \<lparr>mg_gas = map2 (+) (mg_gas a) (mg_gas b), mg_total = mg_total a + mg_total b, mg_refund = r\<rparr>"
proof -
  have len: "length (mg_gas a) = length (mg_gas b)"
    using a b by (simp add: mg_ok_def)
  have "\<forall>(x, y) \<in> set (zip (mg_gas a) (mg_gas b)). unat x + unat y < 2 ^ 64"
    using fits a b dim_le_sum [OF len] by (auto simp: mg_ok_def intro: le_less_trans)
  from sum_add_dims [OF len this] show ?thesis
    using a b fits unat_add_lem [of "mg_total a" "mg_total b"] by (simp add: mg_ok_def)
qed

lemma safe_sub_add:
  assumes "length (mg_gas a) = 9" and "length (mg_gas b) = 9"
    and "\<forall>(x, y) \<in> set (zip (mg_gas a) (mg_gas b)). unat x + unat y < 2 ^ 64"
    and "unat (mg_total a) + unat (mg_total b) < 2 ^ 64" and "unat (mg_refund a) + unat (mg_refund b) < 2 ^ 64"
  shows "safe_sub \<lparr>mg_gas = map2 (+) (mg_gas a) (mg_gas b), mg_total = mg_total a + mg_total b,
            mg_refund = mg_refund a + mg_refund b\<rparr> b = (a, False)"
proof -
  have sub: "checked_sub (x + y) y = Some x" if "unat x + unat y < 2 ^ 64" for x y :: u64
    using that unat_add_lem [of x y] by (simp add: checked_sub_def word_le_nat_alt)
  have eq: "map2 checked_sub (map2 (+) xs ys) ys = map Some xs"
    if "length xs = length ys" "\<forall>(x, y) \<in> set (zip xs ys). unat x + unat y < 2 ^ 64" for xs ys :: "u64 list"
    using that by (induction xs ys rule: list_induct2) (simp_all add: sub)
  have those: "those (map Some xs) = Some xs" for xs :: "u64 list"
    by (induction xs) simp_all
  have "checked_dims checked_sub (mg_gas b) [0..<9] (map2 (+) (mg_gas a) (mg_gas b)) = Some (mg_gas a)"
    using assms(1,2) eq [OF _ assms(3)] by (simp add: checked_dims_those those)
  then show ?thesis
    using assms(4,5) by (simp add: safe_sub_def safe_op_def sub NUM_RESOURCE_KIND_def)
qed

text \<open>
  C34: on gas vectors whose total is the sum of the dimensions, the checked addition overflows exactly when
  the total or the refund does, returns its first argument then, and otherwise adds every dimension, keeps
  the total equal to the sum of the dimensions, and is undone by the checked subtraction.
\<close>

theorem multi_gas_checked_add:
  assumes "mg_ok a" and "mg_ok b"
  shows "case safe_add a b of (c, overflow) \<Rightarrow>
     mg_ok c \<and>
     (overflow \<longleftrightarrow> 2 ^ 64 \<le> unat (mg_total a) + unat (mg_total b) \<or> 2 ^ 64 \<le> unat (mg_refund a) + unat (mg_refund b)) \<and>
     (if overflow then c = a
      else (\<forall>k. unat (mg_get c k) = unat (mg_get a k) + unat (mg_get b k)) \<and>
           unat (single_gas c) = unat (single_gas a) + unat (single_gas b) \<and> safe_sub c b = (a, False))"
proof (cases "unat (mg_total a) + unat (mg_total b) < 2 ^ 64 \<and> unat (mg_refund a) + unat (mg_refund b) < 2 ^ 64")
  case True
  have len: "length (mg_gas a) = 9" "length (mg_gas b) = 9"
    using assms by (simp_all add: mg_ok_def NUM_RESOURCE_KIND_def)
  then have fits: "\<forall>(x, y) \<in> set (zip (mg_gas a) (mg_gas b)). unat x + unat y < 2 ^ 64"
    using True assms dim_le_sum [of "mg_gas a" "mg_gas b"] by (auto simp: mg_ok_def intro: le_less_trans)
  have get: "unat (mg_gas a ! kind_id k + mg_gas b ! kind_id k) =
      unat (mg_gas a ! kind_id k) + unat (mg_gas b ! kind_id k)" for k
  proof -
    have "kind_id k < 9" using kind_id_less [of k] by (simp add: NUM_RESOURCE_KIND_def)
    then have "(mg_gas a ! kind_id k, mg_gas b ! kind_id k) \<in> set (zip (mg_gas a) (mg_gas b))"
      using len by (auto simp: set_zip)
    with fits show ?thesis
      using unat_add_lem [of "mg_gas a ! kind_id k" "mg_gas b ! kind_id k"] by auto
  qed
  have idx: "kind_id k < 9" for k
    using kind_id_less [of k] by (simp add: NUM_RESOURCE_KIND_def)
  show ?thesis
    using True assms len get idx mg_ok_add [OF assms] safe_sub_add [OF len fits]
      unat_add_lem [of "mg_total a" "mg_total b"]
    by (simp add: safe_add_run mg_get_def single_gas_def)
next
  case False
  then have over: "2 ^ 64 \<le> unat (mg_total a) + unat (mg_total b) \<or> 2 ^ 64 \<le> unat (mg_refund a) + unat (mg_refund b)"
    by linarith
  have run: "safe_add a b = (a, True)"
    using safe_add_run [OF assms] False by simp
  show ?thesis
    unfolding run using over assms(1) by simp
qed

theorem multi_gas_checked_add_witness:
  "case safe_add (computation_gas 5) (l2_calldata_gas 7) of (c, overflow) \<Rightarrow>
     mg_ok c \<and> \<not> overflow \<and> safe_sub c (l2_calldata_gas 7) = (computation_gas 5, False)"
proof -
  have ok: "mg_ok (computation_gas 5)" "mg_ok (l2_calldata_gas 7)"
    by (simp_all add: mg_ok_def computation_gas_def l2_calldata_gas_def mg_new_def mg_zero_def
        NUM_RESOURCE_KIND_def eval_nat_numeral)
  have tot: "mg_total (computation_gas 5) = 5" "mg_total (l2_calldata_gas 7) = 7"
    "mg_refund (computation_gas 5) = 0" "mg_refund (l2_calldata_gas 7) = 0"
    by (simp_all add: computation_gas_def l2_calldata_gas_def mg_new_def mg_zero_def)
  show ?thesis
    using multi_gas_checked_add [OF ok] by (auto simp: tot split: prod.splits)
qed

section \<open>Updates of one dimension\<close>

lemma mg_ok_zero: "mg_ok mg_zero"
  by (simp add: mg_ok_def mg_zero_def sum_list_replicate)

lemma mg_ok_update:
  assumes "mg_ok m" and "unat (mg_total m) + unat v < 2 ^ 64 + unat (mg_get m k)"
  shows "mg_ok (m\<lparr>mg_gas := (mg_gas m)[kind_id k := v], mg_total := mg_total m - mg_get m k + v\<rparr>)"
    and "unat (mg_total m - mg_get m k) = unat (mg_total m) - unat (mg_get m k)"
    and "unat (mg_get m k) \<le> unat (mg_total m)"
proof -
  have k: "kind_id k < length (mg_gas m)"
    using assms(1) by (simp add: mg_ok_def)
  show le: "unat (mg_get m k) \<le> unat (mg_total m)"
    using nth_le_sum [OF k] assms(1) by (simp add: mg_ok_def mg_get_def)
  then show diff: "unat (mg_total m - mg_get m k) = unat (mg_total m) - unat (mg_get m k)"
    by (simp add: unat_sub word_le_nat_alt)
  have "unat (mg_total m - mg_get m k + v) = unat (mg_total m) - unat (mg_get m k) + unat v"
    using assms(2) le diff unat_add_lem [of "mg_total m - mg_get m k" v] by auto
  then show "mg_ok (m\<lparr>mg_gas := (mg_gas m)[kind_id k := v], mg_total := mg_total m - mg_get m k + v\<rparr>)"
    using sum_update [OF k, of v] assms(1) le by (simp add: mg_ok_def mg_get_def)
qed

lemma from_pairs_loop_total:
  "from_pairs_loop ps mg = Some m \<Longrightarrow>
   unat (mg_total m) = unat (mg_total mg) + sum_list (map (\<lambda>p. unat (snd p)) ps)"
proof (induction ps arbitrary: mg)
  case Nil
  then show ?case by simp
next
  case (Cons p ps)
  then have fits: "unat (mg_total mg) + unat (snd p) < 2 ^ 64"
    by (auto simp: checked_add_def split: if_splits)
  let ?mg = "mg\<lparr>mg_gas := (mg_gas mg)[kind_id (fst p) := snd p], mg_total := mg_total mg + snd p\<rparr>"
  have "from_pairs_loop ps ?mg = Some m"
    using Cons.prems fits by (simp add: checked_add_def)
  from Cons.IH [OF this]
  have "unat (mg_total m) = unat (mg_total mg + snd p) + sum_list (map (\<lambda>p. unat (snd p)) ps)"
    by simp
  with fits unat_add_lem [of "mg_total mg" "snd p"] show ?case by simp
qed

lemma from_pairs_loop_panics:
  "from_pairs_loop ps mg = None \<longleftrightarrow> 2 ^ 64 \<le> unat (mg_total mg) + sum_list (map (\<lambda>p. unat (snd p)) ps)"
proof (induction ps arbitrary: mg)
  case Nil
  then show ?case using unat_bound [of "mg_total mg"] by simp
next
  case (Cons p ps)
  then show ?case using unat_add_lem [of "mg_total mg" "snd p"] by (auto simp: checked_add_def)
qed

text \<open>A nonzero amount is overwritten by a later pair of the same kind.\<close>

primrec overwritten :: "(resource_kind \<times> u64) list \<Rightarrow> bool" where
  "overwritten [] = False"
| "overwritten (p # ps) = (snd p \<noteq> 0 \<and> fst p \<in> fst ` set ps \<or> overwritten ps)"

lemma overwritten_distinct: "distinct (map fst ps) \<Longrightarrow> \<not> overwritten ps"
  by (induction ps) auto

lemma from_pairs_loop_sum:
  assumes "length (mg_gas mg) = NUM_RESOURCE_KIND" and "sum_list (map unat (mg_gas mg)) \<le> unat (mg_total mg)"
    and "from_pairs_loop ps mg = Some m"
  shows "length (mg_gas m) = NUM_RESOURCE_KIND \<and> sum_list (map unat (mg_gas m)) \<le> unat (mg_total m) \<and>
    (sum_list (map unat (mg_gas m)) = unat (mg_total m) \<longleftrightarrow>
       sum_list (map unat (mg_gas mg)) = unat (mg_total mg) \<and> \<not> overwritten ps \<and> (\<forall>k \<in> fst ` set ps. mg_get mg k = 0)) \<and>
    (\<forall>k. mg_get m k = (case map_of (rev ps) k of Some v \<Rightarrow> v | None \<Rightarrow> mg_get mg k))"
  using assms
proof (induction ps arbitrary: mg)
  case Nil
  then show ?case by simp
next
  case (Cons p ps)
  obtain k v where p: "p = (k, v)" by (cases p)
  let ?mg = "mg\<lparr>mg_gas := (mg_gas mg)[kind_id k := v], mg_total := mg_total mg + v\<rparr>"
  from Cons.prems(3) p have fits: "unat (mg_total mg) + unat v < 2 ^ 64" and run: "from_pairs_loop ps ?mg = Some m"
    by (auto simp: checked_add_def split: if_splits)
  have k: "kind_id k < length (mg_gas mg)" using Cons.prems(1) by simp
  have sum: "sum_list (map unat (mg_gas ?mg)) + unat (mg_get mg k) = sum_list (map unat (mg_gas mg)) + unat v"
    using sum_update [OF k, of v] by (simp add: mg_get_def)
  have tot: "unat (mg_total ?mg) = unat (mg_total mg) + unat v"
    using fits unat_add_lem [of "mg_total mg" v] by simp
  have get: "mg_get ?mg k' = (if k' = k then v else mg_get mg k')" for k'
    using k by (simp add: mg_get_def)
  have same: "sum_list (map unat (mg_gas ?mg)) = unat (mg_total ?mg) \<longleftrightarrow>
      sum_list (map unat (mg_gas mg)) = unat (mg_total mg) \<and> mg_get mg k = 0"
    using sum tot Cons.prems(2) by (auto simp: word_unat_eq_iff)
  have "sum_list (map unat (mg_gas ?mg)) \<le> unat (mg_total ?mg)"
    using sum tot Cons.prems(2) by linarith
  from Cons.IH [OF _ this run] Cons.prems(1)
  have ih: "length (mg_gas m) = NUM_RESOURCE_KIND \<and> sum_list (map unat (mg_gas m)) \<le> unat (mg_total m) \<and>
    (sum_list (map unat (mg_gas m)) = unat (mg_total m) \<longleftrightarrow>
       sum_list (map unat (mg_gas ?mg)) = unat (mg_total ?mg) \<and> \<not> overwritten ps \<and> (\<forall>k \<in> fst ` set ps. mg_get ?mg k = 0)) \<and>
    (\<forall>k. mg_get m k = (case map_of (rev ps) k of Some v \<Rightarrow> v | None \<Rightarrow> mg_get ?mg k))" by simp
  show ?case
    using ih unfolding same get p by (auto simp: map_add_def split: option.split)
qed

text \<open>
  The operations on one dimension keep the total equal to the sum of the dimensions: setting a kind
  never wraps and overflows exactly when the new total does, incrementing overflows exactly when
  the total does and the saturating increment agrees with it otherwise.
\<close>

theorem multi_gas_one_kind:
  assumes "mg_ok m"
  shows "mg_ok (mg_new k x) \<and>
     mg_with m k x =
       (if unat (mg_total m) - unat (mg_get m k) + unat x < 2 ^ 64
        then (m\<lparr>mg_gas := (mg_gas m)[kind_id k := x], mg_total := mg_total m - mg_get m k + x\<rparr>, False)
        else (m, True)) \<and>
     mg_ok (fst (mg_with m k x)) \<and>
     safe_increment m k x =
       (if unat (mg_total m) + unat x < 2 ^ 64 then (saturating_increment m k x, False) else (m, True)) \<and>
     mg_ok (fst (safe_increment m k x))"
proof -
  have le: "unat (mg_get m k) \<le> unat (mg_total m)"
    and diff: "unat (mg_total m - mg_get m k) = unat (mg_total m) - unat (mg_get m k)"
    using mg_ok_update(2,3) [OF assms, of 0 k] unat_bound [of "mg_total m"] by simp_all
  have new: "mg_ok (mg_new k x)"
    using mg_ok_update(1) [OF mg_ok_zero, of x k] unat_bound [of x]
    by (simp add: mg_new_def mg_zero_def mg_get_def)
  have set: "mg_with m k x =
       (if unat (mg_total m) - unat (mg_get m k) + unat x < 2 ^ 64
        then (m\<lparr>mg_gas := (mg_gas m)[kind_id k := x], mg_total := mg_total m - mg_get m k + x\<rparr>, False)
        else (m, True))"
    using diff by (simp add: mg_with_def checked_add_def mg_get_def)
  have inc: "safe_increment m k x =
       (if unat (mg_total m) + unat x < 2 ^ 64 then (saturating_increment m k x, False) else (m, True))"
    using le by (simp add: safe_increment_def saturating_increment_def checked_add_def sat_add_def mg_get_def)
  have incr_ok: "mg_ok (saturating_increment m k x)" if "unat (mg_total m) + unat x < 2 ^ 64"
  proof -
    have "unat (mg_get m k + x) = unat (mg_get m k) + unat x"
      using that le unat_add_lem [of "mg_get m k" x] by simp
    then show ?thesis
      using mg_ok_update(1) [OF assms, of "mg_get m k + x" k] that le
      by (simp add: saturating_increment_def sat_add_def mg_get_def)
  qed
  show ?thesis
    using new set inc incr_ok assms le mg_ok_update(1) [OF assms, of x k] by simp
qed

theorem multi_gas_one_kind_witness:
  "mg_ok mg_zero \<and> mg_ok (fst (mg_with mg_zero SingleDim 9)) \<and>
   safe_increment mg_zero SingleDim 9 = (saturating_increment mg_zero SingleDim 9, False)"
proof -
  have "mg_total mg_zero = 0" by (simp add: mg_zero_def)
  then have "safe_increment mg_zero SingleDim 9 = (saturating_increment mg_zero SingleDim 9, False)"
    using multi_gas_one_kind [OF mg_ok_zero, of SingleDim 9] by simp
  moreover have "mg_ok (fst (mg_with mg_zero SingleDim 9))"
    using multi_gas_one_kind [OF mg_ok_zero, of SingleDim 9] by blast
  ultimately show ?thesis
    using mg_ok_zero by blast
qed

text \<open>
  C35: for any list of pairs, \<open>from_pairs\<close> panics exactly when the amounts add up to 2^64 or more. Otherwise the total
  is the sum of all amounts, while a dimension holds the last amount given for its kind only, or zero: the
  dimensions add up to at most the total, and to exactly the total if and only if no nonzero amount is followed by another
  pair of its kind; so with distinct kinds the total is the sum of the dimensions.
\<close>

theorem from_pairs_duplicate_kinds:
  "(from_pairs pairs = None \<longleftrightarrow> 2 ^ 64 \<le> sum_list (map (\<lambda>p. unat (snd p)) pairs)) \<and>
   (\<forall>m. from_pairs pairs = Some m \<longrightarrow>
      unat (mg_total m) = sum_list (map (\<lambda>p. unat (snd p)) pairs) \<and>
      (\<forall>k. mg_get m k = (case map_of (rev pairs) k of Some v \<Rightarrow> v | None \<Rightarrow> 0)) \<and>
      sum_list (map unat (mg_gas m)) \<le> unat (mg_total m) \<and>
      (mg_ok m \<longleftrightarrow> \<not> overwritten pairs) \<and> (distinct (map fst pairs) \<longrightarrow> mg_ok m))"
proof -
  have zero: "mg_get mg_zero k = 0" for k
    using kind_id_less [of k] by (simp add: mg_get_def mg_zero_def)
  have tot: "mg_total mg_zero = 0" by (simp add: mg_zero_def)
  note ok = mg_ok_zero [unfolded mg_ok_def]
  show ?thesis
    using from_pairs_loop_panics [of pairs mg_zero] from_pairs_loop_total [of pairs mg_zero]
      from_pairs_loop_sum [OF conjunct1 [OF ok] eq_refl [OF conjunct2 [OF ok]], of pairs] ok overwritten_distinct [of pairs]
    by (auto simp: from_pairs_def mg_ok_def zero tot cong: option.case_cong)
qed

theorem from_pairs_duplicate_kinds_witness:
  "\<exists>m. from_pairs [(Computation, 3), (Computation, 4)] = Some m \<and> unat (mg_total m) = 7 \<and> mg_get m Computation = 4 \<and> \<not> mg_ok m"
  using from_pairs_duplicate_kinds [of "[(Computation, 3), (Computation, 4)]"]
  by (cases "from_pairs [(Computation, 3), (Computation, 4)]") auto

section \<open>The text form reads back\<close>

lemma hex_val_digit: "d < 16 \<Longrightarrow> hex_val (hex_digit d) = Some d"
  by (auto simp: hex_val_def hex_digit_def Let_def)

lemma from_digits_hex:
  "n < 2 ^ 64 \<Longrightarrow> from_digits 0 (hex_of n @ cs) = from_digits (of_nat n) cs"
proof (induction n arbitrary: cs rule: hex_of.induct)
  case (1 n)
  show ?case
  proof (cases "n < 16")
    case True
    then show ?thesis
      by (simp add: hex_of.simps [of n] hex_val_digit)
  next
    case False
    have small: "n div 16 < 2 ^ 64" "n div 16 * 16 + n mod 16 = n"
      using 1(2) by simp_all
    have "from_digits 0 (hex_of n @ cs) = from_digits (of_nat (n div 16)) (hex_digit (n mod 16) # cs)"
      using 1(1) [OF False small(1)] False by (simp add: hex_of.simps [of n])
    also have "\<dots> = from_digits (of_nat (n div 16) * 16 + of_nat (n mod 16)) cs"
      using 1(2) small by (simp add: hex_val_digit unat_of_nat_u64)
    also have "of_nat (n div 16) * 16 + of_nat (n mod 16) = (of_nat (n div 16 * 16 + n mod 16) :: u64)"
      by (simp only: of_nat_add of_nat_mult of_nat_numeral)
    finally show ?thesis by (simp only: small(2))
  qed
qed

lemma hex_of_first: "\<exists>d cs. hex_of n = hex_digit d # cs \<and> d < 16"
proof (induction n rule: hex_of.induct)
  case (1 n)
  then show ?case by (cases "n < 16") (auto simp: hex_of.simps [of n])
qed

lemma hex_digit_neq: "d < 16 \<Longrightarrow> hex_digit d \<noteq> CHR ''+'' \<and> hex_digit d \<noteq> CHR ''-'' \<and> hex_digit d \<noteq> CHR ''x''"
  using hex_val_digit [of d] by (auto simp: hex_val_def Let_def)

lemma set_hex_of: "c \<in> set (hex_of n) \<Longrightarrow> \<exists>d < 16. c = hex_digit d"
proof (induction n rule: hex_of.induct)
  case (1 n)
  have "\<exists>d < 16. hex_digit (n mod 16) = hex_digit d"
    by (rule exI [of _ "n mod 16"]) simp
  with 1 show ?case by (cases "n < 16") (auto simp: hex_of.simps [of n])
qed

lemma trim_hex: "trim_0x (hex_of n) = hex_of n"
proof -
  have "CHR ''x'' \<notin> set (hex_of n)"
    using set_hex_of [of "CHR ''x''" n] hex_digit_neq by metis
  then show ?thesis
    by (cases "hex_of n" rule: trim_0x.cases) auto
qed

lemma hex_u64_round_trip: "hex_u64_from (hex_u64 n) = Ok n"
proof -
  obtain d cs where hex: "hex_of (unat n) = hex_digit d # cs" "d < 16"
    using hex_of_first by blast
  have "from_digits 0 (hex_of (unat n)) = Ok n"
    using from_digits_hex [of "unat n" "[]"] unat_bound [of n] by simp
  then show ?thesis
    using hex hex_digit_neq [OF hex(2)] trim_hex [of "unat n"]
    by (simp add: hex_u64_from_def hex_u64_def from_str_radix_16_def)
qed

lemma fields_of_round_trip:
  "length ns = length xs \<Longrightarrow> \<forall>i < length ns. src (ns ! i) = Some (hex_u64 (xs ! i)) \<Longrightarrow> fields_of src ns = Ok xs"
proof (induction ns xs rule: list_induct2)
  case Nil
  then show ?case by simp
next
  case (Cons n ns x xs)
  then have "src n = Some (hex_u64 x)" and "\<forall>i < length ns. src (ns ! i) = Some (hex_u64 (xs ! i))"
    by (auto dest: spec [of _ "Suc _"])
  with Cons.IH show ?case by (simp add: field_of_def hex_u64_round_trip)
qed

lemma fields_of_zip:
  "distinct ns \<Longrightarrow> length ns = length xs \<Longrightarrow> fields_of (map_of (zip ns (map hex_u64 xs))) ns = Ok xs"
  by (rule fields_of_round_trip) (auto simp: map_of_zip_nth)

lemma mg_serialize_zip:
  assumes "length (mg_gas m) = NUM_RESOURCE_KIND"
  shows "mg_serialize m = zip (mg_field_names @ [''refund'', ''total''])
     (map hex_u64 (mg_gas m @ [mg_refund m, mg_total m]))"
proof -
  have "map (\<lambda>i. hex_u64 (mg_gas m ! i)) [0..<NUM_RESOURCE_KIND] = map hex_u64 (map ((!) (mg_gas m)) [0..<length (mg_gas m)])"
    using assms by simp
  also have "\<dots> = map hex_u64 (mg_gas m)"
    by (simp only: map_nth)
  finally have "mg_serialize m = zip mg_field_names (map hex_u64 (mg_gas m)) @
      zip [''refund'', ''total''] (map hex_u64 [mg_refund m, mg_total m])"
    by (simp add: mg_serialize_def)
  moreover have "length mg_field_names = length (map hex_u64 (mg_gas m))"
    using assms by (simp add: mg_field_names_def NUM_RESOURCE_KIND_def)
  ultimately show ?thesis
    by (simp only: zip_append map_append)
qed

text \<open>
  C36: a gas vector written in its text form and read back is the same vector, whatever its
  counters are.
\<close>

theorem multi_gas_text_round_trip:
  assumes "length (mg_gas m) = NUM_RESOURCE_KIND"
  shows "mg_deserialize (map_of (mg_serialize m)) = Ok m"
proof -
  let ?ns = "mg_field_names @ [''refund'', ''total'']" and ?xs = "mg_gas m @ [mg_refund m, mg_total m]"
  have len: "length ?ns = length ?xs"
    using assms by (simp add: mg_field_names_def NUM_RESOURCE_KIND_def)
  have "distinct ?ns"
    by (simp add: mg_field_names_def)
  from fields_of_zip [OF this len] have run: "fields_of (map_of (mg_serialize m)) ?ns = Ok ?xs"
    by (simp only: mg_serialize_zip [OF assms])
  have nine: "length (mg_gas m) = 9"
    using assms by (simp add: NUM_RESOURCE_KIND_def)
  have parts: "take 9 ?xs = mg_gas m" "?xs ! 9 = mg_refund m" "?xs ! 10 = mg_total m"
    using nine by (simp_all add: nth_append)
  show ?thesis
    unfolding mg_deserialize_def run result.case parts by simp
qed

theorem multi_gas_text_round_trip_witness:
  "mg_deserialize (map_of (mg_serialize (wasm_computation_gas 0xFFFF))) = Ok (wasm_computation_gas 0xFFFF)"
  by (rule multi_gas_text_round_trip) (simp add: wasm_computation_gas_def mg_new_def mg_zero_def)

end
