(* ===== verification/Retryables.thy ===== *)
theory Retryables
  imports Queue Bytes_Storage Util
begin

text \<open>
  Retryable tickets, \<open>crates/arbos/src/retryables/mod.rs\<close>: a ticket is a subspace with seven fields
  and the calldata, and a queue holds one entry for each lifetime window a ticket still has.

  The callbacks that move and read balances are parameters: \<open>transfer_fn\<close> is a computation on the state and
  \<open>balance_of\<close> a function of it. \<open>rstore_at\<close> relates the cells to the tickets and the queue they hold.
  Every operation is shown to act on those, in the locale \<open>ticket_store\<close>, which is interpreted on the
  executor's state.
\<close>

section \<open>Constants, errors and outcomes\<close>

definition RETRYABLE_LIFETIME_SECONDS :: u64 where "RETRYABLE_LIFETIME_SECONDS = 7 * 24 * 60 * 60"
abbreviation RETRYABLE_REAP_PRICE :: u64 where "RETRYABLE_REAP_PRICE \<equiv> 58000"
abbreviation WINDOWS_LEFT_SLOAD_GAS :: u64 where "WINDOWS_LEFT_SLOAD_GAS \<equiv> 800"

abbreviation TIMEOUT_QUEUE_KEY :: bytes where "TIMEOUT_QUEUE_KEY \<equiv> [0]"
abbreviation CALLDATA_KEY :: bytes where "CALLDATA_KEY \<equiv> [1]"

abbreviation NUM_TRIES_OFFSET :: u64 where "NUM_TRIES_OFFSET \<equiv> 0"
abbreviation FROM_OFFSET :: u64 where "FROM_OFFSET \<equiv> 1"
abbreviation TO_OFFSET :: u64 where "TO_OFFSET \<equiv> 2"
abbreviation CALLVALUE_OFFSET :: u64 where "CALLVALUE_OFFSET \<equiv> 3"
abbreviation BENEFICIARY_OFFSET :: u64 where "BENEFICIARY_OFFSET \<equiv> 4"
abbreviation TIMEOUT_OFFSET :: u64 where "TIMEOUT_OFFSET \<equiv> 5"
abbreviation TIMEOUT_WINDOWS_LEFT_OFFSET :: u64 where "TIMEOUT_WINDOWS_LEFT_OFFSET \<equiv> 6"

datatype retryable_error = RE_Storage storage_error | TimeoutTooFarFuture | NoTicketWithId
  | RE_NotBeneficiary | SelfModifyingRetryable | RE_Balance balance_error

datatype 'a lookup_outcome = Found 'a | NoTicket

record 'a retryable_lookup =
  outcome :: "'a lookup_outcome"
  extra_gas :: u64

datatype cancel_outcome = Cleared u64 address | CancelNoTicket | NotBeneficiary

record cancel_lookup =
  cancel_result :: cancel_outcome
  cancel_extra_gas :: u64

section \<open>Handles\<close>

record retryable_state =
  retryables :: storage_handle
  timeout_queue :: queue
  rs_arbos_version :: u64

record retryable =
  rt_id :: u256
  rt_backing :: storage_handle
  rt_num_tries :: backed
  rt_from :: backed
  rt_to :: backed
  rt_callvalue :: backed
  rt_beneficiary :: backed
  rt_calldata :: storage_bytes
  rt_timeout :: backed
  rt_windows_left :: backed

definition initialize_retryable_state ::
  "'s backend \<Rightarrow> keccak \<Rightarrow> storage_handle \<Rightarrow> ('s, unit, retryable_error) comp" where
  "initialize_retryable_state B H sto =
     map_err RE_Storage (initialize_queue B H (open_sub_storage H sto TIMEOUT_QUEUE_KEY))"

definition open_retryable_state :: "keccak \<Rightarrow> storage_handle \<Rightarrow> u64 \<Rightarrow> retryable_state" where
  "open_retryable_state H sto arbos_version =
     \<lparr>retryables = sto, timeout_queue = open_queue H (open_sub_storage H sto TIMEOUT_QUEUE_KEY),
      rs_arbos_version = arbos_version\<rparr>"

definition internal_open :: "keccak \<Rightarrow> retryable_state \<Rightarrow> u256 \<Rightarrow> retryable" where
  "internal_open H self i =
     (let sto = open_sub_storage H (retryables self) (be_bytes 32 i);
          bk = base_key sto;
          calldata_key = base_key (open_sub_storage H sto CALLDATA_KEY)
      in \<lparr>rt_id = i, rt_backing = sto,
          rt_num_tries = backed_new H bk NUM_TRIES_OFFSET, rt_from = backed_new H bk FROM_OFFSET,
          rt_to = backed_new H bk TO_OFFSET, rt_callvalue = backed_new H bk CALLVALUE_OFFSET,
          rt_beneficiary = backed_new H bk BENEFICIARY_OFFSET,
          rt_calldata = storage_bytes_new calldata_key, rt_timeout = backed_new H bk TIMEOUT_OFFSET,
          rt_windows_left = backed_new H bk TIMEOUT_WINDOWS_LEFT_OFFSET\<rparr>)"

section \<open>A ticket\<close>

definition num_tries :: "'s backend \<Rightarrow> retryable \<Rightarrow> ('s, u64, retryable_error) comp" where
  "num_tries B r = map_err RE_Storage (uint64_get B (rt_num_tries r))"

definition increment_num_tries :: "'s backend \<Rightarrow> retryable \<Rightarrow> ('s, u64, retryable_error) comp" where
  "increment_num_tries B r =
     bnd (map_err RE_Storage (uint64_get B (rt_num_tries r))) (\<lambda>current.
     let new_val = current + 1 in
     bnd (map_err RE_Storage (uint64_set B (rt_num_tries r) new_val)) (\<lambda>_.
     ret new_val))"

definition ticket_beneficiary :: "'s backend \<Rightarrow> retryable \<Rightarrow> ('s, address, retryable_error) comp" where
  "ticket_beneficiary B r = map_err RE_Storage (addr_get B (rt_beneficiary r))"

definition calculate_timeout :: "'s backend \<Rightarrow> retryable \<Rightarrow> ('s, u64, retryable_error) comp" where
  "calculate_timeout B r =
     bnd (map_err RE_Storage (uint64_get B (rt_timeout r))) (\<lambda>timeout.
     bnd (map_err RE_Storage (uint64_get B (rt_windows_left r))) (\<lambda>windows.
     ret (timeout + windows * RETRYABLE_LIFETIME_SECONDS)))"

definition set_timeout :: "'s backend \<Rightarrow> retryable \<Rightarrow> u64 \<Rightarrow> ('s, unit, retryable_error) comp" where
  "set_timeout B r val = map_err RE_Storage (uint64_set B (rt_timeout r) val)"

definition timeout_windows_left :: "'s backend \<Rightarrow> retryable \<Rightarrow> ('s, u64, retryable_error) comp" where
  "timeout_windows_left B r = map_err RE_Storage (uint64_get B (rt_windows_left r))"

definition increment_timeout_windows :: "'s backend \<Rightarrow> retryable \<Rightarrow> ('s, u64, retryable_error) comp" where
  "increment_timeout_windows B r =
     bnd (map_err RE_Storage (uint64_get B (rt_windows_left r))) (\<lambda>current.
     let new_val = current + 1 in
     bnd (map_err RE_Storage (uint64_set B (rt_windows_left r) new_val)) (\<lambda>_.
     ret new_val))"

definition ticket_from :: "'s backend \<Rightarrow> retryable \<Rightarrow> ('s, address, retryable_error) comp" where
  "ticket_from B r = map_err RE_Storage (addr_get B (rt_from r))"

definition ticket_to :: "'s backend \<Rightarrow> retryable \<Rightarrow> ('s, address option, retryable_error) comp" where
  "ticket_to B r = map_err RE_Storage (address_or_nil_get B (rt_to r))"

definition ticket_callvalue :: "'s backend \<Rightarrow> retryable \<Rightarrow> ('s, u256, retryable_error) comp" where
  "ticket_callvalue B r = map_err RE_Storage (biguint_get B (rt_callvalue r))"

definition ticket_calldata :: "'s backend \<Rightarrow> keccak \<Rightarrow> retryable \<Rightarrow> ('s, bytes, retryable_error) comp" where
  "ticket_calldata B H r = map_err RE_Storage (bytes_get B H (rt_calldata r))"

definition calldata_size :: "'s backend \<Rightarrow> keccak \<Rightarrow> retryable \<Rightarrow> ('s, u64, retryable_error) comp" where
  "calldata_size B H r = map_err RE_Storage (bytes_size B H (rt_calldata r))"

text \<open>The retry transaction a ticket produces.\<close>

record arb_retry_tx =
  tx_chain_id :: u256
  tx_nonce :: u64
  tx_from :: address
  tx_gas_fee_cap :: u256
  tx_gas :: u64
  tx_to :: "address option"
  tx_value :: u256
  tx_data :: bytes
  tx_ticket_id :: u256
  tx_refund_to :: address
  tx_max_refund :: u256
  tx_submission_fee_refund :: u256

definition make_tx :: "'s backend \<Rightarrow> keccak \<Rightarrow> retryable \<Rightarrow> u256 \<Rightarrow> u64 \<Rightarrow> u256 \<Rightarrow> u64 \<Rightarrow> u256 \<Rightarrow> address
    \<Rightarrow> u256 \<Rightarrow> u256 \<Rightarrow> ('s, arb_retry_tx, retryable_error) comp" where
  "make_tx B H r chain tx_no fee_cap gas_limit ticket refund_addr max_ref fee_refund =
     bnd (ticket_from B r) (\<lambda>f.
     bnd (ticket_to B r) (\<lambda>t.
     bnd (ticket_callvalue B r) (\<lambda>v.
     bnd (ticket_calldata B H r) (\<lambda>d.
     ret \<lparr>tx_chain_id = chain, tx_nonce = tx_no, tx_from = f, tx_gas_fee_cap = fee_cap,
          tx_gas = gas_limit, tx_to = t, tx_value = v, tx_data = d, tx_ticket_id = ticket,
          tx_refund_to = refund_addr, tx_max_refund = max_ref,
          tx_submission_fee_refund = fee_refund\<rparr>))))"

definition clear_ticket_fields :: "'s backend \<Rightarrow> keccak \<Rightarrow> retryable \<Rightarrow> ('s, unit, retryable_error) comp" where
  "clear_ticket_fields B H r =
     (let bk = base_key (rt_backing r);
          key_slice = (if bk = 0 then [] else be_bytes 32 bk)
      in bnd (for_each [NUM_TRIES_OFFSET, FROM_OFFSET, TO_OFFSET, CALLVALUE_OFFSET, BENEFICIARY_OFFSET,
             TIMEOUT_OFFSET, TIMEOUT_WINDOWS_LEFT_OFFSET] (\<lambda>offset.
           map_err RE_Storage
             (sstore B ARBOS_STATE_ADDRESS (storage_key_map H key_slice offset) 0))) (\<lambda>_.
         map_err RE_Storage (bytes_clear B H (rt_calldata r))))"

definition words_for_bytes :: "u64 \<Rightarrow> u64" where
  "words_for_bytes n = n div 32 + (if n mod 32 = 0 then 0 else 1)"

text \<open>\<open>b"retryable escrow"\<close>.\<close>

definition escrow_prefix :: bytes where
  "escrow_prefix = map (of_nat \<circ> of_char) ''retryable escrow''"

definition retryable_escrow_address :: "keccak \<Rightarrow> u256 \<Rightarrow> address" where
  "retryable_escrow_address H ticket =
     from_be (drop 12 (be_bytes 32 (H (escrow_prefix @ be_bytes 32 ticket))))"

definition retryable_submission_fee :: "u64 \<Rightarrow> u256 \<Rightarrow> u256" where
  "retryable_submission_fee calldata_length l1_base_fee =
     (let factor = sat_add 1400 (sat_mul 6 (ucast calldata_length)) in sat_mul l1_base_fee factor)"

section \<open>The ticket store\<close>

definition create_retryable :: "'s backend \<Rightarrow> keccak \<Rightarrow> retryable_state \<Rightarrow> u256 \<Rightarrow> u64 \<Rightarrow> address
    \<Rightarrow> address option \<Rightarrow> u256 \<Rightarrow> address \<Rightarrow> bytes \<Rightarrow> ('s, retryable, retryable_error) comp" where
  "create_retryable B H self i timeout sender dest value_sent beneficiary calldata =
     (let r = internal_open H self i in
      bnd (map_err RE_Storage (uint64_set B (rt_num_tries r) 0)) (\<lambda>_.
      bnd (map_err RE_Storage (addr_set B (rt_from r) sender)) (\<lambda>_.
      bnd (map_err RE_Storage (address_or_nil_set B (rt_to r) dest)) (\<lambda>_.
      bnd (map_err RE_Storage (biguint_set B (rt_callvalue r) value_sent)) (\<lambda>_.
      bnd (map_err RE_Storage (addr_set B (rt_beneficiary r) beneficiary)) (\<lambda>_.
      bnd (map_err RE_Storage (bytes_set B H (rt_calldata r) calldata)) (\<lambda>_.
      bnd (map_err RE_Storage (uint64_set B (rt_timeout r) timeout)) (\<lambda>_.
      bnd (map_err RE_Storage (uint64_set B (rt_windows_left r) 0)) (\<lambda>_.
      bnd (map_err RE_Storage (put B H (timeout_queue self) i)) (\<lambda>_.
      ret r))))))))))"

definition open_retryable_metered :: "'s backend \<Rightarrow> keccak \<Rightarrow> retryable_state \<Rightarrow> u256 \<Rightarrow> u64
    \<Rightarrow> ('s, retryable option \<times> u64, retryable_error) comp" where
  "open_retryable_metered B H self i now =
     (let sto = open_sub_storage H (retryables self) (be_bytes 32 i); bk = base_key sto in
      bnd (map_err RE_Storage (uint64_get B (backed_new H bk TIMEOUT_OFFSET))) (\<lambda>timeout.
      if timeout = 0 then ret (None, 0)
      else if timeout < now then
        bnd (if 60 \<le> rs_arbos_version self then
               bnd (map_err RE_Storage (uint64_get B (backed_new H bk TIMEOUT_WINDOWS_LEFT_OFFSET))) (\<lambda>windows_left.
               ret (WINDOWS_LEFT_SLOAD_GAS,
                    sat_add timeout (sat_mul windows_left RETRYABLE_LIFETIME_SECONDS)))
             else ret (0, timeout)) (\<lambda>(gas, effective_timeout).
        if effective_timeout < now then ret (None, gas)
        else ret (Some (internal_open H self i), gas))
      else ret (Some (internal_open H self i), 0)))"

definition open_retryable :: "'s backend \<Rightarrow> keccak \<Rightarrow> retryable_state \<Rightarrow> u256 \<Rightarrow> u64
    \<Rightarrow> ('s, retryable option, retryable_error) comp" where
  "open_retryable B H self i now = bnd (open_retryable_metered B H self i now) (\<lambda>(r, _). ret r)"

definition retryable_size_bytes :: "'s backend \<Rightarrow> keccak \<Rightarrow> retryable_state \<Rightarrow> u256 \<Rightarrow> u64
    \<Rightarrow> ('s, u64, retryable_error) comp" where
  "retryable_size_bytes B H self i now =
     bnd (open_retryable B H self i now) (\<lambda>opened.
     case opened of
       None \<Rightarrow> ret 0
     | Some r \<Rightarrow>
         bnd (calldata_size B H r) (\<lambda>n.
         let calldata_slots = 32 + 32 * words_for_bytes n in
         ret (6 * 32 + calldata_slots)))"

definition delete_retryable :: "'s backend \<Rightarrow> keccak \<Rightarrow> retryable_state \<Rightarrow> u256
    \<Rightarrow> (address \<Rightarrow> address \<Rightarrow> u256 \<Rightarrow> ('s, unit, balance_error) comp) \<Rightarrow> (address \<Rightarrow> 's \<Rightarrow> u256)
    \<Rightarrow> ('s, bool, retryable_error) comp" where
  "delete_retryable B H self i transfer_fn balance_of =
     (let r = internal_open H self i in
      bnd (map_err RE_Storage (uint64_get B (rt_timeout r))) (\<lambda>timeout.
      if timeout = 0 then ret False else
      bnd (map_err RE_Storage (addr_get B (rt_beneficiary r))) (\<lambda>beneficiary_address.
      let escrow_address = retryable_escrow_address H i in
      bnd (\<lambda>s. (Ok (balance_of escrow_address s), s)) (\<lambda>amount.
      bnd (map_err RE_Balance (transfer_fn escrow_address beneficiary_address amount)) (\<lambda>_.
      bnd (clear_ticket_fields B H r) (\<lambda>_.
      ret True))))))"

definition lookup_with :: "('s, retryable option \<times> u64, retryable_error) comp
    \<Rightarrow> (retryable \<Rightarrow> ('s, 'a, retryable_error) comp) \<Rightarrow> ('s, 'a retryable_lookup, retryable_error) comp" where
  "lookup_with opening f =
     bnd opening (\<lambda>(opened, gas).
     bnd (case opened of Some r \<Rightarrow> bnd (f r) (\<lambda>x. ret (Found x)) | None \<Rightarrow> ret NoTicket) (\<lambda>out.
     ret \<lparr>outcome = out, extra_gas = gas\<rparr>))"

definition get_timeout :: "'s backend \<Rightarrow> keccak \<Rightarrow> retryable_state \<Rightarrow> u256 \<Rightarrow> u64
    \<Rightarrow> ('s, u64 retryable_lookup, retryable_error) comp" where
  "get_timeout B H self i now = lookup_with (open_retryable_metered B H self i now) (calculate_timeout B)"

definition get_beneficiary :: "'s backend \<Rightarrow> keccak \<Rightarrow> retryable_state \<Rightarrow> u256 \<Rightarrow> u64
    \<Rightarrow> ('s, address retryable_lookup, retryable_error) comp" where
  "get_beneficiary B H self i now = lookup_with (open_retryable_metered B H self i now) (ticket_beneficiary B)"

definition calldata_size_for :: "'s backend \<Rightarrow> keccak \<Rightarrow> retryable_state \<Rightarrow> u256 \<Rightarrow> u64
    \<Rightarrow> ('s, u64 \<times> u64, retryable_error) comp" where
  "calldata_size_for B H self i now =
     bnd (open_retryable_metered B H self i now) (\<lambda>(opened, gas).
     bnd (case opened of Some r \<Rightarrow> calldata_size B H r | None \<Rightarrow> ret 0) (\<lambda>n.
     ret (n, gas)))"

definition increment_num_tries_for :: "'s backend \<Rightarrow> keccak \<Rightarrow> retryable_state \<Rightarrow> u256 \<Rightarrow> u64
    \<Rightarrow> ('s, u64 retryable_lookup, retryable_error) comp" where
  "increment_num_tries_for B H self i now =
     lookup_with (open_retryable_metered B H self i now)
       (\<lambda>r. bnd (increment_num_tries B r) (\<lambda>n. ret (n - 1)))"

definition keepalive :: "'s backend \<Rightarrow> keccak \<Rightarrow> retryable_state \<Rightarrow> u256 \<Rightarrow> u64 \<Rightarrow> u64 \<Rightarrow> u64
    \<Rightarrow> ('s, u64 retryable_lookup, retryable_error) comp" where
  "keepalive B H self i now limit_before_add time_to_add =
     bnd (open_retryable_metered B H self i now) (\<lambda>(opened, gas).
     case opened of
       None \<Rightarrow> ret \<lparr>outcome = NoTicket, extra_gas = gas\<rparr>
     | Some r \<Rightarrow>
         bnd (calculate_timeout B r) (\<lambda>timeout.
         if limit_before_add < timeout then throw TimeoutTooFarFuture else
         bnd (map_err RE_Storage (put B H (timeout_queue self) (rt_id r))) (\<lambda>_.
         bnd (increment_timeout_windows B r) (\<lambda>_.
         ret \<lparr>outcome = Found (timeout + RETRYABLE_LIFETIME_SECONDS), extra_gas = gas\<rparr>))))"

definition cancel :: "'s backend \<Rightarrow> keccak \<Rightarrow> retryable_state \<Rightarrow> u256 \<Rightarrow> address \<Rightarrow> u64
    \<Rightarrow> ('s, cancel_lookup, retryable_error) comp" where
  "cancel B H self i caller now =
     bnd (open_retryable_metered B H self i now) (\<lambda>(opened, gas).
     case opened of
       None \<Rightarrow> ret \<lparr>cancel_result = CancelNoTicket, cancel_extra_gas = gas\<rparr>
     | Some r \<Rightarrow>
         bnd (ticket_beneficiary B r) (\<lambda>beneficiary.
         if caller \<noteq> beneficiary then ret \<lparr>cancel_result = NotBeneficiary, cancel_extra_gas = gas\<rparr> else
         bnd (calldata_size B H r) (\<lambda>n.
         bnd (clear_ticket_fields B H r) (\<lambda>_.
         ret \<lparr>cancel_result = Cleared n beneficiary, cancel_extra_gas = gas\<rparr>))))"

definition try_to_reap_one_retryable :: "'s backend \<Rightarrow> keccak \<Rightarrow> retryable_state \<Rightarrow> u64
    \<Rightarrow> (address \<Rightarrow> address \<Rightarrow> u256 \<Rightarrow> ('s, unit, balance_error) comp) \<Rightarrow> (address \<Rightarrow> 's \<Rightarrow> u256)
    \<Rightarrow> ('s, unit, retryable_error) comp" where
  "try_to_reap_one_retryable B H self now transfer_fn balance_of =
     bnd (map_err RE_Storage (peek B H (timeout_queue self))) (\<lambda>head.
     case head of
       None \<Rightarrow> ret ()
     | Some i \<Rightarrow>
         let ret_storage = open_sub_storage H (retryables self) (be_bytes 32 i);
             timeout_storage = backed_new H (base_key ret_storage) TIMEOUT_OFFSET;
             windows_left_storage = backed_new H (base_key ret_storage) TIMEOUT_WINDOWS_LEFT_OFFSET
         in bnd (map_err RE_Storage (uint64_get B timeout_storage)) (\<lambda>timeout.
            if timeout = 0 then
              bnd (map_err RE_Storage (get B H (timeout_queue self))) (\<lambda>_. ret ())
            else
              bnd (map_err RE_Storage (uint64_get B windows_left_storage)) (\<lambda>windows_left.
              if now \<le> timeout then ret () else
              bnd (map_err RE_Storage (get B H (timeout_queue self))) (\<lambda>_.
              if windows_left = 0 then
                bnd (delete_retryable B H self i transfer_fn balance_of) (\<lambda>_. ret ())
              else
                bnd (map_err RE_Storage
                       (uint64_set B timeout_storage (timeout + RETRYABLE_LIFETIME_SECONDS))) (\<lambda>_.
                bnd (map_err RE_Storage (uint64_set B windows_left_storage (windows_left - 1))) (\<lambda>_.
                ret ()))))))"

definition retryable_queue_size :: "'s backend \<Rightarrow> retryable_state \<Rightarrow> ('s, u64, retryable_error) comp" where
  "retryable_queue_size B self = map_err RE_Storage (queue_size B (timeout_queue self))"

primrec snapshot_loop :: "'s backend \<Rightarrow> keccak \<Rightarrow> retryable_state \<Rightarrow> u64 \<Rightarrow> nat \<Rightarrow> u256 list
    \<Rightarrow> (u256 \<times> u64) list \<Rightarrow> ('s, (u256 \<times> u64) list, retryable_error) comp" where
  "snapshot_loop B H self now max_entries [] out = ret out"
| "snapshot_loop B H self now max_entries (i # is) out =
     (if max_entries \<le> length out then ret out
      else bnd (open_retryable B H self i now) (\<lambda>opened.
        case opened of
          Some r \<Rightarrow> bnd (calculate_timeout B r) (\<lambda>timeout.
            snapshot_loop B H self now max_entries is (out @ [(i, timeout)]))
        | None \<Rightarrow> snapshot_loop B H self now max_entries is out))"

definition snapshot_queue :: "'s backend \<Rightarrow> keccak \<Rightarrow> retryable_state \<Rightarrow> u64 \<Rightarrow> nat
    \<Rightarrow> ('s, (u256 \<times> u64) list, retryable_error) comp" where
  "snapshot_queue B H self now max_entries =
     bnd (queue_for_each B H RE_Storage (timeout_queue self) (\<lambda>i collected. ret (collected @ [i])) []) (\<lambda>ids.
     snapshot_loop B H self now max_entries ids [])"

section \<open>The tickets a store holds\<close>

record ticket =
  tk_tries :: u64
  tk_from :: address
  tk_to :: "address option"
  tk_callvalue :: u256
  tk_beneficiary :: address
  tk_calldata :: bytes
  tk_timeout :: u64
  tk_windows :: u64

text \<open>No ticket: every cell of the subspace is zero.\<close>

definition blank :: ticket where
  "blank = \<lparr>tk_tries = 0, tk_from = 0, tk_to = Some 0, tk_callvalue = 0, tk_beneficiary = 0,
     tk_calldata = [], tk_timeout = 0, tk_windows = 0\<rparr>"

definition new_ticket :: "u64 \<Rightarrow> address \<Rightarrow> address option \<Rightarrow> u256 \<Rightarrow> address \<Rightarrow> bytes \<Rightarrow> ticket" where
  "new_ticket timeout sender dest amount beneficiary calldata =
     \<lparr>tk_tries = 0, tk_from = sender, tk_to = dest, tk_callvalue = amount, tk_beneficiary = beneficiary,
      tk_calldata = calldata, tk_timeout = timeout, tk_windows = 0\<rparr>"

definition enc_to :: "address option \<Rightarrow> u256" where
  "enc_to t = (case t of None \<Rightarrow> nil_address_representation | Some a \<Rightarrow> ucast a)"

definition ticket_fields :: "ticket \<Rightarrow> u256 list" where
  "ticket_fields t = [ucast (tk_tries t), ucast (tk_from t), enc_to (tk_to t), tk_callvalue t,
     ucast (tk_beneficiary t), ucast (tk_timeout t), ucast (tk_windows t)]"

abbreviation tkey :: "keccak \<Rightarrow> u256 \<Rightarrow> u256 \<Rightarrow> u256" where
  "tkey H k i \<equiv> derive_sub_key H k (be_bytes 32 i)"

abbreviation ckey :: "keccak \<Rightarrow> u256 \<Rightarrow> u256 \<Rightarrow> u256" where
  "ckey H k i \<equiv> derive_sub_key H (tkey H k i) [1]"

abbreviation qkey :: "keccak \<Rightarrow> u256 \<Rightarrow> u256" where
  "qkey H k \<equiv> derive_sub_key H k [0]"

abbreviation rst :: "keccak \<Rightarrow> u256 \<Rightarrow> u64 \<Rightarrow> retryable_state" where
  "rst H k v \<equiv> open_retryable_state H (storage_new k) v"

text \<open>The subspaces of the tickets with ids in \<open>U\<close> and of the queue, which the hash keeps apart.\<close>

definition keys_ok :: "keccak \<Rightarrow> u256 \<Rightarrow> u256 set \<Rightarrow> bool" where
  "keys_ok H k U \<longleftrightarrow> inj_on (tkey H k) U \<and> inj_on (ckey H k) U \<and>
     (\<forall>i \<in> U. \<forall>j \<in> U. tkey H k i \<noteq> ckey H k j) \<and> (\<forall>i \<in> U. tkey H k i \<noteq> qkey H k \<and> ckey H k i \<noteq> qkey H k)"

definition rcells :: "keccak \<Rightarrow> u256 \<Rightarrow> u256 set \<Rightarrow> cell_id set" where
  "rcells H k U = range (at (qkey H k)) \<union> (\<Union>i \<in> U. range (at (tkey H k i)) \<union> range (at (ckey H k i)))"

definition ticket_at :: "keccak \<Rightarrow> (cell_id \<Rightarrow> u256) \<Rightarrow> u256 \<Rightarrow> u256 \<Rightarrow> ticket \<Rightarrow> bool" where
  "ticket_at H c k i t \<longleftrightarrow>
     (\<forall>j < 7. c (at (tkey H k i) (of_nat j)) = ticket_fields t ! j) \<and>
     bytes_at c (storage_bytes_new (ckey H k i)) (tk_calldata t)"

definition rstore_at :: "keccak \<Rightarrow> (cell_id \<Rightarrow> u256) \<Rightarrow> u256 \<Rightarrow> u256 set \<Rightarrow> (u256 \<Rightarrow> ticket) \<Rightarrow> nat
    \<Rightarrow> u256 list \<Rightarrow> bool" where
  "rstore_at H c k U T g q \<longleftrightarrow>
     keys_ok H k U \<and> set q \<subseteq> U \<and> queue_at c (qkey H k) g q \<and> (\<forall>i \<in> U. ticket_at H c k i (T i))"

lemma length_ticket_fields [simp]: "length (ticket_fields t) = 7"
  by (simp add: ticket_fields_def)

lemma ticket_fields_upd:
  "ticket_fields (t\<lparr>tk_tries := n\<rparr>) = (ticket_fields t)[0 := ucast n]"
  "ticket_fields (t\<lparr>tk_from := a\<rparr>) = (ticket_fields t)[1 := ucast a]"
  "ticket_fields (t\<lparr>tk_to := d\<rparr>) = (ticket_fields t)[2 := enc_to d]"
  "ticket_fields (t\<lparr>tk_callvalue := w\<rparr>) = (ticket_fields t)[3 := w]"
  "ticket_fields (t\<lparr>tk_beneficiary := a\<rparr>) = (ticket_fields t)[4 := ucast a]"
  "ticket_fields (t\<lparr>tk_timeout := n\<rparr>) = (ticket_fields t)[5 := ucast n]"
  "ticket_fields (t\<lparr>tk_windows := n\<rparr>) = (ticket_fields t)[6 := ucast n]"
  "ticket_fields (t\<lparr>tk_calldata := bs\<rparr>) = ticket_fields t"
  by (simp_all add: ticket_fields_def eval_nat_numeral)

lemma ticket_fields_nth:
  "ticket_fields t ! 0 = ucast (tk_tries t)" "ticket_fields t ! 1 = ucast (tk_from t)"
  "ticket_fields t ! 2 = enc_to (tk_to t)" "ticket_fields t ! 3 = tk_callvalue t"
  "ticket_fields t ! 4 = ucast (tk_beneficiary t)" "ticket_fields t ! 5 = ucast (tk_timeout t)"
  "ticket_fields t ! 6 = ucast (tk_windows t)"
  by (simp_all add: ticket_fields_def)

lemma enc_to_dec: "(if enc_to t = nil_address_representation then None else Some (ucast (enc_to t))) = t"
proof (cases t)
  case None
  then show ?thesis by (simp add: enc_to_def)
next
  case (Some a)
  have "unat (ucast a :: u256) < 2 ^ 160"
    using unat_bound [of a] by (simp add: unat_ucast_up)
  moreover have "unat nil_address_representation = 2 ^ 255"
    by (simp add: nil_address_representation_def)
  ultimately have "(ucast a :: u256) \<noteq> nil_address_representation"
    by auto
  then show ?thesis
    using Some by (simp add: enc_to_def ucast_down_up)
qed

lemma bytes_cell_at: "n < 2 ^ 64 \<Longrightarrow> bytes_cell (storage_bytes_new ck) n = at ck (of_nat n)"
  by (simp add: bytes_cell_def storage_bytes_new_def at_def ucast_of_nat_u64)

lemma bytes_cells_at: "bytes_cells (storage_bytes_new ck) = range (at ck)"
proof -
  have "bytes_cells (storage_bytes_new ck) = (\<lambda>n. at ck (of_nat n)) ` {..<2 ^ 64}"
    by (auto simp: bytes_cells_def bytes_cell_at)
  also have "\<dots> = at ck ` of_nat ` {..<2 ^ 64}"
    by (simp only: image_image)
  also have "of_nat ` {..<2 ^ 64} = (UNIV :: u64 set)"
  proof -
    have "x \<in> of_nat ` {..<2 ^ 64}" for x :: u64
      using unat_bound [of x] by (intro image_eqI [of _ _ "unat x"]) simp_all
    then show ?thesis by blast
  qed
  finally show ?thesis .
qed

lemma bytes_at_cong:
  assumes "\<And>off. c' (at ck off) = c (at ck off)"
  shows "bytes_at c' (storage_bytes_new ck) bs = bytes_at c (storage_bytes_new ck) bs"
proof -
  have "c' (bytes_cell (storage_bytes_new ck) n) = c (bytes_cell (storage_bytes_new ck) n)" if "n < 2 ^ 64" for n
    using assms that by (simp add: bytes_cell_at)
  then show ?thesis by (auto simp: bytes_at_def)
qed

lemma ticket_at_cong:
  assumes "\<And>off. c' (at (tkey H k i) off) = c (at (tkey H k i) off)"
    and "\<And>off. c' (at (ckey H k i) off) = c (at (ckey H k i) off)"
  shows "ticket_at H c' k i t = ticket_at H c k i t"
  using bytes_at_cong [of c' "ckey H k i" c] assms by (simp add: ticket_at_def)

lemma queue_at_cong:
  "(\<And>off. c' (at qk off) = c (at qk off)) \<Longrightarrow> queue_at c' qk g q = queue_at c qk g q"
  by (simp add: queue_at_def)

lemma narrow_or_zero_0 [simp]: "narrow_or_zero 0 = 0"
  by (simp add: narrow_or_zero_def)

lemma at_range [simp]: "at k off \<in> range (at k') \<longleftrightarrow> k = k'"
  by auto

lemma at_rcells: "at k' off \<in> rcells H k U \<longleftrightarrow> k' = qkey H k \<or> (\<exists>i \<in> U. k' = tkey H k i \<or> k' = ckey H k i)"
  by (auto simp: rcells_def)

lemma ranges_rcells:
  "range (at (qkey H k)) \<subseteq> rcells H k U" "i \<in> U \<Longrightarrow> range (at (tkey H k i)) \<subseteq> rcells H k U"
  "i \<in> U \<Longrightarrow> range (at (ckey H k i)) \<subseteq> rcells H k U"
  unfolding rcells_def by blast+

lemma keys_okD:
  assumes "keys_ok H k U" and "i \<in> U" and "j \<in> U"
  shows "tkey H k i = tkey H k j \<longleftrightarrow> i = j" and "ckey H k i = ckey H k j \<longleftrightarrow> i = j"
    and "tkey H k i \<noteq> ckey H k j" and "ckey H k i \<noteq> tkey H k j"
    and "tkey H k i \<noteq> qkey H k" and "ckey H k i \<noteq> qkey H k"
    and "qkey H k \<noteq> tkey H k i" and "qkey H k \<noteq> ckey H k i"
  using assms by (auto simp: keys_ok_def dest: inj_onD) metis

text \<open>A change of one ticket, and of the queue.\<close>

lemma rstore_ticketI:
  assumes "rstore_at H c k U T g q" and "i \<in> U" and "ticket_at H c' k i t"
    and "\<And>k' off. k' \<noteq> tkey H k i \<Longrightarrow> k' \<noteq> ckey H k i \<Longrightarrow> at k' off \<in> rcells H k U \<Longrightarrow>
      c' (at k' off) = c (at k' off)"
  shows "rstore_at H c' k U (T(i := t)) g q"
proof -
  have keys: "keys_ok H k U" using assms(1) by (simp add: rstore_at_def)
  have cells: "at (qkey H k) off \<in> rcells H k U" "j \<in> U \<Longrightarrow> at (tkey H k j) off \<in> rcells H k U"
    "j \<in> U \<Longrightarrow> at (ckey H k j) off \<in> rcells H k U" for j off
    by (auto simp: at_rcells)
  have "queue_at c' (qkey H k) g q = queue_at c (qkey H k) g q"
    using keys_okD [OF keys assms(2) assms(2)] by (intro queue_at_cong assms(4) cells) simp_all
  moreover have "ticket_at H c' k j (T j) = ticket_at H c k j (T j)" if "j \<in> U" "j \<noteq> i" for j
    using that keys_okD [OF keys that(1) assms(2)]
    by (intro ticket_at_cong assms(4) cells) simp_all
  ultimately show ?thesis
    using assms(1,3) by (auto simp: rstore_at_def)
qed

lemma rstore_queueI:
  assumes "rstore_at H c k U T g q" and "queue_at c' (qkey H k) g' q'" and "set q' \<subseteq> U"
    and "\<And>k' off. k' \<noteq> qkey H k \<Longrightarrow> at k' off \<in> rcells H k U \<Longrightarrow> c' (at k' off) = c (at k' off)"
  shows "rstore_at H c' k U T g' q'"
proof -
  have keys: "keys_ok H k U" using assms(1) by (simp add: rstore_at_def)
  have "ticket_at H c' k j (T j) = ticket_at H c k j (T j)" if "j \<in> U" for j
    using that keys_okD [OF keys that that] by (intro ticket_at_cong assms(4)) (auto simp: at_rcells)
  then show ?thesis
    using assms by (auto simp: rstore_at_def)
qed

text \<open>When a ticket can be opened, and the gas its opening charges.\<close>

definition live :: "u64 \<Rightarrow> u64 \<Rightarrow> ticket \<Rightarrow> bool" where
  "live v now t \<longleftrightarrow> tk_timeout t \<noteq> 0 \<and>
     (now \<le> tk_timeout t \<or>
      60 \<le> v \<and> now \<le> sat_add (tk_timeout t) (sat_mul (tk_windows t) RETRYABLE_LIFETIME_SECONDS))"

definition open_gas :: "u64 \<Rightarrow> u64 \<Rightarrow> ticket \<Rightarrow> u64" where
  "open_gas v now t =
     (if tk_timeout t \<noteq> 0 \<and> tk_timeout t < now \<and> 60 \<le> v then WINDOWS_LEFT_SLOAD_GAS else 0)"

definition end_of_life :: "ticket \<Rightarrow> u64" where
  "end_of_life t = tk_timeout t + tk_windows t * RETRYABLE_LIFETIME_SECONDS"


text \<open>What reaping does to the tickets and the queue.\<close>

definition reap_spec :: "u64 \<Rightarrow> (u256 \<Rightarrow> ticket) \<times> u256 list \<Rightarrow> (u256 \<Rightarrow> ticket) \<times> u256 list" where
  "reap_spec now Tq = (case Tq of (T, q) \<Rightarrow>
     (case q of
        [] \<Rightarrow> (T, q)
      | i # q' \<Rightarrow>
          if tk_timeout (T i) = 0 then (T, q')
          else if now \<le> tk_timeout (T i) then (T, q)
          else if tk_windows (T i) = 0 then (T(i := blank), q')
          else (T(i := (T i)\<lparr>tk_timeout := tk_timeout (T i) + RETRYABLE_LIFETIME_SECONDS,
                           tk_windows := tk_windows (T i) - 1\<rparr>), q')))"

section \<open>The operations on the store\<close>

lemma rst_simps [simp]:
  "retryables (rst H k v) = storage_new k" "timeout_queue (rst H k v) = open_queue_at H (qkey H k)"
  "rs_arbos_version (rst H k v) = v"
  by (simp_all add: open_retryable_state_def open_queue_def open_sub_storage_def storage_new_def)

lemma sub_storage_key [simp]: "base_key (open_sub_storage H (storage_new k) bs) = derive_sub_key H k bs"
  by (simp add: open_sub_storage_def storage_new_def)

lemma internal_open_rst [simp]:
  "rt_id (internal_open H (rst H k v) i) = i"
  "base_key (rt_backing (internal_open H (rst H k v) i)) = tkey H k i"
  "rt_num_tries (internal_open H (rst H k v) i) = backed_new H (tkey H k i) 0"
  "rt_from (internal_open H (rst H k v) i) = backed_new H (tkey H k i) 1"
  "rt_to (internal_open H (rst H k v) i) = backed_new H (tkey H k i) 2"
  "rt_callvalue (internal_open H (rst H k v) i) = backed_new H (tkey H k i) 3"
  "rt_beneficiary (internal_open H (rst H k v) i) = backed_new H (tkey H k i) 4"
  "rt_timeout (internal_open H (rst H k v) i) = backed_new H (tkey H k i) 5"
  "rt_windows_left (internal_open H (rst H k v) i) = backed_new H (tkey H k i) 6"
  "rt_calldata (internal_open H (rst H k v) i) = storage_bytes_new (ckey H k i)"
  by (simp_all add: internal_open_def Let_def open_sub_storage_def)
    (simp_all add: storage_new_def)

locale ticket_store = arb_store B H F ok cell poke
  for B :: "'s backend" and H F ok cell poke +
  fixes k :: u256 and U :: "u256 set" and v :: u64
  assumes footprint: "rcells H k U \<subseteq> F"
begin

abbreviation rs :: "'s \<Rightarrow> (u256 \<Rightarrow> ticket) \<Rightarrow> nat \<Rightarrow> u256 list \<Rightarrow> bool" where
  "rs s T g q \<equiv> ok s \<and> rstore_at H (cell s) k U T g q"

abbreviation around :: "'s \<Rightarrow> 's \<Rightarrow> bool" where
  "around s s' \<equiv> (\<forall>l \<in> F - rcells H k U. cell s' l = cell s l)"

lemma in_footprint: "at k' off \<in> rcells H k U \<Longrightarrow> at k' off \<in> F"
  using footprint by blast

lemma ticket_cell:
  assumes "rs s T g q" and "i \<in> U"
  shows "cell s (at (tkey H k i) 0) = ucast (tk_tries (T i))"
    and "cell s (at (tkey H k i) 1) = ucast (tk_from (T i))"
    and "cell s (at (tkey H k i) 2) = enc_to (tk_to (T i))"
    and "cell s (at (tkey H k i) 3) = tk_callvalue (T i)"
    and "cell s (at (tkey H k i) 4) = ucast (tk_beneficiary (T i))"
    and "cell s (at (tkey H k i) 5) = ucast (tk_timeout (T i))"
    and "cell s (at (tkey H k i) 6) = ucast (tk_windows (T i))"
    and "bytes_at (cell s) (storage_bytes_new (ckey H k i)) (tk_calldata (T i))"
proof -
  have *: "cell s (at (tkey H k i) (of_nat j)) = ticket_fields (T i) ! j" if "j < 7" for j
    using assms that by (simp add: rstore_at_def ticket_at_def)
  show "cell s (at (tkey H k i) 0) = ucast (tk_tries (T i))"
    and "cell s (at (tkey H k i) 1) = ucast (tk_from (T i))"
    and "cell s (at (tkey H k i) 2) = enc_to (tk_to (T i))"
    and "cell s (at (tkey H k i) 3) = tk_callvalue (T i)"
    and "cell s (at (tkey H k i) 4) = ucast (tk_beneficiary (T i))"
    and "cell s (at (tkey H k i) 5) = ucast (tk_timeout (T i))"
    and "cell s (at (tkey H k i) 6) = ucast (tk_windows (T i))"
    using * [of 0] * [of 1] * [of 2] * [of 3] * [of 4] * [of 5] * [of 6]
    by (simp_all add: ticket_fields_nth ticket_fields_nth(2) [simplified])
  show "bytes_at (cell s) (storage_bytes_new (ckey H k i)) (tk_calldata (T i))"
    using assms by (simp add: rstore_at_def ticket_at_def)
qed

text \<open>Writing one field.\<close>

lemma field_poke:
  assumes rs: "rs s T g q" and i: "i \<in> U" and j: "j < 7"
    and t: "ticket_fields t = (ticket_fields (T i))[j := w]" "tk_calldata t = tk_calldata (T i)"
  shows "rs (poke s (at (tkey H k i) (of_nat j)) w) (T(i := t)) g q"
    and "around s (poke s (at (tkey H k i) (of_nat j)) w)"
proof -
  let ?l = "at (tkey H k i) (of_nat j)"
  have ok: "ok s" and at: "rstore_at H (cell s) k U T g q" using rs by simp_all
  have l: "?l \<in> rcells H k U" using i by (auto simp: at_rcells)
  then have lF: "?l \<in> F" using footprint by blast
  have other: "cell (poke s ?l w) l' = cell s l'" if "l' \<in> F" "l' \<noteq> ?l" for l'
    using that ok lF by (simp add: cell_poke)
  have keys: "keys_ok H k U" using at by (simp add: rstore_at_def)
  have same: "cell (poke s ?l w) ?l = w"
    using ok lF by (simp add: cell_poke)
  have neq: "(of_nat m :: u64) = of_nat j \<longleftrightarrow> m = j" if "m < 7" for m
    using that j by (intro of_nat_u64_eq_iff) simp_all
  have fields: "cell (poke s ?l w) (at (tkey H k i) (of_nat m)) = ticket_fields t ! m" if m: "m < 7" for m
  proof (cases "m = j")
    case True
    then show ?thesis using same t(1) j by simp
  next
    case False
    have "at (tkey H k i) (of_nat m) \<in> F"
      using i by (intro in_footprint) (auto simp: at_rcells)
    then have "cell (poke s ?l w) (at (tkey H k i) (of_nat m)) = cell s (at (tkey H k i) (of_nat m))"
      using False neq [OF m] by (intro other) simp_all
    with False show ?thesis
      using at i m t(1) by (simp add: rstore_at_def ticket_at_def)
  qed
  have "cell (poke s ?l w) (at (ckey H k i) off) = cell s (at (ckey H k i) off)" for off
    using keys_okD [OF keys i i] i by (intro other in_footprint) (auto simp: at_rcells)
  from bytes_at_cong [of "cell (poke s ?l w)", OF this]
  have "bytes_at (cell (poke s ?l w)) (storage_bytes_new (ckey H k i)) (tk_calldata t)"
    using at i t(2) by (simp add: rstore_at_def ticket_at_def)
  with fields have "ticket_at H (cell (poke s ?l w)) k i t"
    by (simp add: ticket_at_def)
  then have "rstore_at H (cell (poke s ?l w)) k U (T(i := t)) g q"
    using i by (intro rstore_ticketI [OF at]) (auto intro!: other in_footprint)
  then show "rs (poke s ?l w) (T(i := t)) g q"
    using ok by (simp add: ok_poke)
  show "around s (poke s ?l w)"
    using l by (auto intro!: other)
qed

lemma calldata_run:
  assumes rs: "rs s T g q" and i: "i \<in> U" and ok': "ok s'"
    and at': "bytes_at (cell s') (storage_bytes_new (ckey H k i)) bs"
    and fr: "\<And>l. l \<in> F - bytes_cells (storage_bytes_new (ckey H k i)) \<Longrightarrow> cell s' l = cell s l"
  shows "rs s' (T(i := (T i)\<lparr>tk_calldata := bs\<rparr>)) g q" and "around s s'"
proof -
  have at: "rstore_at H (cell s) k U T g q" using rs by simp
  have keys: "keys_ok H k U" using at by (simp add: rstore_at_def)
  have other: "cell s' (at k' off) = cell s (at k' off)" if "k' \<noteq> ckey H k i" "at k' off \<in> rcells H k U" for k' off
    using that footprint by (intro fr) (auto simp: bytes_cells_at)
  have "cell s' (at (tkey H k i) off) = cell s (at (tkey H k i) off)" for off
    using keys_okD [OF keys i i] i by (intro other) (auto simp: at_rcells)
  then have "ticket_at H (cell s') k i ((T i)\<lparr>tk_calldata := bs\<rparr>)"
    using at i at' by (simp add: ticket_at_def rstore_at_def ticket_fields_upd)
  then show "rs s' (T(i := (T i)\<lparr>tk_calldata := bs\<rparr>)) g q"
    using ok' by (simp add: rstore_ticketI [OF at i] other)
  show "around s s'"
    using ranges_rcells(3) [OF i, of H k] fr unfolding bytes_cells_at by blast
qed

lemma calldata_cells: "i \<in> U \<Longrightarrow> bytes_cells (storage_bytes_new (ckey H k i)) \<subseteq> F"
  using footprint ranges_rcells(3) by (simp add: bytes_cells_at) blast

lemma calldata_set:
  assumes rs: "rs s T g q" and i: "i \<in> U" and "length bs < 2 ^ 64"
  obtains s' where "bytes_set B H (storage_bytes_new (ckey H k i)) bs s = (Ok (), s')"
    and "rs s' (T(i := (T i)\<lparr>tk_calldata := bs\<rparr>)) g q" and "around s s'"
proof -
  have "ok s" using rs by simp
  from bytes_set_run [OF this ticket_cell(8) [OF rs i] calldata_cells [OF i] assms(3)]
  obtain s' where s': "bytes_set B H (storage_bytes_new (ckey H k i)) bs s = (Ok (), s')" "ok s'"
    "bytes_at (cell s') (storage_bytes_new (ckey H k i)) bs"
    "\<And>l. l \<in> F - bytes_cells (storage_bytes_new (ckey H k i)) \<Longrightarrow> cell s' l = cell s l"
    by blast
  from that [OF s'(1)] calldata_run [OF rs i s'(2-4)] show thesis by blast
qed

lemma calldata_clear:
  assumes rs: "rs s T g q" and i: "i \<in> U"
  obtains s' where "bytes_clear B H (storage_bytes_new (ckey H k i)) s = (Ok (), s')"
    and "rs s' (T(i := (T i)\<lparr>tk_calldata := []\<rparr>)) g q" and "around s s'"
proof -
  have "ok s" using rs by simp
  from bytes_clear_run [OF this ticket_cell(8) [OF rs i] calldata_cells [OF i]]
  obtain s' where s': "bytes_clear B H (storage_bytes_new (ckey H k i)) s = (Ok (), s')" "ok s'"
    "bytes_at (cell s') (storage_bytes_new (ckey H k i)) []"
    "\<And>l. l \<in> F - bytes_cells (storage_bytes_new (ckey H k i)) \<Longrightarrow> cell s' l = cell s l"
    by blast
  from that [OF s'(1)] calldata_run [OF rs i s'(2-4)] show thesis by blast
qed

lemma queue_run:
  assumes rs: "rs s T g q" and ok': "ok s'" and at': "queue_at (cell s') (qkey H k) g' q'" and "set q' \<subseteq> U"
    and fr: "\<And>l. l \<in> F - queue_cells (qkey H k) \<Longrightarrow> cell s' l = cell s l"
  shows "rs s' T g' q'" and "around s s'"
proof -
  have at: "rstore_at H (cell s) k U T g q" using rs by simp
  have "cell s' (at k' off) = cell s (at k' off)" if "k' \<noteq> qkey H k" "at k' off \<in> rcells H k U" for k' off
    using that footprint by (intro fr) (auto simp: queue_cells_def)
  from rstore_queueI [OF at at' assms(4) this] show "rs s' T g' q'" using ok' by simp
  show "around s s'"
    using ranges_rcells(1) [of H k U] fr unfolding queue_cells_def by blast
qed

lemma qcells: "queue_cells (qkey H k) \<subseteq> F"
  using footprint by (auto simp: queue_cells_def rcells_def)

lemma queue_put:
  assumes rs: "rs s T g q" and "i \<in> U" and "g + length q + 1 < 2 ^ 64"
  obtains s' where "put B H (open_queue_at H (qkey H k)) i s = (Ok (), s')"
    and "rs s' T g (q @ [i])" and "around s s'"
proof -
  have "ok s" "queue_at (cell s) (qkey H k) g q" "set q \<subseteq> U"
    using rs by (simp_all add: rstore_at_def)
  from put_run [OF this(1,2) assms(3) qcells] obtain s' where s':
    "put B H (open_queue_at H (qkey H k)) i s = (Ok (), s')" "ok s'"
    "queue_at (cell s') (qkey H k) g (q @ [i])"
    "\<And>l. l \<in> F - queue_cells (qkey H k) \<Longrightarrow> cell s' l = cell s l" by blast
  have "set (q @ [i]) \<subseteq> U" using \<open>set q \<subseteq> U\<close> assms(2) by simp
  from that [OF s'(1)] queue_run [OF rs s'(2,3) this s'(4)] show thesis by blast
qed

lemma queue_get:
  assumes rs: "rs s T g (i # q)"
  obtains s' where "get B H (open_queue_at H (qkey H k)) s = (Ok (Some i), s')"
    and "rs s' T (g + 1) q" and "around s s'"
proof -
  have "ok s" "queue_at (cell s) (qkey H k) g (i # q)" "set q \<subseteq> U"
    using rs by (simp_all add: rstore_at_def)
  from get_run [OF this(1,2) qcells] obtain s' where s':
    "get B H (open_queue_at H (qkey H k)) s = (Ok (Some i), s')" "ok s'"
    "queue_at (cell s') (qkey H k) (g + 1) q"
    "\<And>l. l \<in> F - queue_cells (qkey H k) \<Longrightarrow> cell s' l = cell s l" by blast
  from that [OF s'(1)] queue_run [OF rs s'(2,3) \<open>set q \<subseteq> U\<close> s'(4)] show thesis by blast
qed

text \<open>Reading a ticket.\<close>

lemma read_runs:
  assumes rs: "rs s T g q" and i: "i \<in> U"
  defines "r \<equiv> internal_open H (rst H k v) i"
  shows "uint64_get B (rt_timeout r) s = (Ok (tk_timeout (T i)), s)"
    and "num_tries B r s = (Ok (tk_tries (T i)), s)"
    and "ticket_beneficiary B r s = (Ok (tk_beneficiary (T i)), s)"
    and "calculate_timeout B r s = (Ok (end_of_life (T i)), s)"
    and "timeout_windows_left B r s = (Ok (tk_windows (T i)), s)"
    and "ticket_from B r s = (Ok (tk_from (T i)), s)"
    and "ticket_to B r s = (Ok (tk_to (T i)), s)"
    and "ticket_callvalue B r s = (Ok (tk_callvalue (T i)), s)"
    and "ticket_calldata B H r s = (Ok (tk_calldata (T i)), s)"
    and "calldata_size B H r s = (Ok (of_nat (length (tk_calldata (T i)))), s)"
proof -
  note [simp] = ticket_cell [OF rs i]
  have ok: "ok s" using rs by simp
  have addr: "(ucast (ucast a :: u256) :: address) = a" for a :: address
    by (simp add: ucast_down_up)
  have bytes: "bytes_get B H (storage_bytes_new (ckey H k i)) s = (Ok (tk_calldata (T i)), s)"
    by (rule bytes_get_run [OF ok]) simp
  have len: "load_u64 B H (storage_bytes_new (ckey H k i)) 0 s = (Ok (of_nat (length (tk_calldata (T i)))), s)"
    by (rule load_length [OF ok]) simp
  show "uint64_get B (rt_timeout r) s = (Ok (tk_timeout (T i)), s)"
    and "num_tries B r s = (Ok (tk_tries (T i)), s)"
    and "ticket_beneficiary B r s = (Ok (tk_beneficiary (T i)), s)"
    and "calculate_timeout B r s = (Ok (end_of_life (T i)), s)"
    and "timeout_windows_left B r s = (Ok (tk_windows (T i)), s)"
    and "ticket_from B r s = (Ok (tk_from (T i)), s)"
    and "ticket_to B r s = (Ok (tk_to (T i)), s)"
    and "ticket_callvalue B r s = (Ok (tk_callvalue (T i)), s)"
    and "ticket_calldata B H r s = (Ok (tk_calldata (T i)), s)"
    and "calldata_size B H r s = (Ok (of_nat (length (tk_calldata (T i)))), s)"
    using ok
    by (simp_all add: r_def run_simps store_simps num_tries_def ticket_beneficiary_def calculate_timeout_def
        timeout_windows_left_def ticket_from_def ticket_to_def ticket_callvalue_def ticket_calldata_def
        calldata_size_def bytes_size_def end_of_life_def Let_def enc_to_dec addr bytes len)
qed

lemma open_run:
  assumes rs: "rs s T g q" and i: "i \<in> U"
  shows "open_retryable_metered B H (rst H k v) i now s =
     (Ok (if live v now (T i) then Some (internal_open H (rst H k v) i) else None, open_gas v now (T i)), s)"
proof -
  have ok: "ok s" using rs by simp
  note defs = open_retryable_metered_def Let_def run_simps store_simps ticket_cell [OF rs i]
    live_def open_gas_def
  consider "tk_timeout (T i) = 0" | "tk_timeout (T i) \<noteq> 0" "now \<le> tk_timeout (T i)"
    | "tk_timeout (T i) \<noteq> 0" "tk_timeout (T i) < now" by force
  then show ?thesis
    by cases (use ok in \<open>simp_all add: defs not_le leD\<close>)
qed

text \<open>Changing a ticket.\<close>

lemma clear_run:
  assumes rs: "rs s T g q" and i: "i \<in> U"
  obtains s' where "clear_ticket_fields B H (internal_open H (rst H k v) i) s = (Ok (), s')"
    and "rs s' (T(i := blank)) g q" and "around s s'"
proof -
  let ?k = "tkey H k i"
  define s1 where "s1 = poke s (at ?k 0) 0"
  define s2 where "s2 = poke s1 (at ?k 1) 0"
  define s3 where "s3 = poke s2 (at ?k 2) 0"
  define s4 where "s4 = poke s3 (at ?k 3) 0"
  define s5 where "s5 = poke s4 (at ?k 4) 0"
  define s6 where "s6 = poke s5 (at ?k 5) 0"
  define s7 where "s7 = poke s6 (at ?k 6) 0"
  let ?t1 = "(T i)\<lparr>tk_tries := 0\<rparr>"
  let ?t2 = "?t1\<lparr>tk_from := 0\<rparr>"
  let ?t3 = "?t2\<lparr>tk_to := Some 0\<rparr>"
  let ?t4 = "?t3\<lparr>tk_callvalue := 0\<rparr>"
  let ?t5 = "?t4\<lparr>tk_beneficiary := 0\<rparr>"
  let ?t6 = "?t5\<lparr>tk_timeout := 0\<rparr>"
  let ?t7 = "?t6\<lparr>tk_windows := 0\<rparr>"
  have nil: "enc_to (Some 0) = 0" by (simp add: enc_to_def)
  have 1: "rs s1 (T(i := ?t1)) g q" "around s s1"
    using field_poke [OF rs i, of 0 ?t1 0] by (simp_all add: s1_def ticket_fields_upd)
  have 2: "rs s2 (T(i := ?t2)) g q" "around s1 s2"
    using field_poke [OF 1(1) i, of 1 ?t2 0] by (simp_all add: s2_def ticket_fields_upd)
  have 3: "rs s3 (T(i := ?t3)) g q" "around s2 s3"
    using field_poke [OF 2(1) i, of 2 ?t3 0] by (simp_all add: s3_def ticket_fields_upd nil)
  have 4: "rs s4 (T(i := ?t4)) g q" "around s3 s4"
    using field_poke [OF 3(1) i, of 3 ?t4 0] by (simp_all add: s4_def ticket_fields_upd)
  have 5: "rs s5 (T(i := ?t5)) g q" "around s4 s5"
    using field_poke [OF 4(1) i, of 4 ?t5 0] by (simp_all add: s5_def ticket_fields_upd)
  have 6: "rs s6 (T(i := ?t6)) g q" "around s5 s6"
    using field_poke [OF 5(1) i, of 5 ?t6 0] by (simp_all add: s6_def ticket_fields_upd)
  have 7: "rs s7 (T(i := ?t7)) g q" "around s6 s7"
    using field_poke [OF 6(1) i, of 6 ?t7 0] by (simp_all add: s7_def ticket_fields_upd)
  obtain s' where s': "bytes_clear B H (storage_bytes_new (ckey H k i)) s7 = (Ok (), s')"
    "rs s' (T(i := ?t7\<lparr>tk_calldata := []\<rparr>)) g q" "around s7 s'"
    using calldata_clear [OF 7(1) i] by auto
  have blank: "?t7\<lparr>tk_calldata := []\<rparr> = blank"
    by (simp add: blank_def)
  have slot: "sstore B ARBOS_STATE_ADDRESS (storage_key_map H (if ?k = 0 then [] else be_bytes 32 ?k) off) 0 x =
      (Ok (), poke x (at ?k off) 0)" if "ok x" for x off
    using sstore_cell [OF that, of ARBOS_STATE_ADDRESS ?k "ucast off" 0]
    by (simp add: slot_def storage_key_def storage_key_map_ucast at_def)
  have "clear_ticket_fields B H (internal_open H (rst H k v) i) s = (Ok (), s')"
    using rs 1(1) 2(1) 3(1) 4(1) 5(1) 6(1) s'(1)
    by (simp add: clear_ticket_fields_def Let_def run_simps slot
        flip: s1_def s2_def s3_def s4_def s5_def s6_def s7_def)
  then show thesis
    using that s'(2,3) 1(2) 2(2) 3(2) 4(2) 5(2) 6(2) 7(2) by (simp add: blank)
qed

lemma create_run:
  assumes rs: "rs s T g q" and i: "i \<in> U" and len: "length calldata < 2 ^ 64" and room: "g + length q + 1 < 2 ^ 64"
  obtains s' where "create_retryable B H (rst H k v) i timeout sender dest amount beneficiary calldata s =
      (Ok (internal_open H (rst H k v) i), s')"
    and "rs s' (T(i := new_ticket timeout sender dest amount beneficiary calldata)) g (q @ [i])"
    and "around s s'"
proof -
  let ?k = "tkey H k i"
  define s1 where "s1 = poke s (at ?k 0) 0"
  define s2 where "s2 = poke s1 (at ?k 1) (ucast sender)"
  define s3 where "s3 = poke s2 (at ?k 2) (enc_to dest)"
  define s4 where "s4 = poke s3 (at ?k 3) amount"
  define s5 where "s5 = poke s4 (at ?k 4) (ucast beneficiary)"
  let ?t1 = "(T i)\<lparr>tk_tries := 0\<rparr>"
  let ?t2 = "?t1\<lparr>tk_from := sender\<rparr>"
  let ?t3 = "?t2\<lparr>tk_to := dest\<rparr>"
  let ?t4 = "?t3\<lparr>tk_callvalue := amount\<rparr>"
  let ?t5 = "?t4\<lparr>tk_beneficiary := beneficiary\<rparr>"
  let ?t6 = "?t5\<lparr>tk_calldata := calldata\<rparr>"
  let ?t7 = "?t6\<lparr>tk_timeout := timeout\<rparr>"
  let ?t8 = "?t7\<lparr>tk_windows := 0\<rparr>"
  have 1: "rs s1 (T(i := ?t1)) g q" "around s s1"
    using field_poke [OF rs i, of 0 ?t1 0] by (simp_all add: s1_def ticket_fields_upd)
  have 2: "rs s2 (T(i := ?t2)) g q" "around s1 s2"
    using field_poke [OF 1(1) i, of 1 ?t2] by (simp_all add: s2_def ticket_fields_upd)
  have 3: "rs s3 (T(i := ?t3)) g q" "around s2 s3"
    using field_poke [OF 2(1) i, of 2 ?t3] by (simp_all add: s3_def ticket_fields_upd)
  have 4: "rs s4 (T(i := ?t4)) g q" "around s3 s4"
    using field_poke [OF 3(1) i, of 3 ?t4] by (simp_all add: s4_def ticket_fields_upd)
  have 5: "rs s5 (T(i := ?t5)) g q" "around s4 s5"
    using field_poke [OF 4(1) i, of 4 ?t5] by (simp_all add: s5_def ticket_fields_upd)
  obtain s6 where 6: "bytes_set B H (storage_bytes_new (ckey H k i)) calldata s5 = (Ok (), s6)"
    "rs s6 (T(i := ?t6)) g q" "around s5 s6"
    using calldata_set [OF 5(1) i len] by auto
  define s7 where "s7 = poke s6 (at ?k 5) (ucast timeout)"
  define s8 where "s8 = poke s7 (at ?k 6) 0"
  have 7: "rs s7 (T(i := ?t7)) g q" "around s6 s7"
    using field_poke [OF 6(2) i, of 5 ?t7] by (simp_all add: s7_def ticket_fields_upd)
  have 8: "rs s8 (T(i := ?t8)) g q" "around s7 s8"
    using field_poke [OF 7(1) i, of 6 ?t8] by (simp_all add: s8_def ticket_fields_upd)
  obtain s' where 9: "put B H (open_queue_at H (qkey H k)) i s8 = (Ok (), s')"
    "rs s' (T(i := ?t8)) g (q @ [i])" "around s8 s'"
    using queue_put [OF 8(1) i room] by blast
  have t: "?t8 = new_ticket timeout sender dest amount beneficiary calldata"
    by (simp add: new_ticket_def)
  have dest: "(case dest of None \<Rightarrow> nil_address_representation | Some a \<Rightarrow> ucast a) = enc_to dest"
    by (simp add: enc_to_def)
  have "create_retryable B H (rst H k v) i timeout sender dest amount beneficiary calldata s =
      (Ok (internal_open H (rst H k v) i), s')"
    using rs 1(1) 2(1) 3(1) 4(1) 5(1) 6(1,2) 7(1) 9(1)
    by (simp add: create_retryable_def Let_def run_simps store_simps dest
        flip: s1_def s2_def s3_def s4_def s5_def s7_def s8_def)
  then show thesis
    using that 9(2,3) 1(2) 2(2) 3(2) 4(2) 5(2) 6(3) 7(2) 8(2) by (simp add: t)
qed

lemma increment_run:
  assumes rs: "rs s T g q" and i: "i \<in> U"
  obtains s' where "increment_num_tries_for B H (rst H k v) i now s =
      (Ok \<lparr>outcome = if live v now (T i) then Found (tk_tries (T i)) else NoTicket,
           extra_gas = open_gas v now (T i)\<rparr>, s')"
    and "rs s' (if live v now (T i) then T(i := (T i)\<lparr>tk_tries := tk_tries (T i) + 1\<rparr>) else T) g q"
    and "around s s'"
proof (cases "live v now (T i)")
  case False
  have "increment_num_tries_for B H (rst H k v) i now s =
      (Ok \<lparr>outcome = NoTicket, extra_gas = open_gas v now (T i)\<rparr>, s)"
    using False by (simp add: increment_num_tries_for_def lookup_with_def run_simps open_run [OF rs i])
  with that [of s] False rs show thesis by simp
next
  case True
  let ?s' = "poke s (at (tkey H k i) 0) (ucast (tk_tries (T i) + 1))"
  have "rs ?s' (T(i := (T i)\<lparr>tk_tries := tk_tries (T i) + 1\<rparr>)) g q" "around s ?s'"
    using field_poke [OF rs i, of 0 "(T i)\<lparr>tk_tries := tk_tries (T i) + 1\<rparr>"] by (simp_all add: ticket_fields_upd)
  moreover have "increment_num_tries_for B H (rst H k v) i now s =
      (Ok \<lparr>outcome = Found (tk_tries (T i)), extra_gas = open_gas v now (T i)\<rparr>, ?s')"
    using True rs
    by (simp add: increment_num_tries_for_def increment_num_tries_def lookup_with_def run_simps
        open_run [OF rs i] store_simps ticket_cell [OF rs i] Let_def)
  ultimately show thesis
    using that True by simp
qed

lemma keepalive_run:
  assumes rs: "rs s T g q" and i: "i \<in> U" and live: "live v now (T i)" and limit: "end_of_life (T i) \<le> limit"
    and room: "g + length q + 1 < 2 ^ 64"
  obtains s' where "keepalive B H (rst H k v) i now limit add s =
      (Ok \<lparr>outcome = Found (end_of_life (T i) + RETRYABLE_LIFETIME_SECONDS), extra_gas = open_gas v now (T i)\<rparr>, s')"
    and "rs s' (T(i := (T i)\<lparr>tk_windows := tk_windows (T i) + 1\<rparr>)) g (q @ [i])" and "around s s'"
proof -
  obtain s1 where 1: "put B H (open_queue_at H (qkey H k)) i s = (Ok (), s1)"
    "rs s1 T g (q @ [i])" "around s s1"
    using queue_put [OF rs i room] by blast
  let ?s' = "poke s1 (at (tkey H k i) 6) (ucast (tk_windows (T i) + 1))"
  have 2: "rs ?s' (T(i := (T i)\<lparr>tk_windows := tk_windows (T i) + 1\<rparr>)) g (q @ [i])" "around s1 ?s'"
    using field_poke [OF 1(2) i, of 6 "(T i)\<lparr>tk_windows := tk_windows (T i) + 1\<rparr>"]
    by (simp_all add: ticket_fields_upd)
  have "keepalive B H (rst H k v) i now limit add s =
      (Ok \<lparr>outcome = Found (end_of_life (T i) + RETRYABLE_LIFETIME_SECONDS), extra_gas = open_gas v now (T i)\<rparr>, ?s')"
    using live limit 1(1,2)
    by (simp add: keepalive_def increment_timeout_windows_def run_simps open_run [OF rs i]
        read_runs(4) [OF rs i] store_simps ticket_cell [OF 1(2) i] Let_def not_less)
  with that 1(3) 2 show thesis by simp
qed

lemma keepalive_rejected:
  assumes rs: "rs s T g q" and i: "i \<in> U"
  shows "\<not> live v now (T i) \<Longrightarrow> keepalive B H (rst H k v) i now limit add s =
      (Ok \<lparr>outcome = NoTicket, extra_gas = open_gas v now (T i)\<rparr>, s)"
    and "live v now (T i) \<Longrightarrow> limit < end_of_life (T i) \<Longrightarrow>
      keepalive B H (rst H k v) i now limit add s = (Err TimeoutTooFarFuture, s)"
  by (simp_all add: keepalive_def run_simps open_run [OF rs i] read_runs(4) [OF rs i])

lemma cancel_run:
  assumes rs: "rs s T g q" and i: "i \<in> U"
  obtains s' where "cancel B H (rst H k v) i caller now s =
      (Ok \<lparr>cancel_result = if \<not> live v now (T i) then CancelNoTicket
             else if caller \<noteq> tk_beneficiary (T i) then NotBeneficiary
             else Cleared (of_nat (length (tk_calldata (T i)))) caller,
           cancel_extra_gas = open_gas v now (T i)\<rparr>, s')"
    and "rs s' (if live v now (T i) \<and> caller = tk_beneficiary (T i) then T(i := blank) else T) g q"
    and "around s s'"
proof (cases "live v now (T i) \<and> caller = tk_beneficiary (T i)")
  case False
  then show thesis
    using that [of s] rs
    by (auto simp: cancel_def run_simps open_run [OF rs i] read_runs(3) [OF rs i])
next
  case True
  obtain s' where "clear_ticket_fields B H (internal_open H (rst H k v) i) s = (Ok (), s')"
    "rs s' (T(i := blank)) g q" "around s s'"
    using clear_run [OF rs i] .
  with True that [of s'] show thesis
    by (simp add: cancel_def run_simps open_run [OF rs i] read_runs(3,10) [OF rs i])
qed

text \<open>Callbacks that move balances leave the cells alone.\<close>

lemma same_cells:
  assumes rs: "rs s T g q" and ok': "ok s'" and same: "\<forall>l \<in> F. cell s' l = cell s l"
  shows "rs s' T g q" and "around s s'"
proof -
  have at: "rstore_at H (cell s) k U T g q" using rs by simp
  have q: "queue_at (cell s') (qkey H k) g q" "set q \<subseteq> U"
    using at same in_footprint queue_at_cong [of "cell s'" "qkey H k" "cell s"]
    by (simp_all add: rstore_at_def at_rcells)
  have "rstore_at H (cell s') k U T g q"
    using same in_footprint by (intro rstore_queueI [OF at q]) blast
  then show "rs s' T g q" using ok' by simp
  show "around s s'" using same by blast
qed

lemma delete_run:
  assumes rs: "rs s T g q" and i: "i \<in> U" and present: "tk_timeout (T i) \<noteq> 0"
    and transfer: "xfer (retryable_escrow_address H i) (tk_beneficiary (T i))
        (bal (retryable_escrow_address H i) s) s = (Ok (), s1)"
    and s1: "ok s1" "\<forall>l \<in> F. cell s1 l = cell s l"
  obtains s' where "delete_retryable B H (rst H k v) i xfer bal s = (Ok True, s')"
    and "rs s' (T(i := blank)) g q" and "around s s'"
proof -
  note 1 = same_cells [OF rs s1]
  obtain s' where 2: "clear_ticket_fields B H (internal_open H (rst H k v) i) s1 = (Ok (), s')"
    "rs s' (T(i := blank)) g q" "around s1 s'"
    using clear_run [OF 1(1) i] .
  have "ok s" using rs by simp
  then have "delete_retryable B H (rst H k v) i xfer bal s = (Ok True, s')"
    using present transfer 2(1)
    by (simp add: delete_retryable_def run_simps store_simps ticket_cell [OF rs i] Let_def ucast_down_up)
  with that 1(2) 2 show thesis by simp
qed

lemma delete_fails:
  assumes rs: "rs s T g q" and i: "i \<in> U" and present: "tk_timeout (T i) \<noteq> 0"
    and transfer: "xfer (retryable_escrow_address H i) (tk_beneficiary (T i))
        (bal (retryable_escrow_address H i) s) s = (Err e, s1)"
  shows "delete_retryable B H (rst H k v) i xfer bal s = (Err (RE_Balance e), s1)"
  using rs present transfer
  by (simp add: delete_retryable_def run_simps store_simps ticket_cell [OF rs i] Let_def ucast_down_up)

lemma delete_missing:
  assumes rs: "rs s T g q" and i: "i \<in> U" and present: "tk_timeout (T i) = 0"
  shows "delete_retryable B H (rst H k v) i xfer bal s = (Ok False, s)"
  using rs present by (simp add: delete_retryable_def run_simps store_simps ticket_cell [OF rs i] Let_def)

lemma reap_run:
  assumes rs: "rs s T g q"
    and xfer: "\<And>a b x s. ok s \<Longrightarrow> \<exists>s'. xfer a b x s = (Ok (), s') \<and> ok s' \<and> (\<forall>l \<in> F. cell s' l = cell s l)"
  obtains s' g' where "try_to_reap_one_retryable B H (rst H k v) now xfer bal s = (Ok (), s')"
    and "rs s' (fst (reap_spec now (T, q))) g' (snd (reap_spec now (T, q)))" and "around s s'"
    and "g' + length (snd (reap_spec now (T, q))) = g + length q"
proof (cases q)
  case Nil
  with rs that [of s g] show thesis
    by (simp add: try_to_reap_one_retryable_def run_simps reap_spec_def
        peek_run [of s "qkey H k" g "[]"] rstore_at_def)
next
  case (Cons i q')
  have ok: "ok s" and i: "i \<in> U" and q: "queue_at (cell s) (qkey H k) g (i # q')"
    using rs Cons by (simp_all add: rstore_at_def)
  note head = peek_run [OF ok q, simplified]
  note cells = ticket_cell(5-7) [OF rs i]
  note rsc = rs [unfolded Cons]
  obtain s1 where 1: "get B H (open_queue_at H (qkey H k)) s = (Ok (Some i), s1)"
    "rs s1 T (g + 1) q'" "around s s1"
    using queue_get [OF rsc] .
  note defs = try_to_reap_one_retryable_def run_simps reap_spec_def head store_simps Let_def
  consider (stale) "tk_timeout (T i) = 0" | (early) "tk_timeout (T i) \<noteq> 0" "now \<le> tk_timeout (T i)"
    | (expired) "tk_timeout (T i) \<noteq> 0" "\<not> now \<le> tk_timeout (T i)" "tk_windows (T i) = 0"
    | (window) "tk_timeout (T i) \<noteq> 0" "\<not> now \<le> tk_timeout (T i)" "tk_windows (T i) \<noteq> 0"
    by blast
  then show thesis
  proof cases
    case stale
    with that [of s1 "g + 1"] 1 ok Cons show thesis by (simp add: defs cells)
  next
    case early
    with that [of s g] rs ok Cons show thesis by (simp add: defs cells)
  next
    case expired
    obtain s2 where s2: "xfer (retryable_escrow_address H i) (tk_beneficiary (T i))
        (bal (retryable_escrow_address H i) s1) s1 = (Ok (), s2)" "ok s2" "\<forall>l \<in> F. cell s2 l = cell s1 l"
      using xfer 1(2) by blast
    obtain s' where "delete_retryable B H (rst H k v) i xfer bal s1 = (Ok True, s')"
      "rs s' (T(i := blank)) (g + 1) q'" "around s1 s'"
      using delete_run [where xfer = xfer and bal = bal, OF 1(2) i expired(1) s2] .
    with that [of s' "g + 1"] 1 ok Cons expired show thesis by (simp add: defs cells)
  next
    case window
    let ?t1 = "(T i)\<lparr>tk_timeout := tk_timeout (T i) + RETRYABLE_LIFETIME_SECONDS\<rparr>"
    let ?t2 = "?t1\<lparr>tk_windows := tk_windows (T i) - 1\<rparr>"
    let ?s2 = "poke s1 (at (tkey H k i) 5) (ucast (tk_timeout (T i) + RETRYABLE_LIFETIME_SECONDS))"
    let ?s' = "poke ?s2 (at (tkey H k i) 6) (ucast (tk_windows (T i) - 1))"
    have 2: "rs ?s2 (T(i := ?t1)) (g + 1) q'" "around s1 ?s2"
      using field_poke [OF 1(2) i, of 5 ?t1] by (simp_all add: ticket_fields_upd)
    have 3: "rs ?s' (T(i := ?t2)) (g + 1) q'" "around ?s2 ?s'"
      using field_poke [OF 2(1) i, of 6 ?t2] by (simp_all add: ticket_fields_upd)
    show thesis
      using that [of ?s' "g + 1"] 1 2 3 ok Cons window by (simp add: defs cells)
  qed
qed

lemma make_tx_run:
  assumes rs: "rs s T g q" and i: "i \<in> U"
  shows "make_tx B H (internal_open H (rst H k v) i) chain n fee gas_limit ticket refund max_ref fee_ref s =
     (Ok \<lparr>tx_chain_id = chain, tx_nonce = n, tx_from = tk_from (T i), tx_gas_fee_cap = fee, tx_gas = gas_limit,
          tx_to = tk_to (T i), tx_value = tk_callvalue (T i), tx_data = tk_calldata (T i), tx_ticket_id = ticket,
          tx_refund_to = refund, tx_max_refund = max_ref, tx_submission_fee_refund = fee_ref\<rparr>, s)"
  by (simp add: make_tx_def run_simps read_runs(6-9) [OF rs i])

lemma snapshot_run:
  assumes rs: "rs s T g q"
  shows "snapshot_queue B H (rst H k v) now max_entries s =
     (Ok (take max_entries (map (\<lambda>i. (i, end_of_life (T i))) (filter (\<lambda>i. live v now (T i)) q))), s)"
proof -
  have loop: "snapshot_loop B H (rst H k v) now max_entries is out s =
      (Ok (take max_entries (out @ map (\<lambda>i. (i, end_of_life (T i))) (filter (\<lambda>i. live v now (T i)) is))), s)"
    if "set is \<subseteq> U" "length out \<le> max_entries" for "is" out
    using that
  proof (induction "is" arbitrary: out)
    case Nil
    then show ?case by (simp add: run_simps)
  next
    case (Cons i "is")
    then have i: "i \<in> U" by simp
    from Cons show ?case
      by (cases "max_entries \<le> length out"; cases "live v now (T i)")
        (simp_all add: run_simps open_retryable_def open_run [OF rs i] read_runs(4) [OF rs i] take_Cons')
  qed
  have q: "queue_at (cell s) (qkey H k) g q" "set q \<subseteq> U" and ok: "ok s"
    using rs by (simp_all add: rstore_at_def)
  have collect: "fold (\<lambda>i c. c @ [i]) q c = c @ q" for c
    by (induction q arbitrary: c) simp_all
  have "queue_for_each B H RE_Storage (open_queue_at H (qkey H k)) (\<lambda>i c. ret (c @ [i])) [] s = (Ok q, s)"
    using queue_for_each_run [OF ok q(1), of "\<lambda>i c. ret (c @ [i])" "\<lambda>i c. c @ [i]" RE_Storage "[]"]
    by (simp add: run_simps collect)
  then show ?thesis
    using loop [OF q(2), of "[]"] by (simp add: snapshot_queue_def run_simps)
qed

end

interpretation tk: ticket_store "state_backend E H" H "F \<union> rcells H k U" "state_ok E H (F \<union> rcells H k U)"
    "state_cell H" "state_poke E H" k U v
  for E H F k U v
  by unfold_locales simp

end
