(* ===== verification/Retryable_System.thy ===== *)
theory Retryable_System
  imports Retryables
begin

text \<open>
  The ticket store of \<open>Retryables\<close> as a transition system: \<open>retryable_step\<close> has one rule for each operation
  that changes the store: creating a ticket, counting a try, keeping it alive, cancelling it, deleting it after a
  successful redeem, and reaping. Every existing ticket keeps one queue entry for each window it has left and one more, and
  reaping empties a store in which everything has expired. The properties of the store are at the end.
\<close>

section \<open>The ticket store as a transition system\<close>

abbreviation store_holds :: "revm \<Rightarrow> keccak \<Rightarrow> cell_id set \<Rightarrow> u256 \<Rightarrow> u256 set \<Rightarrow> state \<Rightarrow> (u256 \<Rightarrow> ticket)
    \<Rightarrow> nat \<Rightarrow> u256 list \<Rightarrow> bool" where
  "store_holds E H F k U st T g q \<equiv>
     state_ok E H (F \<union> rcells H k U) st \<and> rstore_at H (state_cell H st) k U T g q"

text \<open>The transfer callback moves balances and does not fail, as the closures the executor passes.\<close>

definition transfer_ok :: "revm \<Rightarrow> keccak \<Rightarrow> cell_id set
    \<Rightarrow> (address \<Rightarrow> address \<Rightarrow> u256 \<Rightarrow> (state, unit, balance_error) comp) \<Rightarrow> bool" where
  "transfer_ok E H F xfer \<longleftrightarrow> (\<forall>a b x st. state_ok E H F st \<longrightarrow>
     (\<exists>st'. xfer a b x st = (Ok (), st') \<and> state_ok E H F st' \<and>
        (\<forall>l \<in> F. state_cell H st' l = state_cell H st l)))"

text \<open>One rule for each operation that changes the store. The second component collects the ids created so
  far: an id is created once. The queue's position counter has room for the entry an operation puts.\<close>

definition queue_room :: "keccak \<Rightarrow> u256 \<Rightarrow> state \<Rightarrow> bool" where
  "queue_room H k st \<longleftrightarrow> unat (state_cell H st (at (qkey H k) 0)) + 1 < 2 ^ 64"

inductive retryable_step :: "revm \<Rightarrow> keccak \<Rightarrow> u256 \<Rightarrow> u64 \<Rightarrow> u256 set
    \<Rightarrow> (address \<Rightarrow> address \<Rightarrow> u256 \<Rightarrow> (state, unit, balance_error) comp) \<Rightarrow> (address \<Rightarrow> state \<Rightarrow> u256)
    \<Rightarrow> state \<times> u256 set \<Rightarrow> state \<times> u256 set \<Rightarrow> bool" for E H k v U xfer bal where
  create_step: "i \<in> U - used \<Longrightarrow> length calldata < 2 ^ 64 \<Longrightarrow> queue_room H k st \<Longrightarrow>
    create_retryable (state_backend E H) H (rst H k v) i timeout sender dest amount beneficiary calldata st =
      (r, st') \<Longrightarrow>
    retryable_step E H k v U xfer bal (st, used) (st', insert i used)"
| increment_step: "i \<in> U \<Longrightarrow> increment_num_tries_for (state_backend E H) H (rst H k v) i now st = (r, st') \<Longrightarrow>
    retryable_step E H k v U xfer bal (st, used) (st', used)"
| keepalive_step: "i \<in> U \<Longrightarrow> queue_room H k st \<Longrightarrow>
    keepalive (state_backend E H) H (rst H k v) i now limit add st = (r, st') \<Longrightarrow>
    retryable_step E H k v U xfer bal (st, used) (st', used)"
| cancel_step: "i \<in> U \<Longrightarrow> cancel (state_backend E H) H (rst H k v) i caller now st = (r, st') \<Longrightarrow>
    retryable_step E H k v U xfer bal (st, used) (st', used)"
| delete_step: "i \<in> U \<Longrightarrow> delete_retryable (state_backend E H) H (rst H k v) i xfer bal st = (r, st') \<Longrightarrow>
    retryable_step E H k v U xfer bal (st, used) (st', used)"
| reap_step: "try_to_reap_one_retryable (state_backend E H) H (rst H k v) now xfer bal st = (r, st') \<Longrightarrow>
    retryable_step E H k v U xfer bal (st, used) (st', used)"

text \<open>Every ticket that exists has one queue entry for each window it has left, and one more.\<close>

definition queued :: "u256 set \<Rightarrow> (u256 \<Rightarrow> ticket) \<Rightarrow> u256 list \<Rightarrow> bool" where
  "queued U T q \<longleftrightarrow> (\<forall>i \<in> U. tk_timeout (T i) \<noteq> 0 \<longrightarrow> count_list q i = Suc (unat (tk_windows (T i))))"

lemma queued_create: "queued U T q \<Longrightarrow> i \<notin> set q \<Longrightarrow> tk_windows t = 0 \<Longrightarrow> queued U (T(i := t)) (q @ [i])"
  by (auto simp: queued_def)

lemma queued_update:
  "queued U T q \<Longrightarrow> tk_windows t = tk_windows (T i) \<Longrightarrow> (tk_timeout t \<noteq> 0 \<Longrightarrow> tk_timeout (T i) \<noteq> 0) \<Longrightarrow>
   queued U (T(i := t)) q"
  by (auto simp: queued_def)

lemma queued_blank: "queued U T q \<Longrightarrow> queued U (T(i := blank)) q"
  by (auto simp: queued_def blank_def)

lemma queued_keepalive:
  assumes "queued U T q" and "i \<in> U" and "tk_timeout (T i) \<noteq> 0" and "length q + 1 < 2 ^ 64"
  shows "queued U (T(i := (T i)\<lparr>tk_windows := tk_windows (T i) + 1\<rparr>)) (q @ [i])"
proof -
  have "unat (tk_windows (T i)) + 1 \<le> length q"
    using assms(1-3) count_le_length [of q i] by (auto simp: queued_def)
  then have "unat (tk_windows (T i) + 1) = unat (tk_windows (T i)) + 1"
    using assms(4) by (intro unat_plus_one) simp
  with assms show ?thesis by (auto simp: queued_def)
qed

lemma queued_reap:
  assumes "queued U T q" and "set q \<subseteq> U"
  shows "queued U (fst (reap_spec now (T, q))) (snd (reap_spec now (T, q)))"
proof (cases q)
  case Nil
  with assms show ?thesis by (simp add: reap_spec_def)
next
  case (Cons i q')
  have "unat (tk_windows (T i) - 1) = unat (tk_windows (T i)) - 1" if "tk_windows (T i) \<noteq> 0"
    using that by (simp add: unat_minus_one)
  moreover have "0 < unat (tk_windows (T i))" if "tk_windows (T i) \<noteq> 0"
    using that by (simp add: unat_gt_0)
  moreover have "count_list q j = (if j = i then Suc (count_list q' j) else count_list q' j)" for j
    using Cons by simp
  ultimately have "tk_timeout (fst (reap_spec now (T, q)) j) \<noteq> 0 \<longrightarrow>
      count_list (snd (reap_spec now (T, q))) j = Suc (unat (tk_windows (fst (reap_spec now (T, q)) j)))"
    if "j \<in> U" for j
    using assms(1) [unfolded queued_def, THEN bspec, OF that] Cons
    by (cases "j = i") (simp_all add: reap_spec_def blank_def)
  then show ?thesis by (simp add: queued_def)
qed

definition ticket_inv :: "revm \<Rightarrow> keccak \<Rightarrow> cell_id set \<Rightarrow> u256 \<Rightarrow> u256 set \<Rightarrow> state \<times> u256 set \<Rightarrow> bool" where
  "ticket_inv E H F k U c \<longleftrightarrow> (case c of (st, used) \<Rightarrow>
     state_ok E H (F \<union> rcells H k U) st \<and>
     (\<exists>T g q. rstore_at H (state_cell H st) k U T g q \<and> queued U T q \<and> set q \<subseteq> used))"

lemma queue_room_iff:
  assumes "rstore_at H c k U T g q"
  shows "unat (c (at (qkey H k) 0)) = g + length q" and "set q \<subseteq> U"
  using assms by (simp_all add: rstore_at_def queue_at_def unat_of_nat del: of_nat_add)

lemma reap_step_run:
  assumes rs: "store_holds E H F k U st T g q" and xfer: "transfer_ok E H (F \<union> rcells H k U) xfer"
  obtains s1 g1 where "try_to_reap_one_retryable (state_backend E H) H (rst H k v) now xfer bal st = (Ok (), s1)"
    and "store_holds E H F k U s1 (fst (reap_spec now (T, q))) g1 (snd (reap_spec now (T, q)))"
proof -
  have keeps: "\<exists>s'. xfer a b x s = (Ok (), s') \<and> state_ok E H (F \<union> rcells H k U) s' \<and>
      (\<forall>l \<in> F \<union> rcells H k U. state_cell H s' l = state_cell H s l)"
    if "state_ok E H (F \<union> rcells H k U) s" for a b x s
    using xfer that unfolding transfer_ok_def by blast
  show thesis
    by (rule tk.reap_run [OF rs, where xfer = xfer and v = v and now = now and bal = bal, OF keeps])
      (assumption | rule that; assumption)+
qed

lemma delete_any:
  assumes rs: "store_holds E H F k U st T g q" and i: "i \<in> U" and xfer: "transfer_ok E H (F \<union> rcells H k U) xfer"
    and run: "delete_retryable (state_backend E H) H (rst H k v) i xfer bal st = (r, st')"
  shows "store_holds E H F k U st' (if tk_timeout (T i) = 0 then T else T(i := blank)) g q"
proof (cases "tk_timeout (T i) = 0")
  case True
  then show ?thesis using tk.delete_missing [OF rs i True, of v xfer bal] run rs by simp
next
  case False
  obtain s1 where s1: "xfer (retryable_escrow_address H i) (tk_beneficiary (T i)) (bal (retryable_escrow_address H i) st) st = (Ok (), s1)"
    "state_ok E H (F \<union> rcells H k U) s1" "\<forall>l \<in> F \<union> rcells H k U. state_cell H s1 l = state_cell H st l"
    using xfer conjunct1 [OF rs] unfolding transfer_ok_def by blast
  obtain s2 where "delete_retryable (state_backend E H) H (rst H k v) i xfer bal st = (Ok True, s2)"
    "store_holds E H F k U s2 (T(i := blank)) g q"
    using tk.delete_run [OF rs i False, of xfer bal, OF s1, of v] by blast
  then show ?thesis using run False by simp
qed

lemma keepalive_any:
  assumes rs: "store_holds E H F k U st T g q" and i: "i \<in> U" and q: "queued U T q" and room: "queue_room H k st"
    and run: "keepalive (state_backend E H) H (rst H k v) i now limit add st = (r, st')"
  obtains T' g' q' where "store_holds E H F k U st' T' g' q'" and "queued U T' q'" and "set q' \<subseteq> insert i (set q)"
    and "i \<notin> set q \<Longrightarrow> set q' \<subseteq> set q"
proof (cases "live v now (T i) \<and> end_of_life (T i) \<le> limit")
  case True
  have room': "g + length q + 1 < 2 ^ 64"
    using room queue_room_iff(1) [of H "state_cell H st" k U T g q] rs by (simp add: queue_room_def)
  have present: "tk_timeout (T i) \<noteq> 0"
    using True by (simp add: live_def)
  obtain s1 where "keepalive (state_backend E H) H (rst H k v) i now limit add st =
      (Ok \<lparr>outcome = Found (end_of_life (T i) + RETRYABLE_LIFETIME_SECONDS), extra_gas = open_gas v now (T i)\<rparr>, s1)"
    "store_holds E H F k U s1 (T(i := (T i)\<lparr>tk_windows := tk_windows (T i) + 1\<rparr>)) g (q @ [i])"
    using tk.keepalive_run [OF rs i, of v now limit add] True room' by blast
  with run have "store_holds E H F k U st' (T(i := (T i)\<lparr>tk_windows := tk_windows (T i) + 1\<rparr>)) g (q @ [i])"
    by simp
  moreover have "queued U (T(i := (T i)\<lparr>tk_windows := tk_windows (T i) + 1\<rparr>)) (q @ [i])"
    using room' by (intro queued_keepalive [OF q i present]) simp
  moreover have "i \<in> set q"
    using q i present by (metis count_notin nat.distinct(1) queued_def)
  ultimately show thesis
    using that by auto
next
  case False
  then have "st' = st"
    using tk.keepalive_rejected [OF rs i, of v now limit add] run by (cases "live v now (T i)") auto
  with that [of T g q] rs q show thesis by auto
qed

lemma ticket_inv_step:
  assumes "retryable_step E H k v U xfer bal c c'" and "ticket_inv E H F k U c"
    and xfer: "transfer_ok E H (F \<union> rcells H k U) xfer"
  shows "ticket_inv E H F k U c'"
  using assms(1,2)
proof cases
  case (create_step i used calldata st timeout sender dest amount beneficiary r st')
  from assms(2) create_step(1) obtain T g q where rs: "store_holds E H F k U st T g q" and q: "queued U T q"
    and used: "set q \<subseteq> used" by (auto simp: ticket_inv_def)
  have "g + length q + 1 < 2 ^ 64"
    using create_step(5) queue_room_iff(1) [of H "state_cell H st" k U T g q] rs by (simp add: queue_room_def)
  from tk.create_run [OF rs _ create_step(4) this, of i v timeout sender dest amount beneficiary] create_step(3)
  obtain s1 where "create_retryable (state_backend E H) H (rst H k v) i timeout sender dest amount beneficiary
      calldata st = (Ok (internal_open H (rst H k v) i), s1)"
    "store_holds E H F k U s1 (T(i := new_ticket timeout sender dest amount beneficiary calldata)) g (q @ [i])"
    by blast
  with create_step(6)
  have "store_holds E H F k U st' (T(i := new_ticket timeout sender dest amount beneficiary calldata)) g (q @ [i])"
    by simp
  moreover have "queued U (T(i := new_ticket timeout sender dest amount beneficiary calldata)) (q @ [i])"
    using q used create_step(3) by (intro queued_create) (auto simp: new_ticket_def)
  moreover have "set (q @ [i]) \<subseteq> insert i used"
    using used by auto
  ultimately show ?thesis
    unfolding ticket_inv_def create_step(2) prod.case by blast
next
  case (increment_step i now st r st' used)
  from assms(2) increment_step(1) obtain T g q where rs: "store_holds E H F k U st T g q" and q: "queued U T q"
    and used: "set q \<subseteq> used" by (auto simp: ticket_inv_def)
  obtain s1 where "increment_num_tries_for (state_backend E H) H (rst H k v) i now st =
      (Ok \<lparr>outcome = if live v now (T i) then Found (tk_tries (T i)) else NoTicket,
           extra_gas = open_gas v now (T i)\<rparr>, s1)"
    "store_holds E H F k U s1 (if live v now (T i) then T(i := (T i)\<lparr>tk_tries := tk_tries (T i) + 1\<rparr>) else T) g q"
    using tk.increment_run [OF rs increment_step(3), of v now] by blast
  with increment_step(4) have "store_holds E H F k U st' (if live v now (T i) then T(i := (T i)\<lparr>tk_tries := tk_tries (T i) + 1\<rparr>) else T) g q"
    by simp
  moreover have "queued U (if live v now (T i) then T(i := (T i)\<lparr>tk_tries := tk_tries (T i) + 1\<rparr>) else T) q"
    using q queued_update [OF q, of "(T i)\<lparr>tk_tries := tk_tries (T i) + 1\<rparr>" i] by simp
  ultimately show ?thesis
    using used unfolding ticket_inv_def increment_step(2) prod.case by blast
next
  case (keepalive_step i st now limit add r st' used)
  from assms(2) keepalive_step(1) obtain T g q where rs: "store_holds E H F k U st T g q" and q: "queued U T q"
    and used: "set q \<subseteq> used" by (auto simp: ticket_inv_def)
  from keepalive_any [OF rs keepalive_step(3) q keepalive_step(4,5)] obtain T' g' q' where
    "store_holds E H F k U st' T' g' q'" "queued U T' q'" "set q' \<subseteq> used"
    using used by (metis insert_absorb subset_trans)
  then show ?thesis
    unfolding ticket_inv_def keepalive_step(2) prod.case by blast
next
  case (cancel_step i caller now st r st' used)
  from assms(2) cancel_step(1) obtain T g q where rs: "store_holds E H F k U st T g q" and q: "queued U T q"
    and used: "set q \<subseteq> used" by (auto simp: ticket_inv_def)
  obtain s1 x where "cancel (state_backend E H) H (rst H k v) i caller now st = (x, s1)"
    "store_holds E H F k U s1 (if live v now (T i) \<and> caller = tk_beneficiary (T i) then T(i := blank) else T) g q"
    using tk.cancel_run [OF rs cancel_step(3), of v caller now] by blast
  with cancel_step(4) have "store_holds E H F k U st' (if live v now (T i) \<and> caller = tk_beneficiary (T i) then T(i := blank) else T) g q"
    by simp
  moreover have "queued U (if live v now (T i) \<and> caller = tk_beneficiary (T i) then T(i := blank) else T) q"
    using q by (simp add: queued_blank)
  ultimately show ?thesis
    using used unfolding ticket_inv_def cancel_step(2) prod.case by blast
next
  case (delete_step i st r st' used)
  from assms(2) delete_step(1) obtain T g q where rs: "store_holds E H F k U st T g q" and q: "queued U T q"
    and used: "set q \<subseteq> used" by (auto simp: ticket_inv_def)
  have "queued U (if tk_timeout (T i) = 0 then T else T(i := blank)) q"
    using q by (simp add: queued_blank)
  then show ?thesis
    using delete_any [OF rs delete_step(3) xfer delete_step(4)] used unfolding ticket_inv_def delete_step(2) prod.case by blast
next
  case (reap_step now st r st' used)
  from assms(2) reap_step(1) obtain T g q where rs: "store_holds E H F k U st T g q" and q: "queued U T q"
    and used: "set q \<subseteq> used" by (auto simp: ticket_inv_def)
  have "set q \<subseteq> U" using rs by (simp add: rstore_at_def)
  from queued_reap [OF q this] have q': "queued U (fst (reap_spec now (T, q))) (snd (reap_spec now (T, q)))" .
  have "set (snd (reap_spec now (T, q))) \<subseteq> set q"
    by (auto simp: reap_spec_def split: list.splits)
  moreover obtain s1 g' where
    "try_to_reap_one_retryable (state_backend E H) H (rst H k v) now xfer bal st = (Ok (), s1)"
    "store_holds E H F k U s1 (fst (reap_spec now (T, q))) g' (snd (reap_spec now (T, q)))"
    by (rule reap_step_run [OF rs xfer])
  ultimately show ?thesis
    using used q' reap_step(3) unfolding ticket_inv_def reap_step(2) prod.case by force
qed

text \<open>Reaping with everything expired empties the queue.\<close>

primrec reap_times :: "'s backend \<Rightarrow> keccak \<Rightarrow> retryable_state \<Rightarrow> u64
    \<Rightarrow> (address \<Rightarrow> address \<Rightarrow> u256 \<Rightarrow> ('s, unit, balance_error) comp) \<Rightarrow> (address \<Rightarrow> 's \<Rightarrow> u256)
    \<Rightarrow> nat \<Rightarrow> ('s, unit, retryable_error) comp" where
  "reap_times B H self now xfer bal 0 = ret ()"
| "reap_times B H self now xfer bal (Suc n) =
     bnd (try_to_reap_one_retryable B H self now xfer bal) (\<lambda>_. reap_times B H self now xfer bal n)"

definition expired :: "u256 set \<Rightarrow> u64 \<Rightarrow> (u256 \<Rightarrow> ticket) \<Rightarrow> bool" where
  "expired U now T \<longleftrightarrow> (\<forall>i \<in> U. tk_timeout (T i) \<noteq> 0 \<longrightarrow>
     unat (tk_timeout (T i)) + unat (tk_windows (T i)) * unat RETRYABLE_LIFETIME_SECONDS < unat now)"

lemma expired_reap:
  assumes "expired U now T" and "i \<in> U"
  shows "length (snd (reap_spec now (T, i # q))) = length q"
    and "expired U now (fst (reap_spec now (T, i # q)))"
proof -
  let ?L = "unat RETRYABLE_LIFETIME_SECONDS"
  let ?t = "tk_timeout (T i)" and ?w = "tk_windows (T i)"
  have bound: "unat ?t + unat ?w * ?L < unat now" if "?t \<noteq> 0"
    using assms that by (simp add: expired_def)
  have late: "\<not> now \<le> ?t" if "?t \<noteq> 0"
    using bound [OF that] by (simp add: word_le_nat_alt)
  then show "length (snd (reap_spec now (T, i # q))) = length q"
    by (auto simp: reap_spec_def)
  have window: "unat (?t + RETRYABLE_LIFETIME_SECONDS) + unat (?w - 1) * ?L = unat ?t + unat ?w * ?L"
    if "?t \<noteq> 0" "?w \<noteq> 0"
  proof -
    have w: "unat ?w = Suc (unat (?w - 1))"
      using that(2) unat_minus_one [of ?w] by (simp add: unat_gt_0 [symmetric])
    then have "unat ?t + ?L < 2 ^ LENGTH(64)"
      using bound [OF that(1)] unat_bound [of now] by simp
    then have "unat (?t + RETRYABLE_LIFETIME_SECONDS) = unat ?t + ?L"
      by (simp only: unat_add_lem)
    with w show ?thesis by simp
  qed
  then show "expired U now (fst (reap_spec now (T, i # q)))"
    using assms late bound by (auto simp: expired_def reap_spec_def blank_def)
qed

lemma reap_all:
  assumes "store_holds E H F k U st T g q" and "queued U T q" and "expired U now T"
    and xfer: "transfer_ok E H (F \<union> rcells H k U) xfer"
  shows "\<exists>st' T' g'. reap_times (state_backend E H) H (rst H k v) now xfer bal (length q) st = (Ok (), st') \<and>
           store_holds E H F k U st' T' g' [] \<and> queued U T' []"
  using assms(1-3)
proof (induction q arbitrary: st T g rule: length_induct)
  case (1 q)
  show ?case
  proof (cases q)
    case Nil
    with 1 show ?thesis by (auto simp: run_simps)
  next
    case (Cons i q')
    have sub: "set q \<subseteq> U" using "1.prems"(1) by (simp add: rstore_at_def)
    then have i: "i \<in> U" using Cons by simp
    let ?T = "fst (reap_spec now (T, q))" and ?q = "snd (reap_spec now (T, q))"
    obtain s1 g1 where run: "try_to_reap_one_retryable (state_backend E H) H (rst H k v) now xfer bal st = (Ok (), s1)"
      and s1: "store_holds E H F k U s1 ?T g1 ?q"
      by (rule reap_step_run [OF "1.prems"(1) xfer])
    have len: "length ?q = length q'" and ex: "expired U now ?T"
      using expired_reap [OF "1.prems"(3) i, of q'] Cons by simp_all
    have "queued U ?T ?q" by (rule queued_reap [OF "1.prems"(2) sub])
    then obtain st' T' g' where "reap_times (state_backend E H) H (rst H k v) now xfer bal (length ?q) s1 = (Ok (), st')"
      "store_holds E H F k U st' T' g' []" "queued U T' []"
      using "1.IH" s1 ex len Cons by (metis length_Cons lessI)
    then show ?thesis
      using run len Cons by (auto simp: run_simps)
  qed
qed

section \<open>A sample store\<close>

text \<open>The ticket 5 with one window left and its two queue entries, in a store with ids 5 and 8.\<close>

definition sample_ticket :: ticket where
  "sample_ticket = \<lparr>tk_tries = 1, tk_from = 3, tk_to = Some 4, tk_callvalue = 8, tk_beneficiary = 9,
     tk_calldata = [], tk_timeout = 100, tk_windows = 1\<rparr>"

definition sample_tickets :: "u256 \<Rightarrow> ticket" where
  "sample_tickets i = (if i = 5 then sample_ticket else blank)"

definition sample_ticket_cells :: "u256 \<Rightarrow> u256 \<Rightarrow> u256" where
  "sample_ticket_cells k key =
     (if k = 1793 then (if key = 0 then 4 else if key = 1 then 2 else if key = 2 \<or> key = 3 then 5 else 0)
      else if k = 6 \<and> unat key < 7 then [1, 3, 4, 8, 9, 100, 1] ! unat key
      else 0)"

definition sample_transfer :: "address \<Rightarrow> address \<Rightarrow> u256 \<Rightarrow> (state, unit, balance_error) comp" where
  "sample_transfer a b x st =
     (Ok (), st\<lparr>database_basic := (\<lambda>c. Ok (Some \<lparr>
        balance = get_account_balance st c - (if c = a then x else 0) + (if c = b then x else 0),
        nonce = 0, code_hash = 0, code = None, account_id = None\<rparr>))\<rparr>)"

abbreviation sample_balance :: "address \<Rightarrow> state \<Rightarrow> u256" where
  "sample_balance a st \<equiv> get_account_balance st a"

lemma sample_tkey:
  assumes "unat i < 2 ^ 72"
  shows "tkey sample_keccak 7 i = of_nat (unat i + 1)"
proof -
  have "drop 54 (be_bytes 32 (7 :: u256) @ be_bytes 32 i) = be_bytes 10 i"
    using drop_be_bytes [of 22 10 i] by simp
  then show ?thesis
    using assms by (simp add: derive_sub_key_def storage_key_def sample_keccak_def from_be_of_nat be_nat_be_bytes)
qed

lemma sample_keys:
  "qkey sample_keccak 7 = 1793" "tkey sample_keccak 7 5 = 6" "tkey sample_keccak 7 8 = 9"
  "derive_sub_key sample_keccak 6 [1] = 1538" "derive_sub_key sample_keccak 9 [1] = 2306"
proof -
  show "qkey sample_keccak 7 = 1793" "derive_sub_key sample_keccak 6 [1] = 1538"
    "derive_sub_key sample_keccak 9 [1] = 2306"
    using unat_sub_key_sample [of 7 0] unat_sub_key_sample [of 6 1] unat_sub_key_sample [of 9 1]
    by (simp_all add: word_unat_eq_iff)
  show "tkey sample_keccak 7 5 = 6" "tkey sample_keccak 7 8 = 9"
    using sample_tkey [of 5] sample_tkey [of 8] by simp_all
qed

lemma sample_store_ok:
  "state_ok sample_revm sample_keccak ({} \<union> rcells sample_keccak 7 {5, 8}) (sample_state sample_ticket_cells)"
proof (rule state_ok_sample)
  have cells: "rcells sample_keccak 7 {5, 8} = range (at 1793) \<union> (range (at 6) \<union> range (at 1538) \<union>
      (range (at 9) \<union> range (at 2306)))"
    by (simp only: rcells_def sample_keys UN_insert UN_empty Un_empty_right)
  show "small_cell l" if "l \<in> {} \<union> rcells sample_keccak 7 {5, 8}" for l
    using that unfolding cells by auto
qed

lemma ticket_fields_blank: "ticket_fields blank = replicate 7 0"
  by (simp add: ticket_fields_def blank_def enc_to_def eval_nat_numeral)

lemma sample_store_at:
  "rstore_at sample_keccak (state_cell sample_keccak (sample_state sample_ticket_cells)) 7 {5, 8} sample_tickets 2 [5, 5]"
proof -
  let ?c = "state_cell sample_keccak (sample_state sample_ticket_cells)"
  have "queue_at ?c 1793 2 [5, 5]"
    by (simp add: queue_at_def at_sample sample_ticket_cells_def All_less_Suc)
  moreover have "bytes_at ?c (storage_bytes_new ck) []" if "ck = 1538 \<or> ck = 2306" for ck
    using that
    by (auto simp: bytes_at_def bytes_cell_at at_sample sample_ticket_cells_def words_of.simps [of "[]"]
        simp del: of_nat_Suc)
  moreover have "?c (at 6 (of_nat j)) = ticket_fields sample_ticket ! j" if "j < 7" for j
    using that
    by (simp add: at_sample sample_ticket_cells_def unat_of_nat ticket_fields_def sample_ticket_def enc_to_def
        ucast_of_nat_u64)
  moreover have "?c (at 9 (of_nat j)) = ticket_fields blank ! j" if "j < 7" for j
    using that nth_replicate [of j 7 "0 :: u256"]
    by (simp add: ticket_fields_blank at_sample sample_ticket_cells_def)
  ultimately show ?thesis
    by (simp add: rstore_at_def keys_ok_def ticket_at_def sample_keys sample_tickets_def)
      (simp add: sample_ticket_def blank_def)
qed

lemma sample_queued: "queued {5, 8} sample_tickets [5, 5]"
  by (simp add: queued_def sample_tickets_def sample_ticket_def blank_def)

lemma sample_transfer_ok: "transfer_ok E H F sample_transfer"
proof -
  have "state_cell H (st\<lparr>database_basic := f\<rparr>) l = state_cell H st l" for H st f l
    by (cases l) (simp add: state_cell.simps view_def cached_value_def bundle_value_def cong: option.case_cong)
  then show ?thesis
    by (simp add: transfer_ok_def sample_transfer_def state_ok_def db_ok_def)
qed

section \<open>The properties\<close>

text \<open>
  C1: in every state the ticket operations can reach (creation under a fresh id, counting a try, keepalive,
  cancelling, deletion after a redeem, reaping, in any order and with any arguments, with a transfer callback that
  does not fail), the storage still holds a consistent set of tickets
  and every existing ticket has exactly one entry in the timeout queue for each lifetime window it has left,
  plus one; so no ticket can escape the reaper.
\<close>

theorem retryable_queue_invariant:
  assumes "(retryable_step E H k v U xfer bal)\<^sup>*\<^sup>* c c'" and "ticket_inv E H F k U c"
    and "transfer_ok E H (F \<union> rcells H k U) xfer"
  shows "ticket_inv E H F k U c'"
  using assms(1,2) by (induction rule: rtranclp_induct) (auto intro: ticket_inv_step [OF _ _ assms(3)])

lemma retryable_queue_invariant_witness:
  "\<exists>st'. retryable_step sample_revm sample_keccak 7 60 {5, 8} sample_transfer sample_balance
           (sample_state sample_ticket_cells, {5}) (st', {5, 8}) \<and>
         ticket_inv sample_revm sample_keccak {} 7 {5, 8} (st', {5, 8})"
proof -
  obtain r st' where "create_retryable (state_backend sample_revm sample_keccak) sample_keccak
      (rst sample_keccak 7 60) 8 900 1 None 2 3 [4] (sample_state sample_ticket_cells) = (r, st')"
    by (meson surj_pair)
  then have step: "retryable_step sample_revm sample_keccak 7 60 {5, 8} sample_transfer sample_balance
      (sample_state sample_ticket_cells, {5}) (st', insert 8 {5})"
    by (intro create_step [of 8 "{5, 8}" "{5}" "[4]"])
      (simp_all add: queue_room_def sample_keys at_sample sample_ticket_cells_def)
  have "ticket_inv sample_revm sample_keccak {} 7 {5, 8} (sample_state sample_ticket_cells, {5})"
    using sample_store_ok sample_store_at sample_queued unfolding ticket_inv_def prod.case
    by (intro conjI exI [of _ sample_tickets] exI [of _ 2] exI [of _ "[5, 5]"]) simp_all
  moreover have "(retryable_step sample_revm sample_keccak 7 60 {5, 8} sample_transfer sample_balance)\<^sup>*\<^sup>*
      (sample_state sample_ticket_cells, {5}) (st', insert 8 {5})"
    using step by (rule r_into_rtranclp)
  ultimately have "ticket_inv sample_revm sample_keccak {} 7 {5, 8} (st', insert 8 {5})"
    using retryable_queue_invariant sample_transfer_ok by blast
  with step show ?thesis by (auto simp: insert_commute)
qed

text \<open>
  C16: when every ticket is past the end of its last window and the transfer callback does not fail, as many reaping calls as the queue has
  entries succeed, empty the queue and delete every ticket.
\<close>

theorem reaping_empties_store:
  assumes "state_ok E H (F \<union> rcells H k U) st" and "rstore_at H (state_cell H st) k U T g q"
    and "queued U T q" and "expired U now T" and "transfer_ok E H (F \<union> rcells H k U) xfer"
  shows "\<exists>st' T' g'. reap_times (state_backend E H) H (rst H k v) now xfer bal (length q) st = (Ok (), st') \<and>
           rstore_at H (state_cell H st') k U T' g' [] \<and>
           (\<forall>i \<in> U. open_retryable (state_backend E H) H (rst H k v) i now' st' = (Ok None, st'))"
proof -
  obtain st' T' g' where run: "reap_times (state_backend E H) H (rst H k v) now xfer bal (length q) st = (Ok (), st')"
    and holds: "store_holds E H F k U st' T' g' []" and q: "queued U T' []"
    using reap_all [OF _ assms(3-5)] assms(1,2) by blast
  have "\<not> live v now' (T' i)" if "i \<in> U" for i
    using q that by (auto simp: queued_def live_def)
  then show ?thesis
    using run holds tk.open_run [OF holds, where v = v] by (fastforce simp: open_retryable_def run_simps)
qed

lemma reaping_empties_store_witness:
  "\<exists>st'. reap_times (state_backend sample_revm sample_keccak) sample_keccak (rst sample_keccak 7 60) 700000
        sample_transfer sample_balance 2 (sample_state sample_ticket_cells) = (Ok (), st') \<and>
      open_retryable (state_backend sample_revm sample_keccak) sample_keccak (rst sample_keccak 7 60) 5 1 st' =
        (Ok None, st')"
proof -
  have "expired {5, 8} 700000 sample_tickets"
    by (simp add: expired_def sample_tickets_def sample_ticket_def blank_def RETRYABLE_LIFETIME_SECONDS_def)
  from reaping_empties_store [OF sample_store_ok sample_store_at sample_queued this sample_transfer_ok,
      of 60 sample_balance 1] show ?thesis by (auto simp: numeral_2_eq_2)
qed

text \<open>
  C31: a ticket created under any id with a nonzero timeout can be opened until its timeout, the retry transaction built from
  it carries exactly the sender, destination, value and calldata it was created with, its timeout
  and beneficiary read back, and every other ticket opens as before.
\<close>

theorem created_ticket_round_trip:
  assumes "state_ok E H (F \<union> rcells H k U) st" and "rstore_at H (state_cell H st) k U T g q" and "i \<in> U"
    and "length calldata < 2 ^ 64" and "g + length q + 1 < 2 ^ 64" and "timeout \<noteq> 0" and "now \<le> timeout"
  shows "\<exists>st' r. create_retryable (state_backend E H) H (rst H k v) i timeout sender dest amount beneficiary
            calldata st = (Ok r, st') \<and>
          open_retryable (state_backend E H) H (rst H k v) i now st' = (Ok (Some r), st') \<and>
          make_tx (state_backend E H) H r chain n fee gas_limit i refund max_ref fee_ref st' =
            (Ok \<lparr>tx_chain_id = chain, tx_nonce = n, tx_from = sender, tx_gas_fee_cap = fee, tx_gas = gas_limit,
                 tx_to = dest, tx_value = amount, tx_data = calldata, tx_ticket_id = i, tx_refund_to = refund,
                 tx_max_refund = max_ref, tx_submission_fee_refund = fee_ref\<rparr>, st') \<and>
          get_timeout (state_backend E H) H (rst H k v) i now st' =
            (Ok \<lparr>outcome = Found timeout, extra_gas = 0\<rparr>, st') \<and>
          get_beneficiary (state_backend E H) H (rst H k v) i now st' =
            (Ok \<lparr>outcome = Found beneficiary, extra_gas = 0\<rparr>, st') \<and>
          (\<forall>j \<in> U - {i}. fst (open_retryable (state_backend E H) H (rst H k v) j now st') =
             fst (open_retryable (state_backend E H) H (rst H k v) j now st))"
proof -
  have holds: "store_holds E H F k U st T g q" using assms(1,2) by simp
  let ?T = "T(i := new_ticket timeout sender dest amount beneficiary calldata)"
  obtain st' where run: "create_retryable (state_backend E H) H (rst H k v) i timeout sender dest amount beneficiary
      calldata st = (Ok (internal_open H (rst H k v) i), st')" and holds': "store_holds E H F k U st' ?T g (q @ [i])"
    using tk.create_run [OF holds assms(3-5), where v = v and timeout = timeout and sender = sender and dest = dest
        and amount = amount and beneficiary = beneficiary] by blast
  have t: "?T i = \<lparr>tk_tries = 0, tk_from = sender, tk_to = dest, tk_callvalue = amount,
      tk_beneficiary = beneficiary, tk_calldata = calldata, tk_timeout = timeout, tk_windows = 0\<rparr>"
    by (simp add: new_ticket_def)
  have live: "live v now (?T i)" "open_gas v now (?T i) = 0" "end_of_life (?T i) = timeout"
    using assms(6,7) unfolding t by (simp_all add: live_def open_gas_def end_of_life_def leD)
  have opened: "open_retryable_metered (state_backend E H) H (rst H k v) i now st' =
      (Ok (Some (internal_open H (rst H k v) i), 0), st')"
    using tk.open_run [OF holds' assms(3), where v = v and now = now] by (simp only: live if_True)
  have tx: "make_tx (state_backend E H) H (internal_open H (rst H k v) i) chain n fee gas_limit i refund max_ref
      fee_ref st' = (Ok \<lparr>tx_chain_id = chain, tx_nonce = n, tx_from = sender, tx_gas_fee_cap = fee,
        tx_gas = gas_limit, tx_to = dest, tx_value = amount, tx_data = calldata, tx_ticket_id = i,
        tx_refund_to = refund, tx_max_refund = max_ref, tx_submission_fee_refund = fee_ref\<rparr>, st')"
    using tk.make_tx_run [OF holds' assms(3), where v = v] unfolding t by simp
  have others: "fst (open_retryable (state_backend E H) H (rst H k v) j now st') =
      fst (open_retryable (state_backend E H) H (rst H k v) j now st)" if "j \<in> U - {i}" for j
    using that tk.open_run [OF holds', of j v now] tk.open_run [OF holds, of j v now]
    by (simp add: open_retryable_def run_simps)
  have reads: "ticket_beneficiary (state_backend E H) (internal_open H (rst H k v) i) st' = (Ok beneficiary, st')"
    "calculate_timeout (state_backend E H) (internal_open H (rst H k v) i) st' = (Ok timeout, st')"
    using tk.read_runs(3,4) [OF holds' assms(3), where v = v] live(3) t by simp_all
  show ?thesis
    using run tx others opened reads
    by (intro exI [of _ st'] exI [of _ "internal_open H (rst H k v) i"] conjI ballI)
      (simp_all add: open_retryable_def get_timeout_def get_beneficiary_def lookup_with_def run_simps)
qed

lemma created_ticket_round_trip_witness:
  "\<exists>st' r. create_retryable (state_backend sample_revm sample_keccak) sample_keccak (rst sample_keccak 7 60) 8 900 1
        None 2 3 [4] (sample_state sample_ticket_cells) = (Ok r, st') \<and>
      open_retryable (state_backend sample_revm sample_keccak) sample_keccak (rst sample_keccak 7 60) 8 800 st' =
        (Ok (Some r), st')"
proof -
  have "(8 :: u256) \<in> {5, 8}" "length [4 :: u8] < 2 ^ 64" "2 + length [5 :: u256, 5] + 1 < 2 ^ 64"
    "(900 :: u64) \<noteq> 0" "(800 :: u64) \<le> 900" by simp_all
  from created_ticket_round_trip [OF sample_store_ok sample_store_at this, of 60 1 None 2 3]
  show ?thesis by blast
qed

text \<open>
  C32: cancelling clears a ticket exactly when it is live and the caller is its beneficiary, and reports the size of
  its calldata; afterwards it cannot be opened at any time. In every other case nothing changes, and the
  outcome says why.
\<close>

theorem cancel_only_by_beneficiary:
  assumes "state_ok E H (F \<union> rcells H k U) st" and "rstore_at H (state_cell H st) k U T g q" and "i \<in> U"
  shows "\<exists>st'. cancel (state_backend E H) H (rst H k v) i caller now st =
           (Ok \<lparr>cancel_result = if \<not> live v now (T i) then CancelNoTicket
                  else if caller \<noteq> tk_beneficiary (T i) then NotBeneficiary
                  else Cleared (of_nat (length (tk_calldata (T i)))) caller,
                cancel_extra_gas = open_gas v now (T i)\<rparr>, st') \<and>
         rstore_at H (state_cell H st') k U
           (if live v now (T i) \<and> caller = tk_beneficiary (T i) then T(i := blank) else T) g q \<and>
         (\<forall>l \<in> F - rcells H k U. state_cell H st' l = state_cell H st l) \<and>
         (if live v now (T i) \<and> caller = tk_beneficiary (T i)
          then \<forall>now'. open_retryable (state_backend E H) H (rst H k v) i now' st' = (Ok None, st')
          else (\<forall>j \<in> U. \<forall>l. state_cell H st' (at (tkey H k j) l) = state_cell H st (at (tkey H k j) l)))"
proof -
  have holds: "store_holds E H F k U st T g q" using assms(1,2) by simp
  let ?clear = "live v now (T i) \<and> caller = tk_beneficiary (T i)"
  obtain st' where run: "cancel (state_backend E H) H (rst H k v) i caller now st =
           (Ok \<lparr>cancel_result = if \<not> live v now (T i) then CancelNoTicket
                  else if caller \<noteq> tk_beneficiary (T i) then NotBeneficiary
                  else Cleared (of_nat (length (tk_calldata (T i)))) caller,
                cancel_extra_gas = open_gas v now (T i)\<rparr>, st')"
    and holds': "store_holds E H F k U st' (if ?clear then T(i := blank) else T) g q"
    and frame: "\<forall>l \<in> F \<union> rcells H k U - rcells H k U. state_cell H st' l = state_cell H st l"
    by (rule tk.cancel_run [OF holds assms(3), where v = v and caller = caller and now = now]) blast
  have "\<not> live v now' blank" for now' by (simp add: live_def blank_def)
  then have gone: "open_retryable (state_backend E H) H (rst H k v) i now' st' = (Ok None, st')" if ?clear for now'
    using that tk.open_run [OF holds' assms(3), where v = v and now = now']
    by (simp add: open_retryable_def run_simps)
  have same: "st' = st" if "\<not> ?clear"
    using that run tk.open_run [OF holds assms(3), where v = v and now = now]
      tk.read_runs(3) [OF holds assms(3), where v = v]
    by (auto simp: cancel_def run_simps split: if_splits)
  show ?thesis
    using run holds' frame gone same by (intro exI [of _ st']) auto
qed

lemma cancel_only_by_beneficiary_witness:
  "\<exists>st'. cancel (state_backend sample_revm sample_keccak) sample_keccak (rst sample_keccak 7 60) 5 9 50
           (sample_state sample_ticket_cells) =
         (Ok \<lparr>cancel_result = Cleared 0 9, cancel_extra_gas = 0\<rparr>, st') \<and>
       open_retryable (state_backend sample_revm sample_keccak) sample_keccak (rst sample_keccak 7 60) 5 50 st' =
         (Ok None, st')"
proof -
  have "(5 :: u256) \<in> {5, 8}" by simp
  moreover have "live 60 50 (sample_tickets 5)" "open_gas 60 50 (sample_tickets 5) = 0"
    "tk_beneficiary (sample_tickets 5) = 9" "tk_calldata (sample_tickets 5) = []"
    by (simp_all add: live_def open_gas_def sample_tickets_def sample_ticket_def)
  ultimately show ?thesis
    using cancel_only_by_beneficiary [OF sample_store_ok sample_store_at, of 5 60 9 50] by auto
qed

text \<open>
  C33: keepalive of a ticket that is missing or past its lifetime reports that there is no ticket, keepalive of one that
  already lives beyond the limit fails, and neither changes the state; otherwise one window and one queue
  entry are added and the new end of the lifetime is returned.
\<close>

theorem keepalive_outcomes:
  assumes "state_ok E H (F \<union> rcells H k U) st" and "rstore_at H (state_cell H st) k U T g q" and "i \<in> U"
    and "g + length q + 1 < 2 ^ 64"
  shows "(\<not> live v now (T i) \<longrightarrow> keepalive (state_backend E H) H (rst H k v) i now limit add st =
            (Ok \<lparr>outcome = NoTicket, extra_gas = open_gas v now (T i)\<rparr>, st)) \<and>
         (live v now (T i) \<and> limit < end_of_life (T i) \<longrightarrow>
            keepalive (state_backend E H) H (rst H k v) i now limit add st = (Err TimeoutTooFarFuture, st)) \<and>
         (live v now (T i) \<and> end_of_life (T i) \<le> limit \<longrightarrow>
            (\<exists>st'. keepalive (state_backend E H) H (rst H k v) i now limit add st =
               (Ok \<lparr>outcome = Found (end_of_life (T i) + RETRYABLE_LIFETIME_SECONDS),
                    extra_gas = open_gas v now (T i)\<rparr>, st') \<and>
             rstore_at H (state_cell H st') k U
               (T(i := (T i)\<lparr>tk_windows := tk_windows (T i) + 1\<rparr>)) g (q @ [i])))"
proof -
  have holds: "store_holds E H F k U st T g q" using assms(1,2) by simp
  show ?thesis
    using tk.keepalive_rejected [OF holds assms(3), where v = v and now = now and limit = limit and add = add]
      tk.keepalive_run [OF holds assms(3) _ _ assms(4), where v = v and now = now and limit = limit and add = add]
    by metis
qed

lemma keepalive_outcomes_witness:
  "keepalive (state_backend sample_revm sample_keccak) sample_keccak (rst sample_keccak 7 60) 5 50 604899 0
     (sample_state sample_ticket_cells) = (Err TimeoutTooFarFuture, sample_state sample_ticket_cells)"
proof -
  have "(5 :: u256) \<in> {5, 8}" "2 + length [5 :: u256, 5] + 1 < 2 ^ 64" by simp_all
  moreover have "live 60 50 (sample_tickets 5)" "604899 < end_of_life (sample_tickets 5)"
    by (simp_all add: live_def end_of_life_def sample_tickets_def sample_ticket_def RETRYABLE_LIFETIME_SECONDS_def)
  ultimately show ?thesis
    using keepalive_outcomes [OF sample_store_ok sample_store_at, of 5 60 50 604899 0] by blast
qed

end
