(* ===== verification/L2_Pricing.thy ===== *)
theory L2_Pricing
  imports Bytes_Storage Multi_Gas Util
begin

text \<open>
  L2 gas pricing, \<open>crates/arbos/src/l2_pricing\<close>: the stored parameters (\<open>mod.rs\<close>), the gas constraints
  (\<open>gas_constraint.rs\<close>, \<open>multi_gas_constraint.rs\<close>), the per-resource fees (\<open>multi_gas_fees.rs\<close>) and
  the three pricing models (\<open>model.rs\<close>). An \<open>i64\<close> is an \<open>int\<close> with its saturation written out; the
  division of \<open>i64\<close> truncates towards zero.
\<close>

section \<open>Constants\<close>

abbreviation SPEED_LIMIT_PER_SECOND_OFFSET :: u64 where "SPEED_LIMIT_PER_SECOND_OFFSET \<equiv> 0"
abbreviation PER_BLOCK_GAS_LIMIT_OFFSET :: u64 where "PER_BLOCK_GAS_LIMIT_OFFSET \<equiv> 1"
abbreviation BASE_FEE_WEI_OFFSET :: u64 where "BASE_FEE_WEI_OFFSET \<equiv> 2"
abbreviation MIN_BASE_FEE_WEI_OFFSET :: u64 where "MIN_BASE_FEE_WEI_OFFSET \<equiv> 3"
abbreviation GAS_BACKLOG_OFFSET :: u64 where "GAS_BACKLOG_OFFSET \<equiv> 4"
abbreviation PRICING_INERTIA_OFFSET :: u64 where "PRICING_INERTIA_OFFSET \<equiv> 5"
abbreviation BACKLOG_TOLERANCE_OFFSET :: u64 where "BACKLOG_TOLERANCE_OFFSET \<equiv> 6"
abbreviation PER_TX_GAS_LIMIT_OFFSET :: u64 where "PER_TX_GAS_LIMIT_OFFSET \<equiv> 7"

abbreviation GAS_CONSTRAINTS_KEY :: bytes where "GAS_CONSTRAINTS_KEY \<equiv> [0]"
abbreviation MULTI_GAS_CONSTRAINTS_KEY :: bytes where "MULTI_GAS_CONSTRAINTS_KEY \<equiv> [1]"
abbreviation MULTI_GAS_BASE_FEES_KEY :: bytes where "MULTI_GAS_BASE_FEES_KEY \<equiv> [2]"

abbreviation GETH_BLOCK_GAS_LIMIT :: u64 where "GETH_BLOCK_GAS_LIMIT \<equiv> 2 ^ 50"
abbreviation STORAGE_READ_COST :: u64 where "STORAGE_READ_COST \<equiv> 800"
abbreviation STORAGE_WRITE_COST :: u64 where "STORAGE_WRITE_COST \<equiv> 20000"
abbreviation MULTI_CONSTRAINT_STATIC_BACKLOG_UPDATE_COST :: u64 where
  "MULTI_CONSTRAINT_STATIC_BACKLOG_UPDATE_COST \<equiv> 20800"

abbreviation INITIAL_SPEED_LIMIT_PER_SECOND_V0 :: u64 where "INITIAL_SPEED_LIMIT_PER_SECOND_V0 \<equiv> 1000000"
abbreviation INITIAL_PER_BLOCK_GAS_LIMIT_V0 :: u64 where "INITIAL_PER_BLOCK_GAS_LIMIT_V0 \<equiv> 20000000"
abbreviation INITIAL_MINIMUM_BASE_FEE_WEI :: u64 where "INITIAL_MINIMUM_BASE_FEE_WEI \<equiv> 100000000"
abbreviation INITIAL_BASE_FEE_WEI :: u64 where "INITIAL_BASE_FEE_WEI \<equiv> INITIAL_MINIMUM_BASE_FEE_WEI"
abbreviation INITIAL_PRICING_INERTIA :: u64 where "INITIAL_PRICING_INERTIA \<equiv> 102"
abbreviation INITIAL_BACKLOG_TOLERANCE :: u64 where "INITIAL_BACKLOG_TOLERANCE \<equiv> 10"

datatype l2_pricing_error = L2_Storage storage_error

section \<open>Signed arithmetic\<close>

definition i64_clamp :: "int \<Rightarrow> int" where
  "i64_clamp x = max (- (2 ^ 63)) (min (2 ^ 63 - 1) x)"

definition i64_saturating_add :: "int \<Rightarrow> int \<Rightarrow> int" where
  "i64_saturating_add a b = i64_clamp (a + b)"

definition truncated_div :: "int \<Rightarrow> int \<Rightarrow> int" where
  "truncated_div a b = sgn a * sgn b * (\<bar>a\<bar> div \<bar>b\<bar>)"

definition saturating_cast_to_i64 :: "u64 \<Rightarrow> int" where
  "saturating_cast_to_i64 v = (if 2 ^ 63 - 1 < unat v then 2 ^ 63 - 1 else int (unat v))"

definition natural_to_bips :: "int \<Rightarrow> int" where
  "natural_to_bips n = i64_clamp (n * 10000)"

text \<open>\<open>x.max(0) as u64\<close>.\<close>

definition i64_floor_u64 :: "int \<Rightarrow> u64" where
  "i64_floor_u64 x = of_int (max x 0)"

definition apply_gas_delta :: "u64 \<Rightarrow> int \<Rightarrow> u64" where
  "apply_gas_delta backlog delta =
     (if 0 < delta then sat_add backlog (of_int delta) else sat_sub backlog (of_int (- delta)))"

datatype backlog_operation = Shrink | Grow

definition apply_gas_delta_op :: "backlog_operation \<Rightarrow> u64 \<Rightarrow> u64 \<Rightarrow> u64" where
  "apply_gas_delta_op op backlog delta =
     (case op of Grow \<Rightarrow> sat_add backlog delta | Shrink \<Rightarrow> sat_sub backlog delta)"

section \<open>Gas constraints\<close>

record gas_constraint =
  gc_target :: backed
  gc_adjustment_window :: backed
  gc_backlog :: backed

definition open_gas_constraint :: "keccak \<Rightarrow> u256 \<Rightarrow> gas_constraint" where
  "open_gas_constraint H bk =
     \<lparr>gc_target = backed_new H bk 0, gc_adjustment_window = backed_new H bk 1, gc_backlog = backed_new H bk 2\<rparr>"

definition gas_target :: "'s backend \<Rightarrow> gas_constraint \<Rightarrow> ('s, u64, l2_pricing_error) comp" where
  "gas_target B c = map_err L2_Storage (uint64_get B (gc_target c))"

definition gas_set_target :: "'s backend \<Rightarrow> gas_constraint \<Rightarrow> u64 \<Rightarrow> ('s, unit, l2_pricing_error) comp" where
  "gas_set_target B c val = map_err L2_Storage (uint64_set B (gc_target c) val)"

definition gas_adjustment_window :: "'s backend \<Rightarrow> gas_constraint \<Rightarrow> ('s, u64, l2_pricing_error) comp" where
  "gas_adjustment_window B c = map_err L2_Storage (uint64_get B (gc_adjustment_window c))"

definition gas_set_adjustment_window :: "'s backend \<Rightarrow> gas_constraint \<Rightarrow> u64 \<Rightarrow> ('s, unit, l2_pricing_error) comp" where
  "gas_set_adjustment_window B c val = map_err L2_Storage (uint64_set B (gc_adjustment_window c) val)"

definition gas_get_backlog :: "'s backend \<Rightarrow> gas_constraint \<Rightarrow> ('s, u64, l2_pricing_error) comp" where
  "gas_get_backlog B c = map_err L2_Storage (uint64_get B (gc_backlog c))"

definition gas_set_backlog :: "'s backend \<Rightarrow> gas_constraint \<Rightarrow> u64 \<Rightarrow> ('s, unit, l2_pricing_error) comp" where
  "gas_set_backlog B c val = map_err L2_Storage (uint64_set B (gc_backlog c) val)"

definition gas_clear :: "'s backend \<Rightarrow> gas_constraint \<Rightarrow> ('s, unit, l2_pricing_error) comp" where
  "gas_clear B c =
     bnd (map_err L2_Storage (uint64_set B (gc_target c) 0)) (\<lambda>_.
     bnd (map_err L2_Storage (uint64_set B (gc_adjustment_window c) 0)) (\<lambda>_.
     map_err L2_Storage (uint64_set B (gc_backlog c) 0)))"

section \<open>Multi-gas constraints\<close>

record multi_gas_constraint =
  mgc_base_key :: u256
  mgc_target :: backed
  mgc_adjustment_window :: backed
  mgc_backlog :: backed
  mgc_max_weight :: backed

abbreviation WEIGHTED_RESOURCES_BASE_OFFSET :: u64 where "WEIGHTED_RESOURCES_BASE_OFFSET \<equiv> 4"

definition open_multi_gas_constraint :: "keccak \<Rightarrow> u256 \<Rightarrow> multi_gas_constraint" where
  "open_multi_gas_constraint H bk =
     \<lparr>mgc_base_key = bk, mgc_target = backed_new H bk 0, mgc_adjustment_window = backed_new H bk 1,
      mgc_backlog = backed_new H bk 2, mgc_max_weight = backed_new H bk 3\<rparr>"

definition weight_slot :: "keccak \<Rightarrow> u256 \<Rightarrow> u64 \<Rightarrow> u256" where
  "weight_slot H bk kind_index =
     storage_key_map H (if bk = 0 then [] else be_bytes 32 bk) (WEIGHTED_RESOURCES_BASE_OFFSET + kind_index)"

definition multi_target :: "'s backend \<Rightarrow> multi_gas_constraint \<Rightarrow> ('s, u64, l2_pricing_error) comp" where
  "multi_target B c = map_err L2_Storage (uint64_get B (mgc_target c))"

definition multi_set_target :: "'s backend \<Rightarrow> multi_gas_constraint \<Rightarrow> u64 \<Rightarrow> ('s, unit, l2_pricing_error) comp" where
  "multi_set_target B c val = map_err L2_Storage (uint64_set B (mgc_target c) val)"

definition multi_adjustment_window :: "'s backend \<Rightarrow> multi_gas_constraint \<Rightarrow> ('s, u32, l2_pricing_error) comp" where
  "multi_adjustment_window B c = map_err L2_Storage (uint32_get B (mgc_adjustment_window c))"

definition multi_set_adjustment_window ::
  "'s backend \<Rightarrow> multi_gas_constraint \<Rightarrow> u32 \<Rightarrow> ('s, unit, l2_pricing_error) comp" where
  "multi_set_adjustment_window B c val = map_err L2_Storage (uint32_set B (mgc_adjustment_window c) val)"

definition multi_get_backlog :: "'s backend \<Rightarrow> multi_gas_constraint \<Rightarrow> ('s, u64, l2_pricing_error) comp" where
  "multi_get_backlog B c = map_err L2_Storage (uint64_get B (mgc_backlog c))"

definition multi_set_backlog :: "'s backend \<Rightarrow> multi_gas_constraint \<Rightarrow> u64 \<Rightarrow> ('s, unit, l2_pricing_error) comp" where
  "multi_set_backlog B c val = map_err L2_Storage (uint64_set B (mgc_backlog c) val)"

definition max_weight :: "'s backend \<Rightarrow> multi_gas_constraint \<Rightarrow> ('s, u64, l2_pricing_error) comp" where
  "max_weight B c = map_err L2_Storage (uint64_get B (mgc_max_weight c))"

definition resource_weight ::
  "'s backend \<Rightarrow> keccak \<Rightarrow> multi_gas_constraint \<Rightarrow> resource_kind \<Rightarrow> ('s, u64, l2_pricing_error) comp" where
  "resource_weight B H c kind =
     bnd (map_err L2_Storage
       (sload_system B ARBOS_STATE_ADDRESS (weight_slot H (mgc_base_key c) (of_nat (kind_id kind))))) (\<lambda>v.
     ret (narrow_or_zero v))"

definition set_resource_weights ::
  "'s backend \<Rightarrow> keccak \<Rightarrow> multi_gas_constraint \<Rightarrow> u64 list \<Rightarrow> ('s, unit, l2_pricing_error) comp" where
  "set_resource_weights B H c weights =
     bnd (fold_each [0..<length weights] (\<lambda>i mx.
       bnd (map_err L2_Storage (sstore B ARBOS_STATE_ADDRESS (weight_slot H (mgc_base_key c) (of_nat i))
              (ucast (weights ! i)))) (\<lambda>_.
       ret (if mx < weights ! i then weights ! i else mx))) 0) (\<lambda>mx.
     map_err L2_Storage (uint64_set B (mgc_max_weight c) mx))"

definition resources_with_weights ::
  "'s backend \<Rightarrow> keccak \<Rightarrow> multi_gas_constraint \<Rightarrow> ('s, (resource_kind \<times> u64) list, l2_pricing_error) comp" where
  "resources_with_weights B H c =
     fold_each all_kinds (\<lambda>kind result.
       bnd (resource_weight B H c kind) (\<lambda>w.
       ret (if 0 < w then result @ [(kind, w)] else result))) []"

text \<open>The sum is kept in 128 bits.\<close>

definition used_resources ::
  "'s backend \<Rightarrow> keccak \<Rightarrow> multi_gas_constraint \<Rightarrow> multi_gas \<Rightarrow> ('s, u64, l2_pricing_error) comp" where
  "used_resources B H c gas =
     bnd (map_err L2_Storage (uint64_get B (mgc_max_weight c))) (\<lambda>max_w.
     if max_w = 0 then ret 0 else
     bnd (fold_each all_kinds (\<lambda>kind (total :: u128).
       bnd (resource_weight B H c kind) (\<lambda>w.
       ret (if 0 < w then total + ucast (mg_get gas kind) * ucast w div ucast max_w else total))) 0) (\<lambda>total.
     ret (ucast (min total (2 ^ 64 - 1)))))"

definition multi_update_backlog :: "'s backend \<Rightarrow> keccak \<Rightarrow> multi_gas_constraint \<Rightarrow> backlog_operation \<Rightarrow> multi_gas
    \<Rightarrow> ('s, unit, l2_pricing_error) comp" where
  "multi_update_backlog B H c op gas =
     bnd (map_err L2_Storage (uint64_get B (mgc_backlog c))) (\<lambda>backlog.
     bnd (fold_each all_kinds (\<lambda>kind backlog.
       bnd (resource_weight B H c kind) (\<lambda>weight.
       ret (if weight = 0 then backlog
            else let weighted = sat_mul (mg_get gas kind) weight in
              case op of Grow \<Rightarrow> sat_add backlog weighted | Shrink \<Rightarrow> sat_sub backlog weighted))) backlog) (\<lambda>backlog.
     map_err L2_Storage (uint64_set B (mgc_backlog c) backlog)))"

definition multi_grow_backlog ::
  "'s backend \<Rightarrow> keccak \<Rightarrow> multi_gas_constraint \<Rightarrow> multi_gas \<Rightarrow> ('s, unit, l2_pricing_error) comp" where
  "multi_grow_backlog B H c gas = multi_update_backlog B H c Grow gas"

definition multi_shrink_backlog ::
  "'s backend \<Rightarrow> keccak \<Rightarrow> multi_gas_constraint \<Rightarrow> multi_gas \<Rightarrow> ('s, unit, l2_pricing_error) comp" where
  "multi_shrink_backlog B H c gas = multi_update_backlog B H c Shrink gas"

definition multi_clear :: "'s backend \<Rightarrow> keccak \<Rightarrow> multi_gas_constraint \<Rightarrow> ('s, unit, l2_pricing_error) comp" where
  "multi_clear B H c =
     bnd (map_err L2_Storage (uint64_set B (mgc_target c) 0)) (\<lambda>_.
     bnd (map_err L2_Storage (uint32_set B (mgc_adjustment_window c) 0)) (\<lambda>_.
     bnd (map_err L2_Storage (uint64_set B (mgc_backlog c) 0)) (\<lambda>_.
     bnd (map_err L2_Storage (uint64_set B (mgc_max_weight c) 0)) (\<lambda>_.
     for_each [0..<NUM_RESOURCE_KIND] (\<lambda>i. map_err L2_Storage
       (sstore B ARBOS_STATE_ADDRESS (weight_slot H (mgc_base_key c) (of_nat i)) 0))))))"

section \<open>Per-resource fees\<close>

abbreviation NEXT_BLOCK_FEES_OFFSET :: u64 where "NEXT_BLOCK_FEES_OFFSET \<equiv> 0"
abbreviation CURRENT_BLOCK_FEES_OFFSET :: u64 where "CURRENT_BLOCK_FEES_OFFSET \<equiv> of_nat NUM_RESOURCE_KIND"

text \<open>A \<open>MultiGasFees\<close> is the handle of its storage.\<close>

definition get_current_block_fee ::
  "'s backend \<Rightarrow> keccak \<Rightarrow> storage_handle \<Rightarrow> resource_kind \<Rightarrow> ('s, u256, l2_pricing_error) comp" where
  "get_current_block_fee B H sto kind = map_err L2_Storage
     (biguint_get B (backed_new H (base_key sto) (CURRENT_BLOCK_FEES_OFFSET + of_nat (kind_id kind))))"

definition get_next_block_fee ::
  "'s backend \<Rightarrow> keccak \<Rightarrow> storage_handle \<Rightarrow> resource_kind \<Rightarrow> ('s, u256, l2_pricing_error) comp" where
  "get_next_block_fee B H sto kind = map_err L2_Storage
     (biguint_get B (backed_new H (base_key sto) (NEXT_BLOCK_FEES_OFFSET + of_nat (kind_id kind))))"

definition set_next_block_fee ::
  "'s backend \<Rightarrow> keccak \<Rightarrow> storage_handle \<Rightarrow> resource_kind \<Rightarrow> u256 \<Rightarrow> ('s, unit, l2_pricing_error) comp" where
  "set_next_block_fee B H sto kind fee = map_err L2_Storage
     (biguint_set B (backed_new H (base_key sto) (NEXT_BLOCK_FEES_OFFSET + of_nat (kind_id kind))) fee)"

definition commit_next_to_current ::
  "'s backend \<Rightarrow> keccak \<Rightarrow> storage_handle \<Rightarrow> ('s, unit, l2_pricing_error) comp" where
  "commit_next_to_current B H sto =
     for_each all_kinds (\<lambda>kind.
       bnd (get_next_block_fee B H sto kind) (\<lambda>fee.
       map_err L2_Storage
         (biguint_set B (backed_new H (base_key sto) (CURRENT_BLOCK_FEES_OFFSET + of_nat (kind_id kind))) fee)))"

section \<open>The pricing state\<close>

record l2_pricing =
  l2_backing :: storage_handle
  l2_arbos_version :: u64
  l2_speed_limit :: backed
  l2_per_block_gas_limit :: backed
  l2_base_fee :: backed
  l2_min_base_fee :: backed
  l2_gas_backlog :: backed
  l2_pricing_inertia :: backed
  l2_backlog_tolerance :: backed
  l2_per_tx_gas_limit :: backed
  l2_gas_constraints :: sub_storage_vector
  l2_multi_gas_constraints :: sub_storage_vector
  l2_multi_gas_base_fees :: storage_handle

definition initialize_l2_pricing_state ::
  "'s backend \<Rightarrow> keccak \<Rightarrow> storage_handle \<Rightarrow> ('s, unit, l2_pricing_error) comp" where
  "initialize_l2_pricing_state B H sto =
     (let bk = base_key sto in
      bnd (map_err L2_Storage (uint64_set B (backed_new H bk SPEED_LIMIT_PER_SECOND_OFFSET)
             INITIAL_SPEED_LIMIT_PER_SECOND_V0)) (\<lambda>_.
      bnd (map_err L2_Storage (uint64_set B (backed_new H bk PER_BLOCK_GAS_LIMIT_OFFSET)
             INITIAL_PER_BLOCK_GAS_LIMIT_V0)) (\<lambda>_.
      bnd (map_err L2_Storage (uint64_set B (backed_new H bk BASE_FEE_WEI_OFFSET) INITIAL_BASE_FEE_WEI)) (\<lambda>_.
      bnd (map_err L2_Storage (biguint_set B (backed_new H bk MIN_BASE_FEE_WEI_OFFSET)
             (ucast INITIAL_MINIMUM_BASE_FEE_WEI))) (\<lambda>_.
      bnd (map_err L2_Storage (uint64_set B (backed_new H bk GAS_BACKLOG_OFFSET) 0)) (\<lambda>_.
      bnd (map_err L2_Storage (uint64_set B (backed_new H bk PRICING_INERTIA_OFFSET) INITIAL_PRICING_INERTIA)) (\<lambda>_.
      map_err L2_Storage (uint64_set B (backed_new H bk BACKLOG_TOLERANCE_OFFSET) INITIAL_BACKLOG_TOLERANCE))))))))"

definition open_l2_pricing_state :: "keccak \<Rightarrow> storage_handle \<Rightarrow> u64 \<Rightarrow> l2_pricing" where
  "open_l2_pricing_state H sto arbos_version =
     (let bk = base_key sto;
          gc_sto = open_sub_storage H sto GAS_CONSTRAINTS_KEY;
          mgc_sto = open_sub_storage H sto MULTI_GAS_CONSTRAINTS_KEY;
          mgf_sto = open_sub_storage H sto MULTI_GAS_BASE_FEES_KEY
      in \<lparr>l2_backing = sto, l2_arbos_version = arbos_version,
          l2_speed_limit = backed_new H bk SPEED_LIMIT_PER_SECOND_OFFSET,
          l2_per_block_gas_limit = backed_new H bk PER_BLOCK_GAS_LIMIT_OFFSET,
          l2_base_fee = backed_new H bk BASE_FEE_WEI_OFFSET,
          l2_min_base_fee = backed_new H bk MIN_BASE_FEE_WEI_OFFSET,
          l2_gas_backlog = backed_new H bk GAS_BACKLOG_OFFSET,
          l2_pricing_inertia = backed_new H bk PRICING_INERTIA_OFFSET,
          l2_backlog_tolerance = backed_new H bk BACKLOG_TOLERANCE_OFFSET,
          l2_per_tx_gas_limit = backed_new H bk PER_TX_GAS_LIMIT_OFFSET,
          l2_gas_constraints = open_sub_storage_vector H gc_sto,
          l2_multi_gas_constraints = open_sub_storage_vector H mgc_sto,
          l2_multi_gas_base_fees = mgf_sto\<rparr>)"

definition base_fee_wei :: "'s backend \<Rightarrow> l2_pricing \<Rightarrow> ('s, u256, l2_pricing_error) comp" where
  "base_fee_wei B p = map_err L2_Storage (biguint_get B (l2_base_fee p))"

definition set_base_fee_wei :: "'s backend \<Rightarrow> l2_pricing \<Rightarrow> u256 \<Rightarrow> ('s, unit, l2_pricing_error) comp" where
  "set_base_fee_wei B p val = map_err L2_Storage (biguint_set B (l2_base_fee p) val)"

definition min_base_fee_wei :: "'s backend \<Rightarrow> l2_pricing \<Rightarrow> ('s, u256, l2_pricing_error) comp" where
  "min_base_fee_wei B p = map_err L2_Storage (biguint_get B (l2_min_base_fee p))"

definition set_min_base_fee_wei :: "'s backend \<Rightarrow> l2_pricing \<Rightarrow> u256 \<Rightarrow> ('s, unit, l2_pricing_error) comp" where
  "set_min_base_fee_wei B p val = map_err L2_Storage (biguint_set B (l2_min_base_fee p) val)"

definition speed_limit_per_second :: "'s backend \<Rightarrow> l2_pricing \<Rightarrow> ('s, u64, l2_pricing_error) comp" where
  "speed_limit_per_second B p = map_err L2_Storage (uint64_get B (l2_speed_limit p))"

definition set_speed_limit_per_second :: "'s backend \<Rightarrow> l2_pricing \<Rightarrow> u64 \<Rightarrow> ('s, unit, l2_pricing_error) comp" where
  "set_speed_limit_per_second B p limit = map_err L2_Storage (uint64_set B (l2_speed_limit p) limit)"

definition per_block_gas_limit :: "'s backend \<Rightarrow> l2_pricing \<Rightarrow> ('s, u64, l2_pricing_error) comp" where
  "per_block_gas_limit B p = map_err L2_Storage (uint64_get B (l2_per_block_gas_limit p))"

definition set_max_per_block_gas_limit :: "'s backend \<Rightarrow> l2_pricing \<Rightarrow> u64 \<Rightarrow> ('s, unit, l2_pricing_error) comp" where
  "set_max_per_block_gas_limit B p limit = map_err L2_Storage (uint64_set B (l2_per_block_gas_limit p) limit)"

definition per_tx_gas_limit :: "'s backend \<Rightarrow> l2_pricing \<Rightarrow> ('s, u64, l2_pricing_error) comp" where
  "per_tx_gas_limit B p = map_err L2_Storage (uint64_get B (l2_per_tx_gas_limit p))"

definition set_max_per_tx_gas_limit :: "'s backend \<Rightarrow> l2_pricing \<Rightarrow> u64 \<Rightarrow> ('s, unit, l2_pricing_error) comp" where
  "set_max_per_tx_gas_limit B p limit = map_err L2_Storage (uint64_set B (l2_per_tx_gas_limit p) limit)"

definition gas_backlog :: "'s backend \<Rightarrow> l2_pricing \<Rightarrow> ('s, u64, l2_pricing_error) comp" where
  "gas_backlog B p = map_err L2_Storage (uint64_get B (l2_gas_backlog p))"

definition set_gas_backlog :: "'s backend \<Rightarrow> l2_pricing \<Rightarrow> u64 \<Rightarrow> ('s, unit, l2_pricing_error) comp" where
  "set_gas_backlog B p backlog = map_err L2_Storage (uint64_set B (l2_gas_backlog p) backlog)"

definition pricing_inertia :: "'s backend \<Rightarrow> l2_pricing \<Rightarrow> ('s, u64, l2_pricing_error) comp" where
  "pricing_inertia B p = map_err L2_Storage (uint64_get B (l2_pricing_inertia p))"

definition set_pricing_inertia :: "'s backend \<Rightarrow> l2_pricing \<Rightarrow> u64 \<Rightarrow> ('s, unit, l2_pricing_error) comp" where
  "set_pricing_inertia B p val = map_err L2_Storage (uint64_set B (l2_pricing_inertia p) val)"

definition backlog_tolerance :: "'s backend \<Rightarrow> l2_pricing \<Rightarrow> ('s, u64, l2_pricing_error) comp" where
  "backlog_tolerance B p = map_err L2_Storage (uint64_get B (l2_backlog_tolerance p))"

definition set_backlog_tolerance :: "'s backend \<Rightarrow> l2_pricing \<Rightarrow> u64 \<Rightarrow> ('s, unit, l2_pricing_error) comp" where
  "set_backlog_tolerance B p val = map_err L2_Storage (uint64_set B (l2_backlog_tolerance p) val)"

definition gas_constraints_length :: "'s backend \<Rightarrow> l2_pricing \<Rightarrow> ('s, u64, l2_pricing_error) comp" where
  "gas_constraints_length B p = map_err L2_Storage (vector_length B (l2_gas_constraints p))"

definition open_gas_constraint_at :: "keccak \<Rightarrow> l2_pricing \<Rightarrow> u64 \<Rightarrow> gas_constraint" where
  "open_gas_constraint_at H p index = open_gas_constraint H (vector_at H (l2_gas_constraints p) index)"

definition add_gas_constraint ::
  "'s backend \<Rightarrow> keccak \<Rightarrow> l2_pricing \<Rightarrow> u64 \<Rightarrow> u64 \<Rightarrow> u64 \<Rightarrow> ('s, unit, l2_pricing_error) comp" where
  "add_gas_constraint B H p target adjustment_window backlog =
     bnd (map_err L2_Storage (vector_push B H (l2_gas_constraints p))) (\<lambda>key.
     let c = open_gas_constraint H key in
     bnd (gas_set_target B c target) (\<lambda>_.
     bnd (gas_set_adjustment_window B c adjustment_window) (\<lambda>_.
     bnd (gas_set_backlog B c backlog) (\<lambda>_.
     ret ()))))"

definition clear_gas_constraints :: "'s backend \<Rightarrow> keccak \<Rightarrow> l2_pricing \<Rightarrow> ('s, unit, l2_pricing_error) comp" where
  "clear_gas_constraints B H p =
     bnd (map_err L2_Storage (vector_length B (l2_gas_constraints p))) (\<lambda>len.
     bnd (for_each (u64_range 0 len) (\<lambda>i. gas_clear B (open_gas_constraint_at H p i))) (\<lambda>_.
     for_each (u64_range 0 len) (\<lambda>_.
       bnd (map_err L2_Storage (vector_pop B (l2_gas_constraints p))) (\<lambda>_. ret ()))))"

definition multi_gas_constraints_length :: "'s backend \<Rightarrow> l2_pricing \<Rightarrow> ('s, u64, l2_pricing_error) comp" where
  "multi_gas_constraints_length B p = map_err L2_Storage (vector_length B (l2_multi_gas_constraints p))"

definition open_multi_gas_constraint_at :: "keccak \<Rightarrow> l2_pricing \<Rightarrow> u64 \<Rightarrow> multi_gas_constraint" where
  "open_multi_gas_constraint_at H p index =
     open_multi_gas_constraint H (vector_at H (l2_multi_gas_constraints p) index)"

definition add_multi_gas_constraint :: "'s backend \<Rightarrow> keccak \<Rightarrow> l2_pricing \<Rightarrow> u64 \<Rightarrow> u32 \<Rightarrow> u64 \<Rightarrow> u64 list
    \<Rightarrow> ('s, unit, l2_pricing_error) comp" where
  "add_multi_gas_constraint B H p target adjustment_window backlog weights =
     bnd (map_err L2_Storage (vector_push B H (l2_multi_gas_constraints p))) (\<lambda>key.
     let c = open_multi_gas_constraint H key in
     bnd (multi_set_target B c target) (\<lambda>_.
     bnd (multi_set_adjustment_window B c adjustment_window) (\<lambda>_.
     bnd (multi_set_backlog B c backlog) (\<lambda>_.
     bnd (set_resource_weights B H c weights) (\<lambda>_.
     ret ())))))"

definition clear_multi_gas_constraints :: "'s backend \<Rightarrow> keccak \<Rightarrow> l2_pricing \<Rightarrow> ('s, unit, l2_pricing_error) comp" where
  "clear_multi_gas_constraints B H p =
     bnd (map_err L2_Storage (vector_length B (l2_multi_gas_constraints p))) (\<lambda>len.
     bnd (for_each (u64_range 0 len) (\<lambda>i. multi_clear B H (open_multi_gas_constraint_at H p i))) (\<lambda>_.
     for_each (u64_range 0 len) (\<lambda>_.
       bnd (map_err L2_Storage (vector_pop B (l2_multi_gas_constraints p))) (\<lambda>_. ret ()))))"

section \<open>The pricing models\<close>

datatype gas_model = UnknownModel | Legacy | SingleGasConstraints | MultiGasConstraints

definition gas_model_to_use :: "'s backend \<Rightarrow> l2_pricing \<Rightarrow> ('s, gas_model, l2_pricing_error) comp" where
  "gas_model_to_use B p =
     bnd (if 60 \<le> l2_arbos_version p then
            bnd (multi_gas_constraints_length B p) (\<lambda>mgc_len. ret (0 < mgc_len))
          else ret False) (\<lambda>multi.
     if multi then ret MultiGasConstraints else
     bnd (if 50 \<le> l2_arbos_version p then
            bnd (gas_constraints_length B p) (\<lambda>gc_len. ret (0 < gc_len))
          else ret False) (\<lambda>single.
     if single then ret SingleGasConstraints else ret Legacy))"

definition update_legacy_backlog_op ::
  "'s backend \<Rightarrow> l2_pricing \<Rightarrow> backlog_operation \<Rightarrow> u64 \<Rightarrow> ('s, unit, l2_pricing_error) comp" where
  "update_legacy_backlog_op B p op gas =
     bnd (gas_backlog B p) (\<lambda>backlog.
     let new_backlog = apply_gas_delta_op op backlog gas in
     set_gas_backlog B p new_backlog)"

definition update_single_gas_constraints_backlogs_op ::
  "'s backend \<Rightarrow> keccak \<Rightarrow> l2_pricing \<Rightarrow> backlog_operation \<Rightarrow> u64 \<Rightarrow> ('s, unit, l2_pricing_error) comp" where
  "update_single_gas_constraints_backlogs_op B H p op gas =
     bnd (gas_constraints_length B p) (\<lambda>len.
     for_each (u64_range 0 len) (\<lambda>i.
       let c = open_gas_constraint_at H p i in
       bnd (gas_get_backlog B c) (\<lambda>backlog.
       gas_set_backlog B c (apply_gas_delta_op op backlog gas))))"

definition update_multi_gas_constraints_backlogs_op ::
  "'s backend \<Rightarrow> keccak \<Rightarrow> l2_pricing \<Rightarrow> backlog_operation \<Rightarrow> multi_gas \<Rightarrow> ('s, unit, l2_pricing_error) comp" where
  "update_multi_gas_constraints_backlogs_op B H p op gas =
     bnd (multi_gas_constraints_length B p) (\<lambda>len.
     for_each (u64_range 0 len) (\<lambda>i.
       let c = open_multi_gas_constraint_at H p i in
       case op of Grow \<Rightarrow> multi_grow_backlog B H c gas | Shrink \<Rightarrow> multi_shrink_backlog B H c gas))"

definition update_backlog ::
  "'s backend \<Rightarrow> keccak \<Rightarrow> l2_pricing \<Rightarrow> backlog_operation \<Rightarrow> u64 \<Rightarrow> multi_gas \<Rightarrow> ('s, unit, l2_pricing_error) comp" where
  "update_backlog B H p op used_gas used_multi_gas =
     bnd (gas_model_to_use B p) (\<lambda>m.
     case m of
       SingleGasConstraints \<Rightarrow> update_single_gas_constraints_backlogs_op B H p op used_gas
     | MultiGasConstraints \<Rightarrow> update_multi_gas_constraints_backlogs_op B H p op used_multi_gas
     | _ \<Rightarrow> update_legacy_backlog_op B p op used_gas)"

definition grow_backlog ::
  "'s backend \<Rightarrow> keccak \<Rightarrow> l2_pricing \<Rightarrow> u64 \<Rightarrow> multi_gas \<Rightarrow> ('s, unit, l2_pricing_error) comp" where
  "grow_backlog B H p used_gas used_multi_gas = update_backlog B H p Grow used_gas used_multi_gas"

definition shrink_backlog ::
  "'s backend \<Rightarrow> keccak \<Rightarrow> l2_pricing \<Rightarrow> u64 \<Rightarrow> multi_gas \<Rightarrow> ('s, unit, l2_pricing_error) comp" where
  "shrink_backlog B H p used_gas used_multi_gas = update_backlog B H p Shrink used_gas used_multi_gas"

definition calc_base_fee_from_exponent ::
  "'s backend \<Rightarrow> l2_pricing \<Rightarrow> u64 \<Rightarrow> ('s, u256, l2_pricing_error) comp" where
  "calc_base_fee_from_exponent B p exponent_bips =
     bnd (min_base_fee_wei B p) (\<lambda>min_base_fee.
     if exponent_bips = 0 then ret min_base_fee else
     case approx_exp_basis_points exponent_bips 4 of
       None \<Rightarrow> panic
     | Some exp_result \<Rightarrow>
         let base_fee = (min_base_fee * ucast exp_result) div 10000 in
         if base_fee < min_base_fee then ret min_base_fee else ret base_fee)"

definition update_pricing_model_legacy ::
  "'s backend \<Rightarrow> l2_pricing \<Rightarrow> u64 \<Rightarrow> ('s, unit, l2_pricing_error) comp" where
  "update_pricing_model_legacy B p time_passed =
     bnd (speed_limit_per_second B p) (\<lambda>speed_limit.
     let drain = sat_mul time_passed speed_limit in
     bnd (update_legacy_backlog_op B p Shrink drain) (\<lambda>_.
     bnd (pricing_inertia B p) (\<lambda>inertia.
     bnd (backlog_tolerance B p) (\<lambda>tolerance.
     bnd (gas_backlog B p) (\<lambda>backlog.
     bnd (min_base_fee_wei B p) (\<lambda>min_base_fee.
     let tolerance_limit = tolerance * speed_limit in
     if tolerance_limit < backlog then
       let divisor = saturating_cast_to_i64 (sat_mul inertia speed_limit) in
       if divisor = 0 then set_base_fee_wei B p min_base_fee else
       let excess = saturating_cast_to_i64 (backlog - tolerance_limit);
           exponent_bips = truncated_div (natural_to_bips excess) divisor in
       bnd (calc_base_fee_from_exponent B p (i64_floor_u64 exponent_bips)) (\<lambda>base_fee.
       set_base_fee_wei B p base_fee)
     else set_base_fee_wei B p min_base_fee))))))"

definition update_pricing_model_single_constraints ::
  "'s backend \<Rightarrow> keccak \<Rightarrow> l2_pricing \<Rightarrow> u64 \<Rightarrow> ('s, unit, l2_pricing_error) comp" where
  "update_pricing_model_single_constraints B H p time_passed =
     bnd (gas_constraints_length B p) (\<lambda>len.
     bnd (fold_each (u64_range 0 len) (\<lambda>i total_exponent.
       let c = open_gas_constraint_at H p i in
       bnd (gas_target B c) (\<lambda>target.
       bnd (gas_get_backlog B c) (\<lambda>backlog.
       let gas = sat_mul time_passed target;
           new_backlog = sat_sub backlog gas in
       bnd (gas_set_backlog B c new_backlog) (\<lambda>_.
       if 0 < new_backlog then
         bnd (gas_adjustment_window B c) (\<lambda>window.
         let divisor = saturating_cast_to_i64 (sat_mul window target) in
         if divisor \<noteq> 0 then
           let exponent = truncated_div (natural_to_bips (saturating_cast_to_i64 new_backlog)) divisor in
           ret (i64_saturating_add total_exponent exponent)
         else ret total_exponent)
       else ret total_exponent)))) 0) (\<lambda>total_exponent.
     bnd (calc_base_fee_from_exponent B p (i64_floor_u64 total_exponent)) (\<lambda>base_fee.
     set_base_fee_wei B p base_fee)))"

definition update_multi_gas_constraints_backlogs ::
  "'s backend \<Rightarrow> keccak \<Rightarrow> l2_pricing \<Rightarrow> u64 \<Rightarrow> ('s, unit, l2_pricing_error) comp" where
  "update_multi_gas_constraints_backlogs B H p time_passed =
     bnd (multi_gas_constraints_length B p) (\<lambda>len.
     for_each (u64_range 0 len) (\<lambda>i.
       let c = open_multi_gas_constraint_at H p i in
       bnd (multi_target B c) (\<lambda>target.
       bnd (multi_get_backlog B c) (\<lambda>backlog.
       let gas = sat_mul time_passed target;
           new_backlog = sat_sub backlog gas in
       multi_set_backlog B c new_backlog))))"

definition add_kind_exponents :: "'s backend \<Rightarrow> keccak \<Rightarrow> multi_gas_constraint \<Rightarrow> u64 \<Rightarrow> int \<Rightarrow> int list
    \<Rightarrow> ('s, int list, l2_pricing_error) comp" where
  "add_kind_exponents B H c backlog divisor =
     fold_each all_kinds (\<lambda>kind exponent_per_kind.
       if kind = SingleDim then ret exponent_per_kind else
       bnd (resource_weight B H c kind) (\<lambda>weight.
       if weight = 0 then ret exponent_per_kind else
       let product = sat_mul backlog weight;
           dividend = natural_to_bips (saturating_cast_to_i64 product);
           exp = truncated_div dividend divisor in
       ret (exponent_per_kind[kind_id kind := i64_saturating_add (exponent_per_kind ! kind_id kind) exp])))"

definition calc_multi_gas_constraints_exponents ::
  "'s backend \<Rightarrow> keccak \<Rightarrow> l2_pricing \<Rightarrow> ('s, u64 list, l2_pricing_error) comp" where
  "calc_multi_gas_constraints_exponents B H p =
     bnd (multi_gas_constraints_length B p) (\<lambda>len.
     bnd (fold_each (u64_range 0 len) (\<lambda>i exponent_per_kind.
       let c = open_multi_gas_constraint_at H p i in
       bnd (multi_target B c) (\<lambda>target.
       bnd (multi_get_backlog B c) (\<lambda>backlog.
       if backlog = 0 then ret exponent_per_kind else
       bnd (multi_adjustment_window B c) (\<lambda>window.
       bnd (max_weight B c) (\<lambda>mw.
       if target = 0 \<or> window = 0 \<or> mw = 0 then ret exponent_per_kind else
       let divisor = saturating_cast_to_i64 (sat_mul (ucast window) (sat_mul target mw)) in
       if divisor = 0 then ret exponent_per_kind else
       add_kind_exponents B H c backlog divisor exponent_per_kind)))))
       (replicate NUM_RESOURCE_KIND 0)) (\<lambda>exponent_per_kind.
     ret (map i64_floor_u64 exponent_per_kind)))"

definition update_pricing_model_multi_constraints ::
  "'s backend \<Rightarrow> keccak \<Rightarrow> l2_pricing \<Rightarrow> u64 \<Rightarrow> ('s, unit, l2_pricing_error) comp" where
  "update_pricing_model_multi_constraints B H p time_passed =
     bnd (update_multi_gas_constraints_backlogs B H p time_passed) (\<lambda>_.
     bnd (calc_multi_gas_constraints_exponents B H p) (\<lambda>exponent_per_kind.
     bnd (min_base_fee_wei B p) (\<lambda>min_base_fee.
     bnd (fold_each [0..<length exponent_per_kind] (\<lambda>i max_base_fee.
       bnd (calc_base_fee_from_exponent B p (exponent_per_kind ! i)) (\<lambda>base_fee.
       bnd (case from_u8 (of_nat i) of
              Some kind \<Rightarrow> set_next_block_fee B H (l2_multi_gas_base_fees p) kind base_fee
            | None \<Rightarrow> ret ()) (\<lambda>_.
       ret (if max_base_fee < base_fee then base_fee else max_base_fee)))) min_base_fee) (\<lambda>max_base_fee.
     set_base_fee_wei B p max_base_fee))))"

definition update_pricing_model ::
  "'s backend \<Rightarrow> keccak \<Rightarrow> l2_pricing \<Rightarrow> u64 \<Rightarrow> u64 \<Rightarrow> ('s, unit, l2_pricing_error) comp" where
  "update_pricing_model B H p time_passed arbos_version =
     bnd (gas_model_to_use B p) (\<lambda>m.
     case m of
       SingleGasConstraints \<Rightarrow> update_pricing_model_single_constraints B H p time_passed
     | MultiGasConstraints \<Rightarrow> update_pricing_model_multi_constraints B H p time_passed
     | _ \<Rightarrow> update_pricing_model_legacy B p time_passed)"

definition get_multi_gas_base_fee_per_resource ::
  "'s backend \<Rightarrow> keccak \<Rightarrow> l2_pricing \<Rightarrow> ('s, u256 list, l2_pricing_error) comp" where
  "get_multi_gas_base_fee_per_resource B H p =
     bnd (base_fee_wei B p) (\<lambda>base_fee.
     fold_each all_kinds (\<lambda>kind fees.
       if kind = SingleDim then ret (fees[kind_id kind := base_fee]) else
       bnd (get_current_block_fee B H (l2_multi_gas_base_fees p) kind) (\<lambda>fee.
       ret (fees[kind_id kind := if fee = 0 then base_fee else fee]))) (replicate NUM_RESOURCE_KIND 0))"

definition get_current_multi_gas_fees ::
  "'s backend \<Rightarrow> keccak \<Rightarrow> l2_pricing \<Rightarrow> ('s, u256 list, l2_pricing_error) comp" where
  "get_current_multi_gas_fees B H p =
     fold_each all_kinds (\<lambda>kind fees.
       if kind = SingleDim then ret fees else
       bnd (get_current_block_fee B H (l2_multi_gas_base_fees p) kind) (\<lambda>fee.
       ret (fees[kind_id kind := fee]))) (replicate NUM_RESOURCE_KIND 0)"

definition commit_multi_gas_fees :: "'s backend \<Rightarrow> keccak \<Rightarrow> l2_pricing \<Rightarrow> ('s, unit, l2_pricing_error) comp" where
  "commit_multi_gas_fees B H p =
     bnd (gas_model_to_use B p) (\<lambda>m.
     if m \<noteq> MultiGasConstraints then ret ()
     else commit_next_to_current B H (l2_multi_gas_base_fees p))"

definition backlog_update_cost :: "'s backend \<Rightarrow> l2_pricing \<Rightarrow> ('s, u64, l2_pricing_error) comp" where
  "backlog_update_cost B p =
     (if 60 \<le> l2_arbos_version p then ret MULTI_CONSTRAINT_STATIC_BACKLOG_UPDATE_COST
      else
        let result = (if 50 \<le> l2_arbos_version p then STORAGE_READ_COST else 0) in
        bnd (if 51 \<le> l2_arbos_version p then gas_constraints_length B p else ret 0) (\<lambda>constraints_length.
        if 51 \<le> l2_arbos_version p \<and> 0 < constraints_length then
          ret (result + STORAGE_READ_COST + constraints_length * (STORAGE_READ_COST + STORAGE_WRITE_COST))
        else ret (result + (STORAGE_READ_COST + STORAGE_WRITE_COST))))"

definition set_gas_constraints_from_legacy ::
  "'s backend \<Rightarrow> keccak \<Rightarrow> l2_pricing \<Rightarrow> ('s, unit, l2_pricing_error) comp" where
  "set_gas_constraints_from_legacy B H p =
     bnd (clear_gas_constraints B H p) (\<lambda>_.
     bnd (speed_limit_per_second B p) (\<lambda>target.
     bnd (pricing_inertia B p) (\<lambda>adjustment_window.
     bnd (gas_backlog B p) (\<lambda>old_backlog.
     bnd (backlog_tolerance B p) (\<lambda>tolerance.
     let backlog = sat_sub old_backlog (sat_mul tolerance target) in
     add_gas_constraint B H p target adjustment_window backlog)))))"

definition set_multi_gas_constraints_from_single_gas_constraints ::
  "'s backend \<Rightarrow> keccak \<Rightarrow> l2_pricing \<Rightarrow> ('s, unit, l2_pricing_error) comp" where
  "set_multi_gas_constraints_from_single_gas_constraints B H p =
     bnd (clear_multi_gas_constraints B H p) (\<lambda>_.
     bnd (gas_constraints_length B p) (\<lambda>len.
     for_each (u64_range 0 len) (\<lambda>i.
       let c = open_gas_constraint_at H p i in
       bnd (gas_target B c) (\<lambda>target.
       bnd (gas_adjustment_window B c) (\<lambda>window.
       bnd (gas_get_backlog B c) (\<lambda>backlog.
       let weights = replicate NUM_RESOURCE_KIND 1;
           adjustment_window = (if 2 ^ 32 - 1 < window then 2 ^ 32 - 1 else ucast window) in
       add_multi_gas_constraint B H p target adjustment_window backlog weights))))))"

definition multi_dimensional_price_for_refund ::
  "'s backend \<Rightarrow> keccak \<Rightarrow> l2_pricing \<Rightarrow> multi_gas \<Rightarrow> ('s, u256, l2_pricing_error) comp" where
  "multi_dimensional_price_for_refund B H p gas_used =
     bnd (get_multi_gas_base_fee_per_resource B H p) (\<lambda>fees.
     ret (foldl (\<lambda>total kind.
       let amount = mg_get gas_used kind in
       if amount = 0 then total
       else sat_add total (sat_mul (ucast amount) (fees ! kind_id kind))) 0 all_kinds))"

definition multi_dimensional_price_for_refund_with_fees ::
  "'s backend \<Rightarrow> l2_pricing \<Rightarrow> multi_gas \<Rightarrow> u256 list \<Rightarrow> ('s, u256, l2_pricing_error) comp" where
  "multi_dimensional_price_for_refund_with_fees B p gas_used cached_fees =
     bnd (base_fee_wei B p) (\<lambda>base_fee.
     ret (foldl (\<lambda>total kind.
       let amount = mg_get gas_used kind in
       if amount = 0 then total
       else
         let fee = (if kind = SingleDim then base_fee
                    else let cached = cached_fees ! kind_id kind in if cached = 0 then base_fee else cached) in
         sat_add total (sat_mul (ucast amount) fee)) 0 all_kinds))"

end
