(* ===== verification/L2_Store.thy ===== *)
theory L2_Store
  imports L2_Pricing
begin

text \<open>
  What the storage of the L2 pricing state means: \<open>l2_at\<close> relates the cells to a \<open>l2_view\<close>, a plain
  record of parameters, constraints and fees, and every operation of \<open>L2_Pricing\<close> runs as a function on
  views. The functions on views (\<open>drain\<close>, \<open>exponent_of\<close>, \<open>price\<close>) are the specification of the
  pricing models.
\<close>

section \<open>Loops over an index range\<close>

lemma fold_range_run:
  assumes "\<And>i a s. i < n \<Longrightarrow> I i a s \<Longrightarrow> \<exists>a' s'. f (of_nat i) a s = (Ok a', s') \<and> I (Suc i) a' s'"
    and "I 0 a s" and "n < 2 ^ 64"
  shows "\<exists>a' s'. fold_each (u64_range 0 (of_nat n)) f a s = (Ok a', s') \<and> I n a' s'"
proof -
  have "\<exists>a' s'. fold_each (map of_nat [0..<m]) f a s = (Ok a', s') \<and> I m a' s'" if "m \<le> n" for m
    using that
  proof (induction m)
    case 0
    then show ?case using assms(2) by (simp add: run_simps)
  next
    case (Suc m)
    then obtain a' s' where "fold_each (map of_nat [0..<m]) f a s = (Ok a', s')" and I: "I m a' s'" by auto
    moreover obtain a2 s2 where "f (of_nat m) a' s' = (Ok a2, s2)" and "I (Suc m) a2 s2"
      using assms(1) [OF _ I] Suc.prems by auto
    ultimately show ?case by (simp add: fold_each_append run_simps)
  qed
  from this [of n] show ?thesis using assms(3) by (simp add: u64_range_def unat_of_nat_u64)
qed

lemma for_range_run:
  fixes f :: "u64 \<Rightarrow> ('s, unit, 'e) comp"
  assumes "\<And>i s. i < n \<Longrightarrow> I i s \<Longrightarrow> \<exists>s'. f (of_nat i) s = (Ok (), s') \<and> I (Suc i) s'"
    and "I 0 s" and "n < 2 ^ 64"
  shows "\<exists>s'. for_each (u64_range 0 (of_nat n)) f s = (Ok (), s') \<and> I n s'"
proof -
  have unit: "(\<lambda>_ :: unit. g ()) = g" for g :: "unit \<Rightarrow> ('s, unit, 'e) comp"
    by (rule ext) simp
  have *: "for_each xs f = fold_each xs (\<lambda>i _. f i) ()" for xs
    by (induction xs) (simp_all add: unit)
  show ?thesis
    unfolding * using fold_range_run [of n "\<lambda>i _. I i" "\<lambda>i _. f i" "()" s] assms by simp
qed

lemma of_nat_pred: "0 < n \<Longrightarrow> (of_nat n :: u64) - 1 = of_nat (n - 1)"
  by (simp add: of_nat_diff Suc_le_eq)

lemma counter_pred: "0 < n \<Longrightarrow> n < 2 ^ 64 \<Longrightarrow> ucast (of_nat n - 1 :: u64) = (of_nat (n - 1) :: u256)"
  by (simp only: of_nat_pred) (rule ucast_of_nat_u64, linarith)

lemma counter_pos: "0 < n \<Longrightarrow> n < 2 ^ 64 \<Longrightarrow> (of_nat n :: u64) \<noteq> 0"
  by (simp only: of_nat_u64_zero_iff)

section \<open>The view of the pricing state\<close>

record gas_cst =
  g_target :: u64
  g_window :: u64
  g_backlog :: u64

record multi_cst =
  m_target :: u64
  m_window :: u32
  m_backlog :: u64
  m_max :: u64
  m_weight :: "resource_kind \<Rightarrow> u64"

record l2_view =
  v_speed :: u64
  v_block_limit :: u64
  v_base_fee :: u256
  v_min_fee :: u256
  v_backlog :: u64
  v_inertia :: u64
  v_tolerance :: u64
  v_tx_limit :: u64
  v_gas_len :: nat
  v_gas :: "nat \<Rightarrow> gas_cst"
  v_multi_len :: nat
  v_multi :: "nat \<Rightarrow> multi_cst"
  v_next :: "resource_kind \<Rightarrow> u256"
  v_current :: "resource_kind \<Rightarrow> u256"

text \<open>The subspaces of the pricing state; elements of the two vectors are used below a bound \<open>N\<close>.\<close>

datatype l2_key = L2_Root | L2_Gas_Vec | L2_Multi_Vec | L2_Fees | L2_Gas nat | L2_Multi nat

primrec l2_key_of :: "keccak \<Rightarrow> u256 \<Rightarrow> l2_key \<Rightarrow> u256" where
  "l2_key_of H k L2_Root = k"
| "l2_key_of H k L2_Gas_Vec = derive_sub_key H k [0]"
| "l2_key_of H k L2_Multi_Vec = derive_sub_key H k [1]"
| "l2_key_of H k L2_Fees = derive_sub_key H k [2]"
| "l2_key_of H k (L2_Gas i) = derive_sub_key H (derive_sub_key H k [0]) (be_bytes 8 (of_nat i :: u64))"
| "l2_key_of H k (L2_Multi i) = derive_sub_key H (derive_sub_key H k [1]) (be_bytes 8 (of_nat i :: u64))"

declare l2_key_of.simps [simp del]

definition l2_keys :: "nat \<Rightarrow> l2_key set" where
  "l2_keys N = {L2_Root, L2_Gas_Vec, L2_Multi_Vec, L2_Fees} \<union> L2_Gas ` {..<N} \<union> L2_Multi ` {..<N}"

lemma l2_keys_simps [simp]:
  "L2_Root \<in> l2_keys N" "L2_Gas_Vec \<in> l2_keys N" "L2_Multi_Vec \<in> l2_keys N" "L2_Fees \<in> l2_keys N"
  "L2_Gas i \<in> l2_keys N \<longleftrightarrow> i < N" "L2_Multi i \<in> l2_keys N \<longleftrightarrow> i < N"
  by (auto simp: l2_keys_def)

definition l2_keys_ok :: "keccak \<Rightarrow> u256 \<Rightarrow> nat \<Rightarrow> bool" where
  "l2_keys_ok H k N \<longleftrightarrow> inj_on (l2_key_of H k) (l2_keys N) \<and> N < 2 ^ 64"

definition l2_cells :: "keccak \<Rightarrow> u256 \<Rightarrow> nat \<Rightarrow> cell_id set" where
  "l2_cells H k N = (\<Union>x \<in> l2_keys N. range (at (l2_key_of H k x)))"

definition gas_cst_at :: "(cell_id \<Rightarrow> u256) \<Rightarrow> u256 \<Rightarrow> gas_cst \<Rightarrow> bool" where
  "gas_cst_at c k g \<longleftrightarrow>
     c (at k 0) = ucast (g_target g) \<and> c (at k 1) = ucast (g_window g) \<and> c (at k 2) = ucast (g_backlog g)"

definition multi_cst_at :: "(cell_id \<Rightarrow> u256) \<Rightarrow> u256 \<Rightarrow> multi_cst \<Rightarrow> bool" where
  "multi_cst_at c k m \<longleftrightarrow>
     c (at k 0) = ucast (m_target m) \<and> c (at k 1) = ucast (m_window m) \<and> c (at k 2) = ucast (m_backlog m) \<and>
     c (at k 3) = ucast (m_max m) \<and>
     (\<forall>kd. c (at k (4 + of_nat (kind_id kd))) = ucast (m_weight m kd))"

definition fees_at :: "(cell_id \<Rightarrow> u256) \<Rightarrow> u256 \<Rightarrow> (resource_kind \<Rightarrow> u256) \<Rightarrow> (resource_kind \<Rightarrow> u256) \<Rightarrow> bool" where
  "fees_at c k nxt cur \<longleftrightarrow>
     (\<forall>kd. c (at k (of_nat (kind_id kd))) = nxt kd) \<and> (\<forall>kd. c (at k (9 + of_nat (kind_id kd))) = cur kd)"

definition l2_at :: "keccak \<Rightarrow> (cell_id \<Rightarrow> u256) \<Rightarrow> u256 \<Rightarrow> nat \<Rightarrow> l2_view \<Rightarrow> bool" where
  "l2_at H c k N v \<longleftrightarrow>
     (let r = l2_key_of H k L2_Root in
       c (at r 0) = ucast (v_speed v) \<and> c (at r 1) = ucast (v_block_limit v) \<and> c (at r 2) = v_base_fee v \<and>
       c (at r 3) = v_min_fee v \<and> c (at r 4) = ucast (v_backlog v) \<and> c (at r 5) = ucast (v_inertia v) \<and>
       c (at r 6) = ucast (v_tolerance v) \<and> c (at r 7) = ucast (v_tx_limit v)) \<and>
     c (at (l2_key_of H k L2_Gas_Vec) 0) = of_nat (v_gas_len v) \<and> v_gas_len v \<le> N \<and>
     c (at (l2_key_of H k L2_Multi_Vec) 0) = of_nat (v_multi_len v) \<and> v_multi_len v \<le> N \<and>
     (\<forall>i < N. gas_cst_at c (l2_key_of H k (L2_Gas i)) (v_gas v i)) \<and>
     (\<forall>i < N. multi_cst_at c (l2_key_of H k (L2_Multi i)) (v_multi v i)) \<and>
     fees_at c (l2_key_of H k L2_Fees) (v_next v) (v_current v)"

lemma kind_offsets [simp]:
  "(of_nat (kind_id kd) :: u64) = of_nat (kind_id kd') \<longleftrightarrow> kd = kd'"
  "(9 + of_nat (kind_id kd) :: u64) \<noteq> of_nat (kind_id kd')" "(of_nat (kind_id kd') :: u64) \<noteq> 9 + of_nat (kind_id kd)"
  "(4 + of_nat (kind_id kd) :: u64) \<noteq> 0" "(4 + of_nat (kind_id kd) :: u64) \<noteq> 1"
  "(4 + of_nat (kind_id kd) :: u64) \<noteq> 2" "(4 + of_nat (kind_id kd) :: u64) \<noteq> 3"
  "0 \<noteq> (4 + of_nat (kind_id kd) :: u64)" "1 \<noteq> (4 + of_nat (kind_id kd) :: u64)"
  "2 \<noteq> (4 + of_nat (kind_id kd) :: u64)" "3 \<noteq> (4 + of_nat (kind_id kd) :: u64)"
  by (cases kd; cases kd'; simp)+

section \<open>Opening the state\<close>

abbreviation l2_open :: "keccak \<Rightarrow> u256 \<Rightarrow> u64 \<Rightarrow> l2_pricing" where
  "l2_open H k ver \<equiv> open_l2_pricing_state H (storage_new k) ver"

lemma l2_open_fields:
  "l2_speed_limit (l2_open H k ver) = backed_new H (l2_key_of H k L2_Root) 0"
  "l2_per_block_gas_limit (l2_open H k ver) = backed_new H (l2_key_of H k L2_Root) 1"
  "l2_base_fee (l2_open H k ver) = backed_new H (l2_key_of H k L2_Root) 2"
  "l2_min_base_fee (l2_open H k ver) = backed_new H (l2_key_of H k L2_Root) 3"
  "l2_gas_backlog (l2_open H k ver) = backed_new H (l2_key_of H k L2_Root) 4"
  "l2_pricing_inertia (l2_open H k ver) = backed_new H (l2_key_of H k L2_Root) 5"
  "l2_backlog_tolerance (l2_open H k ver) = backed_new H (l2_key_of H k L2_Root) 6"
  "l2_per_tx_gas_limit (l2_open H k ver) = backed_new H (l2_key_of H k L2_Root) 7"
  "l2_arbos_version (l2_open H k ver) = ver"
  "l2_gas_constraints (l2_open H k ver) = open_sub_storage_vector_at H (l2_key_of H k L2_Gas_Vec)"
  "l2_multi_gas_constraints (l2_open H k ver) = open_sub_storage_vector_at H (l2_key_of H k L2_Multi_Vec)"
  "base_key (l2_multi_gas_base_fees (l2_open H k ver)) = l2_key_of H k L2_Fees"
  by (simp_all add: open_l2_pricing_state_def Let_def l2_key_of.simps open_sub_storage_vector_def
      open_sub_storage_def storage_new_def)

lemma vector_keys:
  "vector_at H (open_sub_storage_vector_at H (l2_key_of H k L2_Gas_Vec)) (of_nat i) = l2_key_of H k (L2_Gas i)"
  "vector_at H (open_sub_storage_vector_at H (l2_key_of H k L2_Multi_Vec)) (of_nat i) = l2_key_of H k (L2_Multi i)"
  by (simp_all add: vector_at_def open_sub_storage_vector_at_def l2_key_of.simps)

lemma weight_slot_slot: "weight_slot H bk i = slot H bk (ucast (4 + i))"
  unfolding compute_slot_slot [symmetric]
  by (simp add: weight_slot_def compute_slot_def storage_key_def)

section \<open>The pricing models on views\<close>

definition drain_gas :: "u64 \<Rightarrow> gas_cst \<Rightarrow> gas_cst" where
  "drain_gas t g = g\<lparr>g_backlog := sat_sub (g_backlog g) (sat_mul t (g_target g))\<rparr>"

definition drain_multi :: "u64 \<Rightarrow> multi_cst \<Rightarrow> multi_cst" where
  "drain_multi t m = m\<lparr>m_backlog := sat_sub (m_backlog m) (sat_mul t (m_target m))\<rparr>"

text \<open>What one constraint adds to an exponent in basis points.\<close>

definition add_exponent :: "int \<Rightarrow> gas_cst \<Rightarrow> int" where
  "add_exponent e g =
     (let d = saturating_cast_to_i64 (sat_mul (g_window g) (g_target g)) in
      if 0 < g_backlog g \<and> d \<noteq> 0
      then i64_saturating_add e (truncated_div (natural_to_bips (saturating_cast_to_i64 (g_backlog g))) d)
      else e)"

definition add_kind_exponent :: "multi_cst \<Rightarrow> resource_kind \<Rightarrow> int \<Rightarrow> int" where
  "add_kind_exponent m kd e =
     (let d = saturating_cast_to_i64 (sat_mul (ucast (m_window m)) (sat_mul (m_target m) (m_max m))) in
      if m_backlog m = 0 \<or> m_target m = 0 \<or> m_window m = 0 \<or> m_max m = 0 \<or> d = 0 \<or> kd = SingleDim \<or> m_weight m kd = 0
      then e
      else i64_saturating_add e
        (truncated_div (natural_to_bips (saturating_cast_to_i64 (sat_mul (m_backlog m) (m_weight m kd)))) d))"

definition exp4 :: "u64 \<Rightarrow> u64" where
  "exp4 e = (case approx_exp_basis_points e 4 of Some r \<Rightarrow> r | None \<Rightarrow> 0)"

definition price :: "u256 \<Rightarrow> u64 \<Rightarrow> u256" where
  "price min_fee e = (if e = 0 then min_fee else max min_fee (min_fee * ucast (exp4 e) div 10000))"

lemma approx_exp_exp4: "approx_exp_basis_points e 4 = Some (exp4 e)"
  by (rule approx_exp_mono [of 4 e e]) (simp_all add: exp4_def)

definition legacy_exponent :: "l2_view \<Rightarrow> u64" where
  "legacy_exponent v =
     (let limit = v_tolerance v * v_speed v; d = saturating_cast_to_i64 (sat_mul (v_inertia v) (v_speed v)) in
      if limit < v_backlog v \<and> d \<noteq> 0
      then i64_floor_u64 (truncated_div (natural_to_bips (saturating_cast_to_i64 (v_backlog v - limit))) d)
      else 0)"

definition gas_exponent :: "l2_view \<Rightarrow> u64" where
  "gas_exponent v = i64_floor_u64 (foldl add_exponent 0 (map (v_gas v) [0..<v_gas_len v]))"

definition kind_exponent :: "l2_view \<Rightarrow> resource_kind \<Rightarrow> u64" where
  "kind_exponent v kd = i64_floor_u64 (fold (\<lambda>m. add_kind_exponent m kd) (map (v_multi v) [0..<v_multi_len v]) 0)"

definition legacy_model :: "u64 \<Rightarrow> l2_view \<Rightarrow> l2_view" where
  "legacy_model t v =
     (let v' = v\<lparr>v_backlog := sat_sub (v_backlog v) (sat_mul t (v_speed v))\<rparr> in
      v'\<lparr>v_base_fee := price (v_min_fee v) (legacy_exponent v')\<rparr>)"

definition single_model :: "u64 \<Rightarrow> l2_view \<Rightarrow> l2_view" where
  "single_model t v =
     (let v' = v\<lparr>v_gas := \<lambda>i. if i < v_gas_len v then drain_gas t (v_gas v i) else v_gas v i\<rparr> in
      v'\<lparr>v_base_fee := price (v_min_fee v) (gas_exponent v')\<rparr>)"

definition multi_model :: "u64 \<Rightarrow> l2_view \<Rightarrow> l2_view" where
  "multi_model t v =
     (let v' = v\<lparr>v_multi := \<lambda>i. if i < v_multi_len v then drain_multi t (v_multi v i) else v_multi v i\<rparr> in
      v'\<lparr>v_next := \<lambda>kd. price (v_min_fee v) (kind_exponent v' kd),
         v_base_fee := foldl max (v_min_fee v) (map (\<lambda>kd. price (v_min_fee v) (kind_exponent v' kd)) all_kinds)\<rparr>)"

definition active_model :: "u64 \<Rightarrow> l2_view \<Rightarrow> gas_model" where
  "active_model ver v =
     (if 60 \<le> ver \<and> 0 < v_multi_len v then MultiGasConstraints
      else if 50 \<le> ver \<and> 0 < v_gas_len v then SingleGasConstraints else Legacy)"

definition next_prices :: "u64 \<Rightarrow> u64 \<Rightarrow> l2_view \<Rightarrow> l2_view" where
  "next_prices ver t v =
     (case active_model ver v of
        MultiGasConstraints \<Rightarrow> multi_model t v
      | SingleGasConstraints \<Rightarrow> single_model t v
      | _ \<Rightarrow> legacy_model t v)"

definition weighted_backlog :: "backlog_operation \<Rightarrow> multi_gas \<Rightarrow> multi_cst \<Rightarrow> multi_cst" where
  "weighted_backlog op gas m =
     m\<lparr>m_backlog := foldl (\<lambda>b kd. apply_gas_delta_op op b (sat_mul (mg_get gas kd) (m_weight m kd)))
         (m_backlog m) all_kinds\<rparr>"

definition backlog_step :: "u64 \<Rightarrow> backlog_operation \<Rightarrow> u64 \<Rightarrow> multi_gas \<Rightarrow> l2_view \<Rightarrow> l2_view" where
  "backlog_step ver op used mused v =
     (case active_model ver v of
        MultiGasConstraints \<Rightarrow>
          v\<lparr>v_multi := \<lambda>i. if i < v_multi_len v then weighted_backlog op mused (v_multi v i) else v_multi v i\<rparr>
      | SingleGasConstraints \<Rightarrow>
          v\<lparr>v_gas := \<lambda>i. if i < v_gas_len v
             then (v_gas v i)\<lparr>g_backlog := apply_gas_delta_op op (g_backlog (v_gas v i)) used\<rparr> else v_gas v i\<rparr>
      | _ \<Rightarrow> v\<lparr>v_backlog := apply_gas_delta_op op (v_backlog v) used\<rparr>)"

definition with_weights :: "nat \<Rightarrow> (resource_kind \<Rightarrow> u64) \<Rightarrow> l2_view \<Rightarrow> l2_view" where
  "with_weights i w v = v\<lparr>v_multi := (v_multi v)(i := (v_multi v i)\<lparr>m_weight := w\<rparr>)\<rparr>"

lemma with_weights_same:
  "with_weights i w' (with_weights i w v) = with_weights i w' v" "m_weight (v_multi (with_weights i w v) i) = w"
  "with_weights i (m_weight (v_multi v i)) v = v"
  by (simp_all add: with_weights_def)

definition upd_multi :: "nat \<Rightarrow> (multi_cst \<Rightarrow> multi_cst) \<Rightarrow> l2_view \<Rightarrow> l2_view" where
  "upd_multi i f v = v\<lparr>v_multi := (v_multi v)(i := f (v_multi v i))\<rparr>"

lemma upd_multi_upd: "upd_multi i f (upd_multi i g v) = upd_multi i (\<lambda>m. f (g m)) v"
  by (simp add: upd_multi_def)

lemma gas_cst_all: "g\<lparr>g_target := t, g_window := w, g_backlog := b\<rparr> = \<lparr>g_target = t, g_window = w, g_backlog = b\<rparr>"
  by (cases g) simp

lemma multi_cst_all:
  "m\<lparr>m_target := t, m_window := w, m_backlog := b, m_weight := ws, m_max := x\<rparr> =
   \<lparr>m_target = t, m_window = w, m_backlog = b, m_max = x, m_weight = ws\<rparr>"
  by (cases m) simp

lemma kind_list:
  "length all_kinds = 9" "(map e all_kinds) ! kind_id kd = e kd"
  "(map e all_kinds)[kind_id kd := x] = map (e(kd := x)) all_kinds" "distinct all_kinds" "kd \<in> set all_kinds"
  "map kind_id all_kinds = [0..<9]" "from_u8 (of_nat (kind_id kd)) = Some kd"
  by (cases kd; simp add: all_kinds_def from_u8_def upt_rec [of _ 9])+

section \<open>Operations on the stored state\<close>

locale l2_store = arb_store B H F ok cell poke
  for B :: "'s backend" and H F ok cell poke +
  fixes k :: u256 and N :: nat and ver :: u64
  assumes ok_keys: "ok s \<Longrightarrow> l2_keys_ok H k N" and l2_footprint: "l2_cells H k N \<subseteq> F"
begin

abbreviation K :: "l2_key \<Rightarrow> u256" where
  "K \<equiv> l2_key_of H k"

abbreviation p :: l2_pricing where
  "p \<equiv> l2_open H k ver"

abbreviation ls :: "'s \<Rightarrow> l2_view \<Rightarrow> bool" where
  "ls s v \<equiv> ok s \<and> l2_at H (cell s) k N v"

abbreviation goes :: "'s \<Rightarrow> 's \<Rightarrow> l2_view \<Rightarrow> bool" where
  "goes s s' v \<equiv> ls s' v \<and> (\<forall>l \<in> F - l2_cells H k N. cell s' l = cell s l)"

lemma K_in_cells: "x \<in> l2_keys N \<Longrightarrow> at (K x) off \<in> l2_cells H k N"
  by (auto simp: l2_cells_def)

lemma K_in_F: "x \<in> l2_keys N \<Longrightarrow> at (K x) off \<in> F"
  using K_in_cells l2_footprint by blast

lemma cell_K:
  assumes "ok s" and "x \<in> l2_keys N" and "y \<in> l2_keys N"
  shows "cell (poke s (at (K x) off) w) (at (K y) off') = (if y = x \<and> off' = off then w else cell s (at (K y) off'))"
proof -
  have "K y = K x \<longleftrightarrow> y = x"
    using ok_keys [OF assms(1)] assms(2,3) by (auto simp: l2_keys_ok_def inj_on_def)
  then show ?thesis
    using cell_poke [OF assms(1) K_in_F [OF assms(2)] K_in_F [OF assms(3)]] by simp
qed

lemma poke_elsewhere:
  assumes "ok s" and "x \<in> l2_keys N"
  shows "\<forall>l \<in> F - l2_cells H k N. cell (poke s (at (K x) off) w) l = cell s l"
  using cell_poke_other [OF assms(1) l2_footprint K_in_cells [OF assms(2)]] by blast

lemma small_N: "ls s v \<Longrightarrow> N < 2 ^ 64"
  using ok_keys [of s] by (simp add: l2_keys_ok_def)

lemma root_pokes:
  assumes "ls s v"
  shows "goes s (poke s (at (K L2_Root) 0) (ucast x)) (v\<lparr>v_speed := x\<rparr>)"
    and "goes s (poke s (at (K L2_Root) 1) (ucast x)) (v\<lparr>v_block_limit := x\<rparr>)"
    and "goes s (poke s (at (K L2_Root) 2) f) (v\<lparr>v_base_fee := f\<rparr>)"
    and "goes s (poke s (at (K L2_Root) 3) f) (v\<lparr>v_min_fee := f\<rparr>)"
    and "goes s (poke s (at (K L2_Root) 4) (ucast x)) (v\<lparr>v_backlog := x\<rparr>)"
    and "goes s (poke s (at (K L2_Root) 5) (ucast x)) (v\<lparr>v_inertia := x\<rparr>)"
    and "goes s (poke s (at (K L2_Root) 6) (ucast x)) (v\<lparr>v_tolerance := x\<rparr>)"
    and "goes s (poke s (at (K L2_Root) 7) (ucast x)) (v\<lparr>v_tx_limit := x\<rparr>)"
  using assms
  by (simp_all add: ok_poke poke_elsewhere l2_at_def Let_def cell_K gas_cst_at_def multi_cst_at_def fees_at_def)

lemma length_pokes:
  assumes "ls s v" and "n \<le> N"
  shows "goes s (poke s (at (K L2_Gas_Vec) 0) (of_nat n)) (v\<lparr>v_gas_len := n\<rparr>)"
    and "goes s (poke s (at (K L2_Multi_Vec) 0) (of_nat n)) (v\<lparr>v_multi_len := n\<rparr>)"
  using assms
  by (simp_all add: ok_poke poke_elsewhere l2_at_def Let_def cell_K gas_cst_at_def multi_cst_at_def fees_at_def)

lemma gas_pokes:
  assumes "ls s v" and "i < N"
  shows "goes s (poke s (at (K (L2_Gas i)) 0) (ucast x)) (v\<lparr>v_gas := (v_gas v)(i := (v_gas v i)\<lparr>g_target := x\<rparr>)\<rparr>)"
    and "goes s (poke s (at (K (L2_Gas i)) 1) (ucast x)) (v\<lparr>v_gas := (v_gas v)(i := (v_gas v i)\<lparr>g_window := x\<rparr>)\<rparr>)"
    and "goes s (poke s (at (K (L2_Gas i)) 2) (ucast x)) (v\<lparr>v_gas := (v_gas v)(i := (v_gas v i)\<lparr>g_backlog := x\<rparr>)\<rparr>)"
  using assms
  by (simp_all add: ok_poke poke_elsewhere l2_at_def Let_def cell_K gas_cst_at_def multi_cst_at_def fees_at_def)

lemma multi_pokes:
  assumes "ls s v" and "i < N"
  shows "goes s (poke s (at (K (L2_Multi i)) 0) (ucast x)) (v\<lparr>v_multi := (v_multi v)(i := (v_multi v i)\<lparr>m_target := x\<rparr>)\<rparr>)"
    and "goes s (poke s (at (K (L2_Multi i)) 1) (ucast y)) (v\<lparr>v_multi := (v_multi v)(i := (v_multi v i)\<lparr>m_window := y\<rparr>)\<rparr>)"
    and "goes s (poke s (at (K (L2_Multi i)) 2) (ucast x)) (v\<lparr>v_multi := (v_multi v)(i := (v_multi v i)\<lparr>m_backlog := x\<rparr>)\<rparr>)"
    and "goes s (poke s (at (K (L2_Multi i)) 3) (ucast x)) (v\<lparr>v_multi := (v_multi v)(i := (v_multi v i)\<lparr>m_max := x\<rparr>)\<rparr>)"
    and "goes s (poke s (at (K (L2_Multi i)) (4 + of_nat (kind_id kd))) (ucast x))
      (v\<lparr>v_multi := (v_multi v)(i := (v_multi v i)\<lparr>m_weight := (m_weight (v_multi v i))(kd := x)\<rparr>)\<rparr>)"
  using assms
  by (simp_all add: ok_poke poke_elsewhere l2_at_def Let_def cell_K gas_cst_at_def multi_cst_at_def fees_at_def)

lemma fee_pokes:
  assumes "ls s v"
  shows "goes s (poke s (at (K L2_Fees) (of_nat (kind_id kd))) f) (v\<lparr>v_next := (v_next v)(kd := f)\<rparr>)"
    and "goes s (poke s (at (K L2_Fees) (9 + of_nat (kind_id kd))) f) (v\<lparr>v_current := (v_current v)(kd := f)\<rparr>)"
  using assms
  by (simp_all add: ok_poke poke_elsewhere l2_at_def Let_def cell_K gas_cst_at_def multi_cst_at_def fees_at_def)

lemma l2_reads:
  assumes "ls s v"
  shows "base_fee_wei B p s = (Ok (v_base_fee v), s)"
    and "min_base_fee_wei B p s = (Ok (v_min_fee v), s)"
    and "speed_limit_per_second B p s = (Ok (v_speed v), s)"
    and "per_block_gas_limit B p s = (Ok (v_block_limit v), s)"
    and "per_tx_gas_limit B p s = (Ok (v_tx_limit v), s)"
    and "gas_backlog B p s = (Ok (v_backlog v), s)"
    and "pricing_inertia B p s = (Ok (v_inertia v), s)"
    and "backlog_tolerance B p s = (Ok (v_tolerance v), s)"
    and "gas_constraints_length B p s = (Ok (of_nat (v_gas_len v)), s)"
    and "multi_gas_constraints_length B p s = (Ok (of_nat (v_multi_len v)), s)"
  using assms small_N [OF assms]
  by (simp_all add: base_fee_wei_def min_base_fee_wei_def speed_limit_per_second_def per_block_gas_limit_def
      per_tx_gas_limit_def gas_backlog_def pricing_inertia_def backlog_tolerance_def gas_constraints_length_def
      multi_gas_constraints_length_def l2_open_fields map_err_Ok store_simps l2_at_def Let_def vector_length_def
      open_sub_storage_vector_at_def narrow_of_nat)

lemma l2_writes:
  assumes "ls s v"
  shows "\<exists>s'. set_base_fee_wei B p f s = (Ok (), s') \<and> goes s s' (v\<lparr>v_base_fee := f\<rparr>)"
    and "\<exists>s'. set_min_base_fee_wei B p f s = (Ok (), s') \<and> goes s s' (v\<lparr>v_min_fee := f\<rparr>)"
    and "\<exists>s'. set_speed_limit_per_second B p x s = (Ok (), s') \<and> goes s s' (v\<lparr>v_speed := x\<rparr>)"
    and "\<exists>s'. set_max_per_block_gas_limit B p x s = (Ok (), s') \<and> goes s s' (v\<lparr>v_block_limit := x\<rparr>)"
    and "\<exists>s'. set_max_per_tx_gas_limit B p x s = (Ok (), s') \<and> goes s s' (v\<lparr>v_tx_limit := x\<rparr>)"
    and "\<exists>s'. set_gas_backlog B p x s = (Ok (), s') \<and> goes s s' (v\<lparr>v_backlog := x\<rparr>)"
    and "\<exists>s'. set_pricing_inertia B p x s = (Ok (), s') \<and> goes s s' (v\<lparr>v_inertia := x\<rparr>)"
    and "\<exists>s'. set_backlog_tolerance B p x s = (Ok (), s') \<and> goes s s' (v\<lparr>v_tolerance := x\<rparr>)"
proof -
  note unfold = l2_open_fields uint64_set_run biguint_set_run map_err_Ok
  have ok: "ok s" using assms by blast
  show "\<exists>s'. set_base_fee_wei B p f s = (Ok (), s') \<and> goes s s' (v\<lparr>v_base_fee := f\<rparr>)"
    using root_pokes(3) [OF assms] ok by (simp add: set_base_fee_wei_def unfold)
  show "\<exists>s'. set_min_base_fee_wei B p f s = (Ok (), s') \<and> goes s s' (v\<lparr>v_min_fee := f\<rparr>)"
    using root_pokes(4) [OF assms] ok by (simp add: set_min_base_fee_wei_def unfold)
  show "\<exists>s'. set_speed_limit_per_second B p x s = (Ok (), s') \<and> goes s s' (v\<lparr>v_speed := x\<rparr>)"
    using root_pokes(1) [OF assms] ok by (simp add: set_speed_limit_per_second_def unfold)
  show "\<exists>s'. set_max_per_block_gas_limit B p x s = (Ok (), s') \<and> goes s s' (v\<lparr>v_block_limit := x\<rparr>)"
    using root_pokes(2) [OF assms] ok by (simp add: set_max_per_block_gas_limit_def unfold)
  show "\<exists>s'. set_max_per_tx_gas_limit B p x s = (Ok (), s') \<and> goes s s' (v\<lparr>v_tx_limit := x\<rparr>)"
    using root_pokes(8) [OF assms] ok by (simp add: set_max_per_tx_gas_limit_def unfold)
  show "\<exists>s'. set_gas_backlog B p x s = (Ok (), s') \<and> goes s s' (v\<lparr>v_backlog := x\<rparr>)"
    using root_pokes(5) [OF assms] ok by (simp add: set_gas_backlog_def unfold)
  show "\<exists>s'. set_pricing_inertia B p x s = (Ok (), s') \<and> goes s s' (v\<lparr>v_inertia := x\<rparr>)"
    using root_pokes(6) [OF assms] ok by (simp add: set_pricing_inertia_def unfold)
  show "\<exists>s'. set_backlog_tolerance B p x s = (Ok (), s') \<and> goes s s' (v\<lparr>v_tolerance := x\<rparr>)"
    using root_pokes(7) [OF assms] ok by (simp add: set_backlog_tolerance_def unfold)
qed

lemma goes_trans: "goes s s' v \<Longrightarrow> goes s' s'' w \<Longrightarrow> goes s s'' w"
  by auto

lemma goes_refl: "ls s v \<Longrightarrow> goes s s v"
  by simp

lemma gas_reads:
  assumes "ls s v" and "i < N"
  shows "gas_target B (open_gas_constraint_at H p (of_nat i)) s = (Ok (g_target (v_gas v i)), s)"
    and "gas_adjustment_window B (open_gas_constraint_at H p (of_nat i)) s = (Ok (g_window (v_gas v i)), s)"
    and "gas_get_backlog B (open_gas_constraint_at H p (of_nat i)) s = (Ok (g_backlog (v_gas v i)), s)"
  using assms
  by (simp_all add: gas_target_def gas_adjustment_window_def gas_get_backlog_def open_gas_constraint_at_def
      open_gas_constraint_def l2_open_fields vector_keys map_err_Ok uint64_get_run l2_at_def gas_cst_at_def)

lemma gas_writes:
  assumes "ls s v" and "i < N"
  shows "\<exists>s'. gas_set_target B (open_gas_constraint H (K (L2_Gas i))) x s = (Ok (), s') \<and>
      goes s s' (v\<lparr>v_gas := (v_gas v)(i := (v_gas v i)\<lparr>g_target := x\<rparr>)\<rparr>)"
    and "\<exists>s'. gas_set_adjustment_window B (open_gas_constraint H (K (L2_Gas i))) x s = (Ok (), s') \<and>
      goes s s' (v\<lparr>v_gas := (v_gas v)(i := (v_gas v i)\<lparr>g_window := x\<rparr>)\<rparr>)"
    and "\<exists>s'. gas_set_backlog B (open_gas_constraint H (K (L2_Gas i))) x s = (Ok (), s') \<and>
      goes s s' (v\<lparr>v_gas := (v_gas v)(i := (v_gas v i)\<lparr>g_backlog := x\<rparr>)\<rparr>)"
proof -
  note unfold = open_gas_constraint_def uint64_set_run map_err_Ok
  have ok: "ok s" using assms by blast
  show "\<exists>s'. gas_set_target B (open_gas_constraint H (K (L2_Gas i))) x s = (Ok (), s') \<and>
      goes s s' (v\<lparr>v_gas := (v_gas v)(i := (v_gas v i)\<lparr>g_target := x\<rparr>)\<rparr>)"
    using gas_pokes(1) [OF assms] ok by (simp add: gas_set_target_def unfold)
  show "\<exists>s'. gas_set_adjustment_window B (open_gas_constraint H (K (L2_Gas i))) x s = (Ok (), s') \<and>
      goes s s' (v\<lparr>v_gas := (v_gas v)(i := (v_gas v i)\<lparr>g_window := x\<rparr>)\<rparr>)"
    using gas_pokes(2) [OF assms] ok by (simp add: gas_set_adjustment_window_def unfold)
  show "\<exists>s'. gas_set_backlog B (open_gas_constraint H (K (L2_Gas i))) x s = (Ok (), s') \<and>
      goes s s' (v\<lparr>v_gas := (v_gas v)(i := (v_gas v i)\<lparr>g_backlog := x\<rparr>)\<rparr>)"
    using gas_pokes(3) [OF assms] ok by (simp add: gas_set_backlog_def unfold)
qed

lemma gas_at_key: "open_gas_constraint_at H p (of_nat i) = open_gas_constraint H (K (L2_Gas i))"
  by (simp add: open_gas_constraint_at_def l2_open_fields vector_keys)

lemma multi_at_key: "open_multi_gas_constraint_at H p (of_nat i) = open_multi_gas_constraint H (K (L2_Multi i))"
  by (simp add: open_multi_gas_constraint_at_def l2_open_fields vector_keys)

lemma resource_weight_run:
  assumes "ls s v" and "i < N"
  shows "resource_weight B H (open_multi_gas_constraint H (K (L2_Multi i))) kd s = (Ok (m_weight (v_multi v i) kd), s)"
proof -
  have "cell s (ARBOS_STATE_ADDRESS, K (L2_Multi i), ucast (4 + of_nat (kind_id kd) :: u64)) = ucast (m_weight (v_multi v i) kd)"
    using assms by (simp add: l2_at_def multi_cst_at_def at_def)
  then show ?thesis using assms
    by (simp add: resource_weight_def open_multi_gas_constraint_def weight_slot_slot run_simps sload_system_cell)
qed

lemma multi_reads:
  assumes "ls s v" and "i < N"
  shows "multi_target B (open_multi_gas_constraint H (K (L2_Multi i))) s = (Ok (m_target (v_multi v i)), s)"
    and "multi_adjustment_window B (open_multi_gas_constraint H (K (L2_Multi i))) s = (Ok (m_window (v_multi v i)), s)"
    and "multi_get_backlog B (open_multi_gas_constraint H (K (L2_Multi i))) s = (Ok (m_backlog (v_multi v i)), s)"
    and "max_weight B (open_multi_gas_constraint H (K (L2_Multi i))) s = (Ok (m_max (v_multi v i)), s)"
  using assms
  by (simp_all add: multi_target_def multi_adjustment_window_def multi_get_backlog_def max_weight_def
      open_multi_gas_constraint_def map_err_Ok uint64_get_run uint32_get_run l2_at_def multi_cst_at_def
      narrow_or_zero_ucast)

lemma multi_writes:
  assumes "ls s v" and "i < N"
  shows "\<exists>s'. multi_set_target B (open_multi_gas_constraint H (K (L2_Multi i))) x s = (Ok (), s') \<and>
      goes s s' (upd_multi i (\<lambda>m. m\<lparr>m_target := x\<rparr>) v)"
    and "\<exists>s'. multi_set_adjustment_window B (open_multi_gas_constraint H (K (L2_Multi i))) y s = (Ok (), s') \<and>
      goes s s' (upd_multi i (\<lambda>m. m\<lparr>m_window := y\<rparr>) v)"
    and "\<exists>s'. multi_set_backlog B (open_multi_gas_constraint H (K (L2_Multi i))) x s = (Ok (), s') \<and>
      goes s s' (upd_multi i (\<lambda>m. m\<lparr>m_backlog := x\<rparr>) v)"
proof -
  note unfold = open_multi_gas_constraint_def uint64_set_run uint32_set_run map_err_Ok upd_multi_def
  have ok: "ok s" using assms by blast
  show "\<exists>s'. multi_set_target B (open_multi_gas_constraint H (K (L2_Multi i))) x s = (Ok (), s') \<and>
      goes s s' (upd_multi i (\<lambda>m. m\<lparr>m_target := x\<rparr>) v)"
    using multi_pokes(1) [OF assms] ok by (simp add: multi_set_target_def unfold)
  show "\<exists>s'. multi_set_adjustment_window B (open_multi_gas_constraint H (K (L2_Multi i))) y s = (Ok (), s') \<and>
      goes s s' (upd_multi i (\<lambda>m. m\<lparr>m_window := y\<rparr>) v)"
    using multi_pokes(2) [OF assms] ok by (simp add: multi_set_adjustment_window_def unfold)
  show "\<exists>s'. multi_set_backlog B (open_multi_gas_constraint H (K (L2_Multi i))) x s = (Ok (), s') \<and>
      goes s s' (upd_multi i (\<lambda>m. m\<lparr>m_backlog := x\<rparr>) v)"
    using multi_pokes(3) [OF assms] ok by (simp add: multi_set_backlog_def unfold)
qed

lemma weight_set_run:
  assumes "ls s v" and "i < N"
  shows "\<exists>s'. map_err L2_Storage (sstore B ARBOS_STATE_ADDRESS (weight_slot H (K (L2_Multi i)) (of_nat (kind_id kd))) (ucast x)) s = (Ok (), s') \<and>
      goes s s' (with_weights i ((m_weight (v_multi v i))(kd := x)) v)"
  using multi_pokes(5) [OF assms, of kd x] assms
  by (simp add: weight_slot_slot sstore_cell map_err_Ok at_def with_weights_def)

lemma weights_run:
  assumes "ls s v" and "i < N"
  shows "\<exists>s'. fold_each (map kind_id kds) (\<lambda>j mx.
        bnd (map_err L2_Storage (sstore B ARBOS_STATE_ADDRESS (weight_slot H (K (L2_Multi i)) (of_nat j)) (ucast (ws ! j)))) (\<lambda>_.
        ret (if mx < ws ! j then ws ! j else mx))) mx s = (Ok (foldl max mx (map (\<lambda>kd. ws ! kind_id kd) kds)), s') \<and>
      goes s s' (with_weights i (\<lambda>kd. if kd \<in> set kds then ws ! kind_id kd else m_weight (v_multi v i) kd) v)"
  using assms(1)
proof (induction kds arbitrary: s v mx)
  case Nil
  then show ?case by (simp add: run_simps with_weights_same)
next
  case (Cons kd kds)
  let ?w = "(m_weight (v_multi v i))(kd := ws ! kind_id kd)"
  obtain s1 where s1: "map_err L2_Storage (sstore B ARBOS_STATE_ADDRESS (weight_slot H (K (L2_Multi i)) (of_nat (kind_id kd)))
      (ucast (ws ! kind_id kd))) s = (Ok (), s1)" and g1: "goes s s1 (with_weights i ?w v)"
    using weight_set_run [OF Cons.prems assms(2)] by blast
  have mx: "(if mx < ws ! kind_id kd then ws ! kind_id kd else mx) = max mx (ws ! kind_id kd)"
    by (auto simp: max_def)
  have eq: "(\<lambda>kd'. if kd' \<in> set kds then ws ! kind_id kd' else ?w kd') =
      (\<lambda>kd'. if kd' \<in> set (kd # kds) then ws ! kind_id kd' else m_weight (v_multi v i) kd')"
    by auto
  have s1': "bnd (map_err L2_Storage (sstore B ARBOS_STATE_ADDRESS (weight_slot H (K (L2_Multi i)) (of_nat (kind_id kd)))
      (ucast (ws ! kind_id kd)))) f s = f () s1" for f :: "unit \<Rightarrow> ('s, u64, l2_pricing_error) comp"
    using s1 by (rule bnd_Ok)
  show ?case
    using Cons.IH [OF conjunct1 [OF g1], of "max mx (ws ! kind_id kd)"] g1
    unfolding with_weights_same eq by (auto simp: bnd_assoc s1' mx)
qed

lemma set_resource_weights_run:
  assumes "ls s v" and "i < N" and "length ws = 9"
  shows "\<exists>s'. set_resource_weights B H (open_multi_gas_constraint H (K (L2_Multi i))) ws s = (Ok (), s') \<and>
      goes s s' (upd_multi i (\<lambda>m. m\<lparr>m_weight := \<lambda>kd. ws ! kind_id kd, m_max := foldl max 0 ws\<rparr>) v)"
proof -
  have ws: "[0..<length ws] = map kind_id all_kinds" "map (\<lambda>kd. ws ! kind_id kd) all_kinds = ws"
    using map_nth [of ws] map_map [of "(!) ws" kind_id all_kinds] assms(3)
    by (simp_all add: kind_list(6) comp_def)
  obtain s1 where run: "fold_each [0..<length ws] (\<lambda>j mx.
        bnd (map_err L2_Storage (sstore B ARBOS_STATE_ADDRESS (weight_slot H (K (L2_Multi i)) (of_nat j)) (ucast (ws ! j)))) (\<lambda>_.
        ret (if mx < ws ! j then ws ! j else mx))) 0 s = (Ok (foldl max 0 ws), s1)"
    and g1: "goes s s1 (v\<lparr>v_multi := (v_multi v)(i := (v_multi v i)\<lparr>m_weight := \<lambda>kd. ws ! kind_id kd\<rparr>)\<rparr>)"
    using weights_run [OF assms(1,2), of all_kinds ws 0] unfolding ws(1) by (auto simp: ws(2) kind_list(5) with_weights_def)
  have key: "mgc_base_key (open_multi_gas_constraint H (K (L2_Multi i))) = K (L2_Multi i)"
    by (simp add: open_multi_gas_constraint_def)
  have "set_resource_weights B H (open_multi_gas_constraint H (K (L2_Multi i))) ws s =
      map_err L2_Storage (uint64_set B (mgc_max_weight (open_multi_gas_constraint H (K (L2_Multi i)))) (foldl max 0 ws)) s1"
    unfolding set_resource_weights_def key using run by (rule bnd_Ok)
  then show ?thesis
    using multi_pokes(4) [OF conjunct1 [OF g1] assms(2), of "foldl max 0 ws"] g1
    by (simp add: open_multi_gas_constraint_def uint64_set_run map_err_Ok upd_multi_def)
qed

lemma push_gas:
  assumes "ls s v" and "v_gas_len v < N"
  shows "\<exists>s'. map_err L2_Storage (vector_push B H (l2_gas_constraints p)) s = (Ok (K (L2_Gas (v_gas_len v))), s') \<and>
      goes s s' (v\<lparr>v_gas_len := Suc (v_gas_len v)\<rparr>)"
proof -
  have c: "cell s (at (K L2_Gas_Vec) 0) = ucast (of_nat (v_gas_len v) :: u64)"
    using assms small_N [OF assms(1)] by (simp add: l2_at_def ucast_of_nat_u64)
  have n: "ucast (of_nat (v_gas_len v) + 1 :: u64) = (of_nat (Suc (v_gas_len v)) :: u256)"
    using ucast_of_nat_u64 [of "Suc (v_gas_len v)"] assms small_N [OF assms(1)] by (simp add: add.commute)
  have "goes s (poke s (at (K L2_Gas_Vec) 0) (of_nat (Suc (v_gas_len v)))) (v\<lparr>v_gas_len := Suc (v_gas_len v)\<rparr>)"
    using length_pokes(1) [OF assms(1) Suc_leI [OF assms(2)]] .
  then show ?thesis
    using vector_runs(2) [OF conjunct1 [OF assms(1)] c] unfolding n l2_open_fields vector_keys
    by (auto intro: map_err_Ok)
qed

lemma push_multi:
  assumes "ls s v" and "v_multi_len v < N"
  shows "\<exists>s'. map_err L2_Storage (vector_push B H (l2_multi_gas_constraints p)) s = (Ok (K (L2_Multi (v_multi_len v))), s') \<and>
      goes s s' (v\<lparr>v_multi_len := Suc (v_multi_len v)\<rparr>)"
proof -
  have c: "cell s (at (K L2_Multi_Vec) 0) = ucast (of_nat (v_multi_len v) :: u64)"
    using assms small_N [OF assms(1)] by (simp add: l2_at_def ucast_of_nat_u64)
  have n: "ucast (of_nat (v_multi_len v) + 1 :: u64) = (of_nat (Suc (v_multi_len v)) :: u256)"
    using ucast_of_nat_u64 [of "Suc (v_multi_len v)"] assms small_N [OF assms(1)] by (simp add: add.commute)
  have "goes s (poke s (at (K L2_Multi_Vec) 0) (of_nat (Suc (v_multi_len v)))) (v\<lparr>v_multi_len := Suc (v_multi_len v)\<rparr>)"
    using length_pokes(2) [OF assms(1) Suc_leI [OF assms(2)]] .
  then show ?thesis
    using vector_runs(2) [OF conjunct1 [OF assms(1)] c] unfolding n l2_open_fields vector_keys
    by (auto intro: map_err_Ok)
qed

lemma pop_gas:
  assumes "ls s v" and "0 < v_gas_len v"
  shows "\<exists>s'. bnd (map_err L2_Storage (vector_pop B (l2_gas_constraints p))) (\<lambda>_. ret ()) s = (Ok (), s') \<and>
      goes s s' (v\<lparr>v_gas_len := v_gas_len v - 1\<rparr>)"
proof -
  have len: "v_gas_len v \<le> N" using assms by (simp add: l2_at_def)
  have c: "cell s (at (K L2_Gas_Vec) 0) = ucast (of_nat (v_gas_len v) :: u64)"
    using assms small_N [OF assms(1)] by (simp add: l2_at_def ucast_of_nat_u64)
  have n: "ucast (of_nat (v_gas_len v) - 1 :: u64) = (of_nat (v_gas_len v - 1) :: u256)" "(of_nat (v_gas_len v) :: u64) \<noteq> 0"
    using counter_pred counter_pos assms(2) le_less_trans [OF len small_N [OF assms(1)]] by blast+
  have "goes s (poke s (at (K L2_Gas_Vec) 0) (of_nat (v_gas_len v - 1))) (v\<lparr>v_gas_len := v_gas_len v - 1\<rparr>)"
    by (rule length_pokes(1) [OF assms(1)]) (use len in simp)
  then show ?thesis
    using vector_runs(3) [OF conjunct1 [OF assms(1)] c] n(2) unfolding n(1) l2_open_fields
    by (auto simp: run_simps)
qed

lemma pop_multi:
  assumes "ls s v" and "0 < v_multi_len v"
  shows "\<exists>s'. bnd (map_err L2_Storage (vector_pop B (l2_multi_gas_constraints p))) (\<lambda>_. ret ()) s = (Ok (), s') \<and>
      goes s s' (v\<lparr>v_multi_len := v_multi_len v - 1\<rparr>)"
proof -
  have len: "v_multi_len v \<le> N" using assms by (simp add: l2_at_def)
  have c: "cell s (at (K L2_Multi_Vec) 0) = ucast (of_nat (v_multi_len v) :: u64)"
    using assms small_N [OF assms(1)] by (simp add: l2_at_def ucast_of_nat_u64)
  have n: "ucast (of_nat (v_multi_len v) - 1 :: u64) = (of_nat (v_multi_len v - 1) :: u256)" "(of_nat (v_multi_len v) :: u64) \<noteq> 0"
    using counter_pred counter_pos assms(2) le_less_trans [OF len small_N [OF assms(1)]] by blast+
  have "goes s (poke s (at (K L2_Multi_Vec) 0) (of_nat (v_multi_len v - 1))) (v\<lparr>v_multi_len := v_multi_len v - 1\<rparr>)"
    by (rule length_pokes(2) [OF assms(1)]) (use len in simp)
  then show ?thesis
    using vector_runs(3) [OF conjunct1 [OF assms(1)] c] n(2) unfolding n(1) l2_open_fields
    by (auto simp: run_simps)
qed

lemma add_gas_constraint_run:
  assumes "ls s v" and "v_gas_len v < N"
  shows "\<exists>s'. add_gas_constraint B H p t w b s = (Ok (), s') \<and>
      goes s s' (v\<lparr>v_gas_len := Suc (v_gas_len v),
        v_gas := (v_gas v)(v_gas_len v := \<lparr>g_target = t, g_window = w, g_backlog = b\<rparr>)\<rparr>)"
proof -
  obtain s1 where r1: "map_err L2_Storage (vector_push B H (l2_gas_constraints p)) s = (Ok (K (L2_Gas (v_gas_len v))), s1)"
    and g1: "goes s s1 (v\<lparr>v_gas_len := Suc (v_gas_len v)\<rparr>)" using push_gas [OF assms] by blast
  let ?c = "open_gas_constraint H (K (L2_Gas (v_gas_len v)))"
  obtain s2 v2 where r2: "gas_set_target B ?c t s1 = (Ok (), s2)" and g2: "goes s1 s2 v2"
    and v2: "v2 = v\<lparr>v_gas_len := Suc (v_gas_len v), v_gas := (v_gas v)(v_gas_len v := (v_gas v (v_gas_len v))\<lparr>g_target := t\<rparr>)\<rparr>"
    using gas_writes(1) [OF conjunct1 [OF g1] assms(2), of t] by auto
  obtain s3 v3 where r3: "gas_set_adjustment_window B ?c w s2 = (Ok (), s3)" and g3: "goes s2 s3 v3"
    and v3: "v3 = v2\<lparr>v_gas := (v_gas v2)(v_gas_len v := (v_gas v2 (v_gas_len v))\<lparr>g_window := w\<rparr>)\<rparr>"
    using gas_writes(2) [OF conjunct1 [OF g2] assms(2), of w] by auto
  obtain s4 where r4: "gas_set_backlog B ?c b s3 = (Ok (), s4)"
    and g4: "goes s3 s4 (v3\<lparr>v_gas := (v_gas v3)(v_gas_len v := (v_gas v3 (v_gas_len v))\<lparr>g_backlog := b\<rparr>)\<rparr>)"
    using gas_writes(3) [OF conjunct1 [OF g3] assms(2), of b] by auto
  have "add_gas_constraint B H p t w b s = (Ok (), s4)"
    by (simp add: add_gas_constraint_def bnd_def r1 r2 r3 r4 ret_run Let_def)
  moreover have "goes s s4 (v\<lparr>v_gas_len := Suc (v_gas_len v),
        v_gas := (v_gas v)(v_gas_len v := \<lparr>g_target = t, g_window = w, g_backlog = b\<rparr>)\<rparr>)"
    using goes_trans [OF goes_trans [OF goes_trans [OF g1 g2] g3] g4] unfolding v3 v2 by (simp add: gas_cst_all)
  ultimately show ?thesis by blast
qed

lemma add_multi_gas_constraint_run:
  assumes "ls s v" and "v_multi_len v < N" and "length ws = 9"
  shows "\<exists>s'. add_multi_gas_constraint B H p t w b ws s = (Ok (), s') \<and>
      goes s s' (upd_multi (v_multi_len v) (\<lambda>_. \<lparr>m_target = t, m_window = w, m_backlog = b, m_max = foldl max 0 ws,
          m_weight = \<lambda>kd. ws ! kind_id kd\<rparr>) (v\<lparr>v_multi_len := Suc (v_multi_len v)\<rparr>))"
proof -
  obtain s1 where r1: "map_err L2_Storage (vector_push B H (l2_multi_gas_constraints p)) s = (Ok (K (L2_Multi (v_multi_len v))), s1)"
    and g1: "goes s s1 (v\<lparr>v_multi_len := Suc (v_multi_len v)\<rparr>)" using push_multi [OF assms(1,2)] by blast
  let ?i = "v_multi_len v" and ?c = "open_multi_gas_constraint H (K (L2_Multi (v_multi_len v)))"
  let ?v1 = "v\<lparr>v_multi_len := Suc ?i\<rparr>"
  obtain s2 where r2: "multi_set_target B ?c t s1 = (Ok (), s2)"
    and g2: "goes s1 s2 (upd_multi ?i (\<lambda>m. m\<lparr>m_target := t\<rparr>) ?v1)"
    using multi_writes(1) [OF conjunct1 [OF g1] assms(2), of t] by blast
  obtain s3 where r3: "multi_set_adjustment_window B ?c w s2 = (Ok (), s3)"
    and g3: "goes s2 s3 (upd_multi ?i (\<lambda>m. m\<lparr>m_target := t, m_window := w\<rparr>) ?v1)"
    using multi_writes(2) [OF conjunct1 [OF g2] assms(2), of w] unfolding upd_multi_upd by blast
  obtain s4 where r4: "multi_set_backlog B ?c b s3 = (Ok (), s4)"
    and g4: "goes s3 s4 (upd_multi ?i (\<lambda>m. m\<lparr>m_target := t, m_window := w, m_backlog := b\<rparr>) ?v1)"
    using multi_writes(3) [OF conjunct1 [OF g3] assms(2), of b] unfolding upd_multi_upd by blast
  obtain s5 where r5: "set_resource_weights B H ?c ws s4 = (Ok (), s5)"
    and g5: "goes s4 s5 (upd_multi ?i (\<lambda>m. m\<lparr>m_target := t, m_window := w, m_backlog := b,
      m_weight := \<lambda>kd. ws ! kind_id kd, m_max := foldl max 0 ws\<rparr>) ?v1)"
    using set_resource_weights_run [OF conjunct1 [OF g4] assms(2,3)] unfolding upd_multi_upd by blast
  have run: "add_multi_gas_constraint B H p t w b ws s = (Ok (), s5)"
    by (simp add: add_multi_gas_constraint_def bnd_def r1 r2 r3 r4 r5 ret_run Let_def)
  have "goes s s5 (upd_multi ?i (\<lambda>m. \<lparr>m_target = t, m_window = w, m_backlog = b, m_max = foldl max 0 ws,
      m_weight = \<lambda>kd. ws ! kind_id kd\<rparr>) ?v1)"
    using goes_trans [OF goes_trans [OF goes_trans [OF goes_trans [OF g1 g2] g3] g4] g5] unfolding multi_cst_all .
  with run show ?thesis by blast
qed

end

end
