(* ===== verification/L2_Models.thy ===== *)
theory L2_Models
  imports L2_Store
begin

text \<open>
  The operations of the L2 pricing state run as the functions on views of \<open>L2_Store\<close>: choosing the
  model, updating the backlogs, the three pricing models, the fees of the resources and the upgrades from
  one set of constraints to the next.
\<close>

section \<open>The pricing models\<close>

lemma price_zero: "price m 0 = m"
  by (simp add: price_def)

definition drained :: "u64 \<Rightarrow> l2_view \<Rightarrow> nat \<Rightarrow> l2_view" where
  "drained t v n = v\<lparr>v_gas := \<lambda>j. if j < n then drain_gas t (v_gas v j) else v_gas v j\<rparr>"

lemma drained_simps:
  "drained t v 0 = v" "v_gas (drained t v n) j = (if j < n then drain_gas t (v_gas v j) else v_gas v j)"
  "(drained t v n)\<lparr>v_gas := (v_gas (drained t v n))(n := drain_gas t (v_gas v n))\<rparr> = drained t v (Suc n)"
  "v_gas_len (drained t v n) = v_gas_len v" "v_min_fee (drained t v n) = v_min_fee v"
  by (auto simp: drained_def fun_eq_iff less_Suc_eq intro!: l2_view.equality)

definition drained_multi :: "u64 \<Rightarrow> l2_view \<Rightarrow> nat \<Rightarrow> l2_view" where
  "drained_multi t v n = v\<lparr>v_multi := \<lambda>j. if j < n then drain_multi t (v_multi v j) else v_multi v j\<rparr>"

lemma drained_multi_simps:
  "drained_multi t v 0 = v" "v_multi (drained_multi t v n) j = (if j < n then drain_multi t (v_multi v j) else v_multi v j)"
  "upd_multi n (\<lambda>_. drain_multi t (v_multi v n)) (drained_multi t v n) = drained_multi t v (Suc n)"
  "v_multi_len (drained_multi t v n) = v_multi_len v" "v_min_fee (drained_multi t v n) = v_min_fee v"
  by (auto simp: drained_multi_def upd_multi_def fun_eq_iff less_Suc_eq intro!: l2_view.equality)

definition kind_sum :: "l2_view \<Rightarrow> nat \<Rightarrow> resource_kind \<Rightarrow> int" where
  "kind_sum v n kd = fold (\<lambda>m. add_kind_exponent m kd) (map (v_multi v) [0..<n]) 0"

lemma kind_sum_simps:
  "kind_sum v 0 kd = 0" "kind_sum v (Suc n) kd = add_kind_exponent (v_multi v n) kd (kind_sum v n kd)"
  "i64_floor_u64 (kind_sum v (v_multi_len v) kd) = kind_exponent v kd"
  by (simp_all add: kind_sum_def kind_exponent_def)

text \<open>A loop over the kinds that computes one entry of an array for each.\<close>

lemma fold_kinds:
  assumes "\<And>kd e. kd \<in> set kds \<Longrightarrow> f kd (map e all_kinds) s = (Ok (map (e(kd := g kd (e kd))) all_kinds), s)"
    and "distinct kds"
  shows "fold_each kds f (map e all_kinds) s = (Ok (map (\<lambda>kd. if kd \<in> set kds then g kd (e kd) else e kd) all_kinds), s)"
  using assms
proof (induction kds arbitrary: e)
  case Nil
  then show ?case by (simp add: ret_run)
next
  case (Cons kd kds)
  have "fold_each (kd # kds) f (map e all_kinds) s = fold_each kds f (map (e(kd := g kd (e kd))) all_kinds) s"
    unfolding fold_each.simps using Cons.prems(1) [of kd e] by (subst bnd_Ok) auto
  also have "\<dots> = (Ok (map (\<lambda>kd'. if kd' \<in> set kds then g kd' ((e(kd := g kd (e kd))) kd') else (e(kd := g kd (e kd))) kd') all_kinds), s)"
    using Cons.prems by (intro Cons.IH) auto
  also have "(\<lambda>kd'. if kd' \<in> set kds then g kd' ((e(kd := g kd (e kd))) kd') else (e(kd := g kd (e kd))) kd') =
      (\<lambda>kd'. if kd' \<in> set (kd # kds) then g kd' (e kd') else e kd')"
    using Cons.prems(2) by (auto simp: fun_eq_iff)
  finally show ?case .
qed

lemma fold_kinds_all:
  assumes "\<And>kd e. f kd (map e all_kinds) s = (Ok (map (e(kd := g kd (e kd))) all_kinds), s)"
  shows "fold_each all_kinds f (map e all_kinds) s = (Ok (map (\<lambda>kd. g kd (e kd)) all_kinds), s)"
  using fold_kinds [of all_kinds f s g e] assms by (simp add: kind_list(4,5))

lemma no_kinds: "replicate NUM_RESOURCE_KIND x = map (\<lambda>_. x) all_kinds"
  by (simp add: map_replicate_const kind_list(1) NUM_RESOURCE_KIND_def)

definition with_next :: "(resource_kind \<Rightarrow> u256) \<Rightarrow> l2_view \<Rightarrow> l2_view" where
  "with_next f v = v\<lparr>v_next := f\<rparr>"

definition with_current :: "(resource_kind \<Rightarrow> u256) \<Rightarrow> l2_view \<Rightarrow> l2_view" where
  "with_current f v = v\<lparr>v_current := f\<rparr>"

lemma with_fees_simps [simp]:
  "with_next f (with_next g v) = with_next f v" "v_next (with_next f v) = f" "with_next (v_next v) v = v"
  "v_min_fee (with_next f v) = v_min_fee v" "with_current f (with_current g v) = with_current f v"
  "v_current (with_current f v) = f" "with_current (v_current v) v = v" "v_next (with_current f v) = v_next v"
  by (simp_all add: with_next_def with_current_def)

text \<open>The fee one resource is charged at.\<close>

definition fee_of :: "l2_view \<Rightarrow> resource_kind \<Rightarrow> u256" where
  "fee_of v kd = (if kd = SingleDim \<or> v_current v kd = 0 then v_base_fee v else v_current v kd)"

section \<open>Upgrades on views\<close>

definition no_gas :: gas_cst where
  "no_gas = \<lparr>g_target = 0, g_window = 0, g_backlog = 0\<rparr>"

definition no_multi :: multi_cst where
  "no_multi = \<lparr>m_target = 0, m_window = 0, m_backlog = 0, m_max = 0, m_weight = \<lambda>_. 0\<rparr>"

definition gas_cleared :: "l2_view \<Rightarrow> l2_view" where
  "gas_cleared v = v\<lparr>v_gas_len := 0, v_gas := \<lambda>j. if j < v_gas_len v then no_gas else v_gas v j\<rparr>"

definition multi_cleared :: "l2_view \<Rightarrow> l2_view" where
  "multi_cleared v = v\<lparr>v_multi_len := 0, v_multi := \<lambda>j. if j < v_multi_len v then no_multi else v_multi v j\<rparr>"

definition gas_pushed :: "gas_cst \<Rightarrow> l2_view \<Rightarrow> l2_view" where
  "gas_pushed g v = v\<lparr>v_gas_len := Suc (v_gas_len v), v_gas := (v_gas v)(v_gas_len v := g)\<rparr>"

text \<open>The legacy parameters as one constraint, and a constraint as one on all resources alike.\<close>

definition legacy_cst :: "l2_view \<Rightarrow> gas_cst" where
  "legacy_cst v = \<lparr>g_target = v_speed v, g_window = v_inertia v,
     g_backlog = sat_sub (v_backlog v) (sat_mul (v_tolerance v) (v_speed v))\<rparr>"

definition uniform_cst :: "gas_cst \<Rightarrow> multi_cst" where
  "uniform_cst g = \<lparr>m_target = g_target g, m_window = (if 2 ^ 32 - 1 < g_window g then 2 ^ 32 - 1 else ucast (g_window g)),
     m_backlog = g_backlog g, m_max = 1, m_weight = \<lambda>_. 1\<rparr>"

definition multi_from_single :: "l2_view \<Rightarrow> nat \<Rightarrow> l2_view" where
  "multi_from_single v n = (multi_cleared v)\<lparr>v_multi_len := n,
     v_multi := \<lambda>j. if j < n then uniform_cst (v_gas v j) else v_multi (multi_cleared v) j\<rparr>"

context l2_store
begin

lemma len_bound: "ls s v \<Longrightarrow> v_gas_len v \<le> N" "ls s v \<Longrightarrow> v_multi_len v \<le> N"
  by (simp_all add: l2_at_def)

lemma gas_len: "ls s v \<Longrightarrow> v_gas_len v < 2 ^ 64" "ls s v \<Longrightarrow> v_gas_len v \<le> N"
  and multi_len: "ls s v \<Longrightarrow> v_multi_len v < 2 ^ 64" "ls s v \<Longrightarrow> v_multi_len v \<le> N"
  using len_bound [of s v] small_N [of s v] le_less_trans by blast+

lemma len_pos: "n < 2 ^ 64 \<Longrightarrow> 0 < (of_nat n :: u64) \<longleftrightarrow> 0 < n"
proof (cases "n = 0")
  case False
  assume "n < 2 ^ 64"
  then have "(of_nat n :: u64) \<noteq> 0" using counter_pos [of n] False by blast
  then show ?thesis using False by (simp only: word_neq_0_conv [symmetric]) blast
qed simp

lemma bnd_lengths:
  assumes "ls s v"
  shows "bnd (gas_constraints_length B p) f s = f (of_nat (v_gas_len v)) s"
    and "bnd (multi_gas_constraints_length B p) g s = g (of_nat (v_multi_len v)) s"
  using l2_reads(9,10) [OF assms] by (simp_all add: bnd_def)

lemma gas_model_run:
  assumes "ls s v"
  shows "gas_model_to_use B p s = (Ok (active_model ver v), s)"
  using len_pos [OF gas_len(1) [OF assms]] len_pos [OF multi_len(1) [OF assms]]
  by (simp add: gas_model_to_use_def active_model_def bnd_def l2_reads [OF assms] l2_open_fields ret_run)

lemma calc_base_fee_run:
  assumes "ls s v"
  shows "calc_base_fee_from_exponent B p e s = (Ok (price (v_min_fee v) e), s)"
  by (auto simp: calc_base_fee_from_exponent_def bnd_def l2_reads [OF assms] approx_exp_exp4 ret_run price_def
      Let_def max_def)

lemma legacy_backlog_run:
  assumes "ls s v"
  shows "\<exists>s'. update_legacy_backlog_op B p op g s = (Ok (), s') \<and>
    goes s s' (v\<lparr>v_backlog := apply_gas_delta_op op (v_backlog v) g\<rparr>)"
  using l2_writes(6) [OF assms] by (simp add: update_legacy_backlog_op_def bnd_def l2_reads [OF assms])

lemma legacy_run:
  assumes "ls s v"
  shows "\<exists>s'. update_pricing_model_legacy B p t s = (Ok (), s') \<and> goes s s' (legacy_model t v)"
proof -
  let ?v = "v\<lparr>v_backlog := sat_sub (v_backlog v) (sat_mul t (v_speed v))\<rparr>"
  obtain s1 where s1: "update_legacy_backlog_op B p Shrink (sat_mul t (v_speed v)) s = (Ok (), s1)"
    and g1: "goes s s1 ?v"
    using legacy_backlog_run [OF assms, of Shrink "sat_mul t (v_speed v)"] by (auto simp: apply_gas_delta_op_def)
  then have l1: "ls s1 ?v" by blast
  obtain s2 where s2: "set_base_fee_wei B p (price (v_min_fee v) (legacy_exponent ?v)) s1 = (Ok (), s2)"
    and g2: "goes s1 s2 (?v\<lparr>v_base_fee := price (v_min_fee v) (legacy_exponent ?v)\<rparr>)"
    using l2_writes(1) [OF l1] by blast
  have "update_pricing_model_legacy B p t s = (Ok (), s2)"
    using s2
    by (cases "v_tolerance v * v_speed v < v_backlog ?v";
        cases "saturating_cast_to_i64 (sat_mul (v_inertia v) (v_speed v)) = 0")
      (simp_all add: update_pricing_model_legacy_def bnd_def l2_reads [OF assms] s1 l2_reads [OF l1]
        calc_base_fee_run [OF l1] legacy_exponent_def Let_def price_zero)
  moreover have "goes s s2 (legacy_model t v)"
    using goes_trans [OF g1 g2] unfolding legacy_model_def Let_def .
  ultimately show ?thesis by blast
qed

lemma drain_one:
  assumes "ls s v" and "i < N"
  shows "\<exists>s'. gas_set_backlog B (open_gas_constraint_at H p (of_nat i)) x s = (Ok (), s') \<and>
    goes s s' (v\<lparr>v_gas := (v_gas v)(i := (v_gas v i)\<lparr>g_backlog := x\<rparr>)\<rparr>)"
  using gas_writes(3) [OF assms] by (simp add: gas_at_key)

lemma single_run:
  assumes "ls s v"
  shows "\<exists>s'. update_pricing_model_single_constraints B H p t s = (Ok (), s') \<and> goes s s' (single_model t v)"
proof -
  let ?n = "v_gas_len v"
  define e where "e = (\<lambda>i. foldl add_exponent 0 (map (\<lambda>j. drain_gas t (v_gas v j)) [0..<i]))"
  define I where "I = (\<lambda>i a s'. goes s s' (drained t v i) \<and> a = e i)"
  let ?f = "\<lambda>i total_exponent.
       let c = open_gas_constraint_at H p i in
       bnd (gas_target B c) (\<lambda>target.
       bnd (gas_get_backlog B c) (\<lambda>backlog.
       let gas = sat_mul t target;
           new_backlog = sat_sub backlog gas in
       bnd (gas_set_backlog B c new_backlog) (\<lambda>_.
       if 0 < new_backlog then
         bnd (gas_adjustment_window B c) (\<lambda>window.
         let divisor = saturating_cast_to_i64 (sat_mul window target) in
         if divisor \<noteq> 0 then
           let exponent = truncated_div (natural_to_bips (saturating_cast_to_i64 new_backlog)) divisor in
           ret (i64_saturating_add total_exponent exponent)
         else ret total_exponent)
       else ret total_exponent)))"
  have "\<exists>a' s''. ?f (of_nat i) a s' = (Ok a', s'') \<and> I (Suc i) a' s''" if "i < ?n" and I: "I i a s'" for i a s'
  proof -
    have iN: "i < N" using that(1) gas_len(2) [OF assms] by simp
    have l: "ls s' (drained t v i)" and g: "goes s s' (drained t v i)" and a: "a = e i" using I by (auto simp: I_def)
    obtain s2 where s2: "gas_set_backlog B (open_gas_constraint_at H p (of_nat i))
        (sat_sub (g_backlog (v_gas v i)) (sat_mul t (g_target (v_gas v i)))) s' = (Ok (), s2)"
      and g2: "goes s' s2 (drained t v (Suc i))"
      using drain_one [OF l iN, of "sat_sub (g_backlog (v_gas v i)) (sat_mul t (g_target (v_gas v i)))"]
        drained_simps(3) [of t v i] by (auto simp: drained_simps(2) drain_gas_def)
    then have l2: "ls s2 (drained t v (Suc i))" by blast
    have "?f (of_nat i) a s' = (Ok (e (Suc i)), s2)"
      by (simp add: bnd_def gas_reads [OF l iN] s2 gas_reads [OF l2 iN] drained_simps ret_run Let_def e_def a add_exponent_def
          drain_gas_def)
    then show ?thesis using goes_trans [OF g g2] by (auto simp: I_def)
  qed
  then obtain a s1 where f: "fold_each (u64_range 0 (of_nat ?n)) ?f 0 s = (Ok a, s1)" and I: "I ?n a s1"
    using fold_range_run [of ?n I ?f 0 s] gas_len(1) [OF assms] assms by (auto simp: I_def e_def drained_simps)
  have g1: "goes s s1 (drained t v ?n)" and a: "a = e ?n" using I by (auto simp: I_def)
  then have l1: "ls s1 (drained t v ?n)" by blast
  have ex: "i64_floor_u64 (e ?n) = gas_exponent (drained t v ?n)"
    unfolding e_def gas_exponent_def drained_simps
    by (intro arg_cong [of _ _ "\<lambda>gs. i64_floor_u64 (foldl add_exponent 0 gs)"] map_cong) (simp_all add: drained_simps)
  obtain s2 where s2: "set_base_fee_wei B p (price (v_min_fee v) (gas_exponent (drained t v ?n))) s1 = (Ok (), s2)"
    and g2: "goes s1 s2 ((drained t v ?n)\<lparr>v_base_fee := price (v_min_fee v) (gas_exponent (drained t v ?n))\<rparr>)"
    using l2_writes(1) [OF l1] by blast
  have "update_pricing_model_single_constraints B H p t s = (Ok (), s2)"
    using f s2 by (simp add: update_pricing_model_single_constraints_def bnd_def [of "gas_constraints_length B p"]
        bnd_def [of "fold_each _ _ _"] bnd_def [of "calc_base_fee_from_exponent _ _ _"]
        l2_reads [OF assms] calc_base_fee_run [OF l1] a ex drained_simps)
  moreover have "goes s s2 (single_model t v)"
    using goes_trans [OF g1 g2] unfolding single_model_def Let_def drained_def .
  ultimately show ?thesis by blast
qed

lemma gas_loop:
  assumes l: "ls s v"
    and step: "\<And>i s' w. i < v_gas_len v \<Longrightarrow> i < N \<Longrightarrow> ls s' w \<Longrightarrow>
      \<exists>s''. f (of_nat i) s' = (Ok (), s'') \<and> goes s' s'' (w\<lparr>v_gas := (v_gas w)(i := g (v_gas w i))\<rparr>)"
  shows "\<exists>s'. for_each (u64_range 0 (of_nat (v_gas_len v))) f s = (Ok (), s') \<and>
    goes s s' (v\<lparr>v_gas := \<lambda>j. if j < v_gas_len v then g (v_gas v j) else v_gas v j\<rparr>)"
proof (rule for_range_run [where I = "\<lambda>i s'. goes s s' (v\<lparr>v_gas := \<lambda>j. if j < i then g (v_gas v j) else v_gas v j\<rparr>)"])
  fix i s'
  let ?w = "\<lambda>n. v\<lparr>v_gas := \<lambda>j. if j < n then g (v_gas v j) else v_gas v j\<rparr>"
  assume i: "i < v_gas_len v" and g: "goes s s' (?w i)"
  have "(?w i)\<lparr>v_gas := (v_gas (?w i))(i := g (v_gas (?w i) i))\<rparr> = ?w (Suc i)"
    by (auto simp: fun_eq_iff less_Suc_eq intro!: l2_view.equality)
  with step [OF i less_le_trans [OF i gas_len(2) [OF l]] conjunct1 [OF g]]
  obtain s'' where run: "f (of_nat i) s' = (Ok (), s'')" and g': "goes s' s'' (?w (Suc i))" by auto
  show "\<exists>s''. f (of_nat i) s' = (Ok (), s'') \<and> goes s s'' (?w (Suc i))"
    using run goes_trans [OF g g'] by blast
next
  show "v_gas_len v < 2 ^ 64" using gas_len(1) [OF l] .
qed (use l in simp)

lemma multi_loop:
  assumes l: "ls s v"
    and step: "\<And>i s' w. i < v_multi_len v \<Longrightarrow> i < N \<Longrightarrow> ls s' w \<Longrightarrow>
      \<exists>s''. f (of_nat i) s' = (Ok (), s'') \<and> goes s' s'' (upd_multi i g w)"
  shows "\<exists>s'. for_each (u64_range 0 (of_nat (v_multi_len v))) f s = (Ok (), s') \<and>
    goes s s' (v\<lparr>v_multi := \<lambda>j. if j < v_multi_len v then g (v_multi v j) else v_multi v j\<rparr>)"
proof (rule for_range_run [where I = "\<lambda>i s'. goes s s' (v\<lparr>v_multi := \<lambda>j. if j < i then g (v_multi v j) else v_multi v j\<rparr>)"])
  fix i s'
  let ?w = "\<lambda>n. v\<lparr>v_multi := \<lambda>j. if j < n then g (v_multi v j) else v_multi v j\<rparr>"
  assume i: "i < v_multi_len v" and g: "goes s s' (?w i)"
  have "upd_multi i g (?w i) = ?w (Suc i)"
    by (auto simp: upd_multi_def fun_eq_iff less_Suc_eq intro!: l2_view.equality)
  with step [OF i less_le_trans [OF i multi_len(2) [OF l]] conjunct1 [OF g]]
  obtain s'' where run: "f (of_nat i) s' = (Ok (), s'')" and g': "goes s' s'' (?w (Suc i))" by auto
  show "\<exists>s''. f (of_nat i) s' = (Ok (), s'') \<and> goes s s'' (?w (Suc i))"
    using run goes_trans [OF g g'] by blast
next
  show "v_multi_len v < 2 ^ 64" using multi_len(1) [OF l] .
qed (use l in simp)

lemma multi_backlogs_run:
  assumes "ls s v"
  shows "\<exists>s'. update_multi_gas_constraints_backlogs B H p t s = (Ok (), s') \<and> goes s s' (drained_multi t v (v_multi_len v))"
  unfolding drained_multi_def update_multi_gas_constraints_backlogs_def bnd_lengths [OF assms]
proof (rule multi_loop [OF assms])
  fix i s' w
  assume i: "i < N" and l: "ls s' w"
  let ?b = "sat_sub (m_backlog (v_multi w i)) (sat_mul t (m_target (v_multi w i)))"
  have "upd_multi i (drain_multi t) w = upd_multi i (\<lambda>m. m\<lparr>m_backlog := ?b\<rparr>) w"
    by (simp add: upd_multi_def drain_multi_def)
  then show "\<exists>s''. (let c = open_multi_gas_constraint_at H p (of_nat i) in
       bnd (multi_target B c) (\<lambda>target. bnd (multi_get_backlog B c) (\<lambda>backlog.
         let gas = sat_mul t target; new_backlog = sat_sub backlog gas in multi_set_backlog B c new_backlog))) s' = (Ok (), s'') \<and>
      goes s' s'' (upd_multi i (drain_multi t) w)"
    using multi_writes(3) [OF l i, of ?b] by (simp add: bnd_def multi_at_key multi_reads [OF l i] Let_def)
qed

lemma add_kind_exponents_run:
  assumes "ls s v" and "i < N"
  shows "add_kind_exponents B H (open_multi_gas_constraint H (K (L2_Multi i))) b d (map e all_kinds) s =
     (Ok (map (\<lambda>kd. if kd \<noteq> SingleDim \<and> m_weight (v_multi v i) kd \<noteq> 0
        then i64_saturating_add (e kd) (truncated_div (natural_to_bips
          (saturating_cast_to_i64 (sat_mul b (m_weight (v_multi v i) kd)))) d) else e kd) all_kinds), s)"
  unfolding add_kind_exponents_def
  by (rule fold_kinds_all) (auto simp: bnd_def ret_run resource_weight_run [OF assms] kind_list(2,3) Let_def)

lemma exponents_run:
  assumes "ls s v"
  shows "calc_multi_gas_constraints_exponents B H p s = (Ok (map (kind_exponent v) all_kinds), s)"
proof -
  let ?f = "\<lambda>i exponent_per_kind.
       let c = open_multi_gas_constraint_at H p i in
       bnd (multi_target B c) (\<lambda>target.
       bnd (multi_get_backlog B c) (\<lambda>backlog.
       if backlog = 0 then ret exponent_per_kind else
       bnd (multi_adjustment_window B c) (\<lambda>window.
       bnd (max_weight B c) (\<lambda>mw.
       if target = 0 \<or> window = 0 \<or> mw = 0 then ret exponent_per_kind else
       let divisor = saturating_cast_to_i64 (sat_mul (ucast window) (sat_mul target mw)) in
       if divisor = 0 then ret exponent_per_kind else
       add_kind_exponents B H c backlog divisor exponent_per_kind))))"
  have step: "?f (of_nat i) (map (kind_sum v i) all_kinds) s = (Ok (map (kind_sum v (Suc i)) all_kinds), s)"
    if "i < v_multi_len v" for i
  proof -
    have iN: "i < N" using that multi_len(2) [OF assms] by simp
    show ?thesis
      by (auto simp: bnd_def multi_at_key multi_reads [OF assms iN] add_kind_exponents_run [OF assms iN] ret_run Let_def
          kind_sum_simps add_kind_exponent_def intro!: map_cong)
  qed
  have "\<exists>a s'. fold_each (u64_range 0 (of_nat (v_multi_len v))) ?f (map (kind_sum v 0) all_kinds) s = (Ok a, s') \<and>
      a = map (kind_sum v (v_multi_len v)) all_kinds \<and> s' = s"
    by (rule fold_range_run [where I = "\<lambda>i a s'. a = map (kind_sum v i) all_kinds \<and> s' = s"])
      (use step multi_len(1) [OF assms] in \<open>blast+\<close>)
  moreover have "map (kind_sum v 0) all_kinds = replicate NUM_RESOURCE_KIND 0"
    unfolding no_kinds by (simp add: kind_sum_simps)
  ultimately show ?thesis
    by (simp add: calc_multi_gas_constraints_exponents_def bnd_def [of "multi_gas_constraints_length B p"]
        bnd_def [of "fold_each _ _ _"] l2_reads [OF assms] ret_run kind_sum_simps)
qed

lemma set_next_run:
  assumes "ls s v"
  shows "\<exists>s'. set_next_block_fee B H (l2_multi_gas_base_fees p) kd f s = (Ok (), s') \<and>
    goes s s' (with_next ((v_next v)(kd := f)) v)"
  using fee_pokes(1) [OF assms, of kd f] assms
  by (simp add: set_next_block_fee_def l2_open_fields map_err_Ok biguint_set_run with_next_def)

lemma fee_reads:
  assumes "ls s v"
  shows "get_next_block_fee B H (l2_multi_gas_base_fees p) kd s = (Ok (v_next v kd), s)"
    and "get_current_block_fee B H (l2_multi_gas_base_fees p) kd s = (Ok (v_current v kd), s)"
  using assms
  by (simp_all add: get_next_block_fee_def get_current_block_fee_def
      NUM_RESOURCE_KIND_def l2_open_fields map_err_Ok biguint_get_run l2_at_def fees_at_def)

lemma next_fees_run:
  assumes "ls s v"
  shows "\<exists>s'. fold_each (map kind_id kds) (\<lambda>i mx.
       bnd (calc_base_fee_from_exponent B p (map e all_kinds ! i)) (\<lambda>base_fee.
       bnd (case from_u8 (of_nat i) of
              Some kind \<Rightarrow> set_next_block_fee B H (l2_multi_gas_base_fees p) kind base_fee
            | None \<Rightarrow> ret ()) (\<lambda>_.
       ret (if mx < base_fee then base_fee else mx)))) mx s =
      (Ok (foldl max mx (map (\<lambda>kd. price (v_min_fee v) (e kd)) kds)), s') \<and>
    goes s s' (with_next (\<lambda>kd. if kd \<in> set kds then price (v_min_fee v) (e kd) else v_next v kd) v)"
  using assms
proof (induction kds arbitrary: s v mx)
  case Nil
  then show ?case by (simp add: ret_run)
next
  case (Cons kd kds)
  let ?x = "price (v_min_fee v) (e kd)"
  let ?v = "with_next ((v_next v)(kd := ?x)) v"
  obtain s1 where s1: "set_next_block_fee B H (l2_multi_gas_base_fees p) kd ?x s = (Ok (), s1)" and g1: "goes s s1 ?v"
    using set_next_run [OF Cons.prems] by blast
  have mx: "(if mx < ?x then ?x else mx) = max mx ?x" by (auto simp: max_def)
  let ?F = "\<lambda>i mx.
       bnd (calc_base_fee_from_exponent B p (map e all_kinds ! i)) (\<lambda>base_fee.
       bnd (case from_u8 (of_nat i) of
              Some kind \<Rightarrow> set_next_block_fee B H (l2_multi_gas_base_fees p) kind base_fee
            | None \<Rightarrow> ret ()) (\<lambda>_.
       ret (if mx < base_fee then base_fee else mx)))"
  have head: "?F (kind_id kd) mx s = (Ok (max mx ?x), s1)"
    by (simp add: bnd_def calc_base_fee_run [OF Cons.prems] kind_list(2,7) s1 mx ret_run)
  obtain s2 where s2: "fold_each (map kind_id kds) ?F (max mx ?x) s1 =
      (Ok (foldl max mx (map (\<lambda>kd. price (v_min_fee v) (e kd)) (kd # kds))), s2)"
    and g2: "goes s1 s2 (with_next (\<lambda>kd'. if kd' \<in> set kds then price (v_min_fee v) (e kd') else ((v_next v)(kd := ?x)) kd') v)"
    using Cons.IH [OF conjunct1 [OF g1], of "max mx ?x"] unfolding with_fees_simps list.map foldl.simps by blast
  have eq: "(\<lambda>kd'. if kd' \<in> set kds then price (v_min_fee v) (e kd') else ((v_next v)(kd := ?x)) kd') =
      (\<lambda>kd'. if kd' \<in> set (kd # kds) then price (v_min_fee v) (e kd') else v_next v kd')"
    by auto
  have "bnd (?F (kind_id kd) mx) (fold_each (map kind_id kds) ?F) s = fold_each (map kind_id kds) ?F (max mx ?x) s1"
    using head by (rule bnd_Ok)
  then show ?case
    using goes_trans [OF g1 g2] s2 unfolding eq list.map(2) fold_each.simps by auto
qed

lemma multi_run:
  assumes "ls s v"
  shows "\<exists>s'. update_pricing_model_multi_constraints B H p t s = (Ok (), s') \<and> goes s s' (multi_model t v)"
proof -
  let ?v = "drained_multi t v (v_multi_len v)"
  obtain s1 where s1: "update_multi_gas_constraints_backlogs B H p t s = (Ok (), s1)" and g1: "goes s s1 ?v"
    using multi_backlogs_run [OF assms] by blast
  then have l1: "ls s1 ?v" by blast
  let ?f = "\<lambda>kd. price (v_min_fee v) (kind_exponent ?v kd)"
  let ?m = "foldl max (v_min_fee v) (map ?f all_kinds)"
  have len: "[0..<length (map (kind_exponent ?v) all_kinds)] = map kind_id all_kinds"
    by (simp add: kind_list)
  obtain s2 where s2: "fold_each [0..<length (map (kind_exponent ?v) all_kinds)] (\<lambda>i mx.
       bnd (calc_base_fee_from_exponent B p (map (kind_exponent ?v) all_kinds ! i)) (\<lambda>base_fee.
       bnd (case from_u8 (of_nat i) of
              Some kind \<Rightarrow> set_next_block_fee B H (l2_multi_gas_base_fees p) kind base_fee
            | None \<Rightarrow> ret ()) (\<lambda>_.
       ret (if mx < base_fee then base_fee else mx)))) (v_min_fee v) s1 = (Ok ?m, s2)"
    and g2: "goes s1 s2 (with_next ?f ?v)"
    using next_fees_run [OF l1, of all_kinds "kind_exponent ?v" "v_min_fee v"] unfolding len
    by (auto simp: kind_list(5) drained_multi_simps)
  obtain s3 where s3: "set_base_fee_wei B p ?m s2 = (Ok (), s3)" and g3: "goes s2 s3 ((with_next ?f ?v)\<lparr>v_base_fee := ?m\<rparr>)"
    using l2_writes(1) [OF conjunct1 [OF g2]] by blast
  have "update_pricing_model_multi_constraints B H p t s = (Ok (), s3)"
    using s2 s3
    by (simp add: update_pricing_model_multi_constraints_def bnd_def [of "update_multi_gas_constraints_backlogs _ _ _ _"] s1
        bnd_def [of "calc_multi_gas_constraints_exponents _ _ _"] exponents_run [OF l1]
        bnd_def [of "min_base_fee_wei _ _"] l2_reads [OF l1] drained_multi_simps bnd_def [of "fold_each _ _ _"])
  moreover have "(with_next ?f ?v)\<lparr>v_base_fee := ?m\<rparr> = multi_model t v"
    unfolding multi_model_def Let_def drained_multi_def with_next_def by simp
  ultimately show ?thesis using goes_trans [OF goes_trans [OF g1 g2] g3] by auto
qed

lemma update_pricing_model_run:
  assumes "ls s v"
  shows "\<exists>s'. update_pricing_model B H p t av s = (Ok (), s') \<and> goes s s' (next_prices ver t v)"
  using legacy_run [OF assms, of t] single_run [OF assms, of t] multi_run [OF assms, of t]
  by (cases "active_model ver v")
    (simp_all add: update_pricing_model_def next_prices_def bnd_def [of "gas_model_to_use _ _"] gas_model_run [OF assms])

lemma weighted_run:
  assumes "ls s v" and "i < N"
  shows "\<exists>s'. multi_update_backlog B H (open_multi_gas_constraint H (K (L2_Multi i))) op gas s = (Ok (), s') \<and>
    goes s s' (upd_multi i (weighted_backlog op gas) v)"
proof -
  let ?m = "v_multi v i"
  let ?step = "\<lambda>b kd. apply_gas_delta_op op b (sat_mul (mg_get gas kd) (m_weight ?m kd))"
  have zero: "sat_add b 0 = b" "sat_sub b 0 = b" "sat_mul x 0 = 0" for b x :: u64
    using unat_bound [of b] by (simp_all add: sat_add_def sat_sub_def sat_mul_def)
  have fold: "fold_each kds (\<lambda>kind backlog.
       bnd (resource_weight B H (open_multi_gas_constraint H (K (L2_Multi i))) kind) (\<lambda>weight.
       ret (if weight = 0 then backlog
            else let weighted = sat_mul (mg_get gas kind) weight in
              case op of Grow \<Rightarrow> sat_add backlog weighted | Shrink \<Rightarrow> sat_sub backlog weighted))) b s =
      (Ok (foldl ?step b kds), s)" for kds b
    by (induction kds arbitrary: b)
      (auto simp: bnd_def ret_run resource_weight_run [OF assms] apply_gas_delta_op_def zero Let_def split: backlog_operation.splits)
  have get: "map_err L2_Storage (uint64_get B (mgc_backlog (open_multi_gas_constraint H (K (L2_Multi i))))) s = (Ok (m_backlog ?m), s)"
    using multi_reads(3) [OF assms] by (simp add: multi_get_backlog_def)
  have upd: "upd_multi i (weighted_backlog op gas) v = upd_multi i (\<lambda>m. m\<lparr>m_backlog := foldl ?step (m_backlog ?m) all_kinds\<rparr>) v"
    by (simp add: upd_multi_def weighted_backlog_def)
  show ?thesis
    using multi_writes(3) [OF assms, of "foldl ?step (m_backlog ?m) all_kinds"] unfolding upd
    by (simp add: multi_update_backlog_def bnd_def [of "map_err _ _"] get bnd_def [of "fold_each _ _ _"] fold multi_set_backlog_def)
qed

lemma update_backlog_run:
  assumes "ls s v"
  shows "\<exists>s'. update_backlog B H p op used mused s = (Ok (), s') \<and> goes s s' (backlog_step ver op used mused v)"
proof (cases "active_model ver v")
  case MultiGasConstraints
  have "\<exists>s'. update_multi_gas_constraints_backlogs_op B H p op mused s = (Ok (), s') \<and>
      goes s s' (v\<lparr>v_multi := \<lambda>j. if j < v_multi_len v then weighted_backlog op mused (v_multi v j) else v_multi v j\<rparr>)"
    unfolding update_multi_gas_constraints_backlogs_op_def bnd_lengths [OF assms]
    by (rule multi_loop [OF assms])
      (use weighted_run in \<open>cases op; simp add: multi_at_key multi_grow_backlog_def multi_shrink_backlog_def Let_def\<close>)
  then show ?thesis
    by (simp add: update_backlog_def backlog_step_def MultiGasConstraints bnd_def [of "gas_model_to_use _ _"] gas_model_run [OF assms])
next
  case SingleGasConstraints
  have "\<exists>s'. update_single_gas_constraints_backlogs_op B H p op used s = (Ok (), s') \<and>
      goes s s' (v\<lparr>v_gas := \<lambda>j. if j < v_gas_len v then (\<lambda>g. g\<lparr>g_backlog := apply_gas_delta_op op (g_backlog g) used\<rparr>) (v_gas v j) else v_gas v j\<rparr>)"
    unfolding update_single_gas_constraints_backlogs_op_def bnd_lengths [OF assms]
  proof (rule gas_loop [OF assms])
    fix i s' w
    assume "i < N" and l: "ls s' w"
    with drain_one [OF l, of i "apply_gas_delta_op op (g_backlog (v_gas w i)) used"]
    show "\<exists>s''. (let c = open_gas_constraint_at H p (of_nat i) in
         bnd (gas_get_backlog B c) (\<lambda>backlog. gas_set_backlog B c (apply_gas_delta_op op backlog used))) s' = (Ok (), s'') \<and>
       goes s' s'' (w\<lparr>v_gas := (v_gas w)(i := (v_gas w i)\<lparr>g_backlog := apply_gas_delta_op op (g_backlog (v_gas w i)) used\<rparr>)\<rparr>)"
      by (simp add: bnd_def gas_reads [OF l] Let_def)
  qed
  then show ?thesis
    by (simp add: update_backlog_def backlog_step_def SingleGasConstraints bnd_def [of "gas_model_to_use _ _"] gas_model_run [OF assms])
qed (use legacy_backlog_run [OF assms, of op used] in
    \<open>simp_all add: update_backlog_def backlog_step_def bnd_def [of "gas_model_to_use _ _"] gas_model_run [OF assms]\<close>)

lemma commit_run:
  assumes "ls s v"
  shows "\<exists>s'. for_each kds (\<lambda>kind.
       bnd (get_next_block_fee B H (l2_multi_gas_base_fees p) kind) (\<lambda>fee.
       map_err L2_Storage
         (biguint_set B (backed_new H (base_key (l2_multi_gas_base_fees p)) (CURRENT_BLOCK_FEES_OFFSET + of_nat (kind_id kind))) fee))) s = (Ok (), s') \<and>
    goes s s' (with_current (\<lambda>kd. if kd \<in> set kds then v_next v kd else v_current v kd) v)"
  using assms
proof (induction kds arbitrary: s v)
  case Nil
  then show ?case by (simp add: ret_run)
next
  case (Cons kd kds)
  let ?F = "\<lambda>kind. bnd (get_next_block_fee B H (l2_multi_gas_base_fees p) kind) (\<lambda>fee.
       map_err L2_Storage
         (biguint_set B (backed_new H (base_key (l2_multi_gas_base_fees p)) (CURRENT_BLOCK_FEES_OFFSET + of_nat (kind_id kind))) fee))"
  have "\<exists>s1. ?F kd s = (Ok (), s1) \<and> goes s s1 (with_current ((v_current v)(kd := v_next v kd)) v)"
    using fee_pokes(2) [OF Cons.prems, of kd "v_next v kd"] Cons.prems
    by (simp add: bnd_def fee_reads [OF Cons.prems] NUM_RESOURCE_KIND_def l2_open_fields map_err_Ok
        biguint_set_run with_current_def)
  then obtain s1 where s1: "?F kd s = (Ok (), s1)" and g1: "goes s s1 (with_current ((v_current v)(kd := v_next v kd)) v)" by blast
  obtain s2 where s2: "for_each kds ?F s1 = (Ok (), s2)"
    and g2: "goes s1 s2 (with_current (\<lambda>kd'. if kd' \<in> set kds then v_next v kd' else ((v_current v)(kd := v_next v kd)) kd') v)"
    using Cons.IH [OF conjunct1 [OF g1]] unfolding with_fees_simps by blast
  have eq: "(\<lambda>kd'. if kd' \<in> set kds then v_next v kd' else ((v_current v)(kd := v_next v kd)) kd') =
      (\<lambda>kd'. if kd' \<in> set (kd # kds) then v_next v kd' else v_current v kd')"
    by auto
  have "bnd (?F kd) (\<lambda>_. for_each kds ?F) s = for_each kds ?F s1"
    using s1 by (rule bnd_Ok)
  then show ?case
    using goes_trans [OF g1 g2] s2 unfolding eq for_each.simps by auto
qed

lemma commit_fees_run:
  assumes "ls s v"
  shows "\<exists>s'. commit_multi_gas_fees B H p s = (Ok (), s') \<and>
    goes s s' (if active_model ver v = MultiGasConstraints then with_current (v_next v) v else v)"
  using commit_run [OF assms, of all_kinds] assms
  by (simp add: commit_multi_gas_fees_def commit_next_to_current_def bnd_def [of "gas_model_to_use _ _"] gas_model_run [OF assms]
      kind_list(5) ret_run)

lemma fees_per_resource_run:
  assumes "ls s v"
  shows "get_multi_gas_base_fee_per_resource B H p s = (Ok (map (fee_of v) all_kinds), s)"
    and "get_current_multi_gas_fees B H p s = (Ok (map (\<lambda>kd. if kd = SingleDim then 0 else v_current v kd) all_kinds), s)"
proof -
  show "get_multi_gas_base_fee_per_resource B H p s = (Ok (map (fee_of v) all_kinds), s)"
    unfolding get_multi_gas_base_fee_per_resource_def bnd_def [of "base_fee_wei _ _"] no_kinds
    by (simp add: l2_reads [OF assms]) (rule fold_kinds_all;
      auto simp: bnd_def fee_reads [OF assms] ret_run kind_list(3) kind_list(3) [of _ SingleDim, simplified] fee_of_def)
  show "get_current_multi_gas_fees B H p s = (Ok (map (\<lambda>kd. if kd = SingleDim then 0 else v_current v kd) all_kinds), s)"
    unfolding get_current_multi_gas_fees_def no_kinds
    by (rule fold_kinds_all [where g = "\<lambda>kd x. if kd = SingleDim then x else v_current v kd"])
      (auto simp: bnd_def fee_reads [OF assms] ret_run kind_list(3))
qed

lemma gas_clear_run:
  assumes "ls s v" and "i < N"
  shows "\<exists>s'. gas_clear B (open_gas_constraint H (K (L2_Gas i))) s = (Ok (), s') \<and>
    goes s s' (v\<lparr>v_gas := (v_gas v)(i := no_gas)\<rparr>)"
proof -
  let ?c = "open_gas_constraint H (K (L2_Gas i))"
  obtain s1 v1 where r1: "gas_set_target B ?c 0 s = (Ok (), s1)" and g1: "goes s s1 v1"
    and v1: "v1 = v\<lparr>v_gas := (v_gas v)(i := (v_gas v i)\<lparr>g_target := 0\<rparr>)\<rparr>"
    using gas_writes(1) [OF assms, of 0] by blast
  obtain s2 v2 where r2: "gas_set_adjustment_window B ?c 0 s1 = (Ok (), s2)" and g2: "goes s1 s2 v2"
    and v2: "v2 = v1\<lparr>v_gas := (v_gas v1)(i := (v_gas v1 i)\<lparr>g_window := 0\<rparr>)\<rparr>"
    using gas_writes(2) [OF conjunct1 [OF g1] assms(2), of 0] by blast
  obtain s3 where r3: "gas_set_backlog B ?c 0 s2 = (Ok (), s3)"
    and g3: "goes s2 s3 (v2\<lparr>v_gas := (v_gas v2)(i := (v_gas v2 i)\<lparr>g_backlog := 0\<rparr>)\<rparr>)"
    using gas_writes(3) [OF conjunct1 [OF g2] assms(2), of 0] by blast
  have run: "gas_clear B ?c s = (Ok (), s3)"
    using r1 r2 r3 by (simp add: gas_clear_def bnd_def gas_set_target_def gas_set_adjustment_window_def gas_set_backlog_def)
  have "v2\<lparr>v_gas := (v_gas v2)(i := (v_gas v2 i)\<lparr>g_backlog := 0\<rparr>)\<rparr> = v\<lparr>v_gas := (v_gas v)(i := no_gas)\<rparr>"
    unfolding v2 v1 by (simp add: no_gas_def gas_cst_all)
  then show ?thesis using goes_trans [OF goes_trans [OF g1 g2] g3] run by auto
qed

lemma weights_clear_run:
  assumes "ls s v" and "i < N"
  shows "\<exists>s'. for_each (map kind_id kds) (\<lambda>j. map_err L2_Storage
       (sstore B ARBOS_STATE_ADDRESS (weight_slot H (K (L2_Multi i)) (of_nat j)) 0)) s = (Ok (), s') \<and>
    goes s s' (with_weights i (\<lambda>kd. if kd \<in> set kds then 0 else m_weight (v_multi v i) kd) v)"
  using assms(1)
proof (induction kds arbitrary: s v)
  case Nil
  then show ?case by (simp add: ret_run with_weights_same)
next
  case (Cons kd kds)
  let ?F = "\<lambda>j. map_err L2_Storage (sstore B ARBOS_STATE_ADDRESS (weight_slot H (K (L2_Multi i)) (of_nat j)) 0)"
  let ?w = "(m_weight (v_multi v i))(kd := 0)"
  obtain s1 where s1: "?F (kind_id kd) s = (Ok (), s1)" and g1: "goes s s1 (with_weights i ?w v)"
    using weight_set_run [OF Cons.prems assms(2), of kd 0] by auto
  obtain s2 where s2: "for_each (map kind_id kds) ?F s1 = (Ok (), s2)"
    and g2: "goes s1 s2 (with_weights i (\<lambda>kd'. if kd' \<in> set kds then 0 else ?w kd') v)"
    using Cons.IH [OF conjunct1 [OF g1]] unfolding with_weights_same by blast
  have eq: "(\<lambda>kd'. if kd' \<in> set kds then 0 else ?w kd') =
      (\<lambda>kd'. if kd' \<in> set (kd # kds) then 0 else m_weight (v_multi v i) kd')"
    by auto
  have "bnd (?F (kind_id kd)) (\<lambda>_. for_each (map kind_id kds) ?F) s = for_each (map kind_id kds) ?F s1"
    using s1 by (rule bnd_Ok)
  then show ?case
    using goes_trans [OF g1 g2] s2 unfolding eq list.map(2) for_each.simps by auto
qed

lemma multi_clear_run:
  assumes "ls s v" and "i < N"
  shows "\<exists>s'. multi_clear B H (open_multi_gas_constraint H (K (L2_Multi i))) s = (Ok (), s') \<and>
    goes s s' (upd_multi i (\<lambda>_. no_multi) v)"
proof -
  let ?c = "open_multi_gas_constraint H (K (L2_Multi i))"
  obtain s1 where r1: "multi_set_target B ?c 0 s = (Ok (), s1)" and g1: "goes s s1 (upd_multi i (\<lambda>m. m\<lparr>m_target := 0\<rparr>) v)"
    using multi_writes(1) [OF assms, of 0] by blast
  obtain s2 where r2: "multi_set_adjustment_window B ?c 0 s1 = (Ok (), s2)"
    and g2: "goes s1 s2 (upd_multi i (\<lambda>m. m\<lparr>m_target := 0, m_window := 0\<rparr>) v)"
    using multi_writes(2) [OF conjunct1 [OF g1] assms(2), of 0] unfolding upd_multi_upd by blast
  obtain s3 where r3: "multi_set_backlog B ?c 0 s2 = (Ok (), s3)"
    and g3: "goes s2 s3 (upd_multi i (\<lambda>m. m\<lparr>m_target := 0, m_window := 0, m_backlog := 0\<rparr>) v)"
    using multi_writes(3) [OF conjunct1 [OF g2] assms(2), of 0] unfolding upd_multi_upd by blast
  obtain s4 where r4: "map_err L2_Storage (uint64_set B (mgc_max_weight ?c) 0) s3 = (Ok (), s4)"
    and g4: "goes s3 s4 (upd_multi i (\<lambda>m. m\<lparr>m_target := 0, m_window := 0, m_backlog := 0, m_max := 0\<rparr>) v)"
    using multi_pokes(4) [OF conjunct1 [OF g3] assms(2), of 0] g3
    by (auto simp: open_multi_gas_constraint_def uint64_set_run map_err_Ok upd_multi_def)
  obtain s5 where r5: "for_each (map kind_id all_kinds) (\<lambda>j. map_err L2_Storage
       (sstore B ARBOS_STATE_ADDRESS (weight_slot H (K (L2_Multi i)) (of_nat j)) 0)) s4 = (Ok (), s5)"
    and g5: "goes s4 s5 (with_weights i (\<lambda>_. 0) (upd_multi i (\<lambda>m. m\<lparr>m_target := 0, m_window := 0, m_backlog := 0, m_max := 0\<rparr>) v))"
    using weights_clear_run [OF conjunct1 [OF g4] assms(2), of all_kinds] by (auto simp: kind_list(5))
  have eq: "with_weights i (\<lambda>_. 0) (upd_multi i (\<lambda>m. m\<lparr>m_target := 0, m_window := 0, m_backlog := 0, m_max := 0\<rparr>) v) =
      upd_multi i (\<lambda>_. no_multi) v"
    by (cases "v_multi v i") (simp add: with_weights_def upd_multi_def no_multi_def)
  have key: "mgc_base_key ?c = K (L2_Multi i)" by (simp add: open_multi_gas_constraint_def)
  have nine: "[0..<NUM_RESOURCE_KIND] = map kind_id all_kinds" by (simp only: NUM_RESOURCE_KIND_def kind_list)
  have "multi_clear B H ?c s = (Ok (), s5)"
    using r1 r2 r3 r4 r5 unfolding multi_clear_def nine key multi_set_target_def multi_set_adjustment_window_def multi_set_backlog_def
    by (simp add: bnd_def)
  then show ?thesis using goes_trans [OF goes_trans [OF goes_trans [OF goes_trans [OF g1 g2] g3] g4] g5] unfolding eq by blast
qed

lemma clear_gas_constraints_run:
  assumes "ls s v"
  shows "\<exists>s'. clear_gas_constraints B H p s = (Ok (), s') \<and> goes s s' (gas_cleared v)"
proof -
  let ?n = "v_gas_len v"
  let ?v = "v\<lparr>v_gas := \<lambda>j. if j < ?n then (\<lambda>_. no_gas) (v_gas v j) else v_gas v j\<rparr>"
  obtain s1 where s1: "for_each (u64_range 0 (of_nat ?n)) (\<lambda>i. gas_clear B (open_gas_constraint_at H p i)) s = (Ok (), s1)"
    and g1: "goes s s1 ?v"
    using gas_loop [OF assms, of "\<lambda>i. gas_clear B (open_gas_constraint_at H p i)" "\<lambda>_. no_gas"] gas_clear_run
    unfolding gas_at_key by blast
  let ?pop = "\<lambda>_. bnd (map_err L2_Storage (vector_pop B (l2_gas_constraints p))) (\<lambda>_. ret ())"
  have "\<exists>s2. for_each (u64_range 0 (of_nat ?n)) ?pop s1 = (Ok (), s2) \<and> goes s s2 (?v\<lparr>v_gas_len := ?n - ?n\<rparr>)"
  proof (rule for_range_run [where I = "\<lambda>i s2. goes s s2 (?v\<lparr>v_gas_len := ?n - i\<rparr>)"])
    fix i s'
    assume i: "i < ?n" and g: "goes s s' (?v\<lparr>v_gas_len := ?n - i\<rparr>)"
    then show "\<exists>s''. ?pop (of_nat i) s' = (Ok (), s'') \<and> goes s s'' (?v\<lparr>v_gas_len := ?n - Suc i\<rparr>)"
      using pop_gas [OF conjunct1 [OF g]] by auto
  qed (use g1 gas_len(1) [OF assms] in simp_all)
  then obtain s2 where s2: "for_each (u64_range 0 (of_nat ?n)) ?pop s1 = (Ok (), s2)" and g2: "goes s s2 (?v\<lparr>v_gas_len := ?n - ?n\<rparr>)"
    by blast
  have "?v\<lparr>v_gas_len := ?n - ?n\<rparr> = gas_cleared v" by (simp add: gas_cleared_def)
  moreover have "clear_gas_constraints B H p s = (Ok (), s2)"
    using s2 l2_reads(9) [OF assms]
    by (simp add: clear_gas_constraints_def gas_constraints_length_def bnd_def [of "map_err L2_Storage (vector_length _ _)"] bnd_def [of "for_each _ _"] s1)
  ultimately show ?thesis using g2 by metis
qed

lemma clear_multi_gas_constraints_run:
  assumes "ls s v"
  shows "\<exists>s'. clear_multi_gas_constraints B H p s = (Ok (), s') \<and> goes s s' (multi_cleared v)"
proof -
  let ?n = "v_multi_len v"
  let ?v = "v\<lparr>v_multi := \<lambda>j. if j < ?n then (\<lambda>_. no_multi) (v_multi v j) else v_multi v j\<rparr>"
  obtain s1 where s1: "for_each (u64_range 0 (of_nat ?n)) (\<lambda>i. multi_clear B H (open_multi_gas_constraint_at H p i)) s = (Ok (), s1)"
    and g1: "goes s s1 ?v"
    using multi_loop [OF assms, of "\<lambda>i. multi_clear B H (open_multi_gas_constraint_at H p i)" "\<lambda>_. no_multi"] multi_clear_run
    unfolding multi_at_key by blast
  let ?pop = "\<lambda>_. bnd (map_err L2_Storage (vector_pop B (l2_multi_gas_constraints p))) (\<lambda>_. ret ())"
  have "\<exists>s2. for_each (u64_range 0 (of_nat ?n)) ?pop s1 = (Ok (), s2) \<and> goes s s2 (?v\<lparr>v_multi_len := ?n - ?n\<rparr>)"
  proof (rule for_range_run [where I = "\<lambda>i s2. goes s s2 (?v\<lparr>v_multi_len := ?n - i\<rparr>)"])
    fix i s'
    assume i: "i < ?n" and g: "goes s s' (?v\<lparr>v_multi_len := ?n - i\<rparr>)"
    then show "\<exists>s''. ?pop (of_nat i) s' = (Ok (), s'') \<and> goes s s'' (?v\<lparr>v_multi_len := ?n - Suc i\<rparr>)"
      using pop_multi [OF conjunct1 [OF g]] by auto
  qed (use g1 multi_len(1) [OF assms] in simp_all)
  then obtain s2 where s2: "for_each (u64_range 0 (of_nat ?n)) ?pop s1 = (Ok (), s2)" and g2: "goes s s2 (?v\<lparr>v_multi_len := ?n - ?n\<rparr>)"
    by blast
  have "?v\<lparr>v_multi_len := ?n - ?n\<rparr> = multi_cleared v" by (simp add: multi_cleared_def)
  moreover have "clear_multi_gas_constraints B H p s = (Ok (), s2)"
    using s2 l2_reads(10) [OF assms]
    by (simp add: clear_multi_gas_constraints_def multi_gas_constraints_length_def bnd_def [of "map_err L2_Storage (vector_length _ _)"]
        bnd_def [of "for_each _ _"] s1)
  ultimately show ?thesis using g2 by metis
qed

lemma from_legacy_run:
  assumes "ls s v" and "0 < N"
  shows "\<exists>s'. set_gas_constraints_from_legacy B H p s = (Ok (), s') \<and> goes s s' (gas_pushed (legacy_cst v) (gas_cleared v))"
proof -
  obtain s1 where s1: "clear_gas_constraints B H p s = (Ok (), s1)" and g1: "goes s s1 (gas_cleared v)"
    using clear_gas_constraints_run [OF assms(1)] by blast
  then have l1: "ls s1 (gas_cleared v)" by blast
  have "v_gas_len (gas_cleared v) < N" using assms(2) by (simp add: gas_cleared_def)
  then obtain s2 where s2: "add_gas_constraint B H p (v_speed v) (v_inertia v)
      (sat_sub (v_backlog v) (sat_mul (v_tolerance v) (v_speed v))) s1 = (Ok (), s2)"
    and g2: "goes s1 s2 (gas_pushed (legacy_cst v) (gas_cleared v))"
    using add_gas_constraint_run [OF l1, of "v_speed v" "v_inertia v" "sat_sub (v_backlog v) (sat_mul (v_tolerance v) (v_speed v))"]
    by (auto simp: gas_pushed_def legacy_cst_def)
  have same: "v_speed (gas_cleared v) = v_speed v" "v_inertia (gas_cleared v) = v_inertia v"
    "v_backlog (gas_cleared v) = v_backlog v" "v_tolerance (gas_cleared v) = v_tolerance v"
    by (simp_all add: gas_cleared_def)
  have "set_gas_constraints_from_legacy B H p s = (Ok (), s2)"
    using s2 by (simp add: set_gas_constraints_from_legacy_def bnd_def s1 l2_reads [OF l1] same Let_def)
  then show ?thesis using goes_trans [OF g1 g2] by blast
qed

lemma from_single_run:
  assumes "ls s v"
  shows "\<exists>s'. set_multi_gas_constraints_from_single_gas_constraints B H p s = (Ok (), s') \<and>
    goes s s' (multi_from_single v (v_gas_len v))"
proof -
  obtain s1 where s1: "clear_multi_gas_constraints B H p s = (Ok (), s1)" and g1: "goes s s1 (multi_cleared v)"
    using clear_multi_gas_constraints_run [OF assms] by blast
  have zero: "multi_from_single v 0 = multi_cleared v"
    by (simp add: multi_from_single_def multi_cleared_def)
  have gas: "v_gas (multi_from_single v i) = v_gas v" "v_multi_len (multi_from_single v i) = i" for i
    by (simp_all add: multi_from_single_def multi_cleared_def)
  have len: "gas_constraints_length B p s1 = (Ok (of_nat (v_gas_len v)), s1)"
    using l2_reads(9) [OF conjunct1 [OF g1]] by (simp add: multi_cleared_def)
  let ?f = "\<lambda>i. let c = open_gas_constraint_at H p i in
       bnd (gas_target B c) (\<lambda>target. bnd (gas_adjustment_window B c) (\<lambda>window. bnd (gas_get_backlog B c) (\<lambda>backlog.
       let weights = replicate NUM_RESOURCE_KIND 1;
           adjustment_window = (if 2 ^ 32 - 1 < window then 2 ^ 32 - 1 else ucast window) in
       add_multi_gas_constraint B H p target adjustment_window backlog weights)))"
  have "\<exists>s2. for_each (u64_range 0 (of_nat (v_gas_len v))) ?f s1 = (Ok (), s2) \<and> goes s s2 (multi_from_single v (v_gas_len v))"
  proof (rule for_range_run [where I = "\<lambda>i s2. goes s s2 (multi_from_single v i)"])
    fix i s'
    assume "i < v_gas_len v" and g: "goes s s' (multi_from_single v i)"
    then have i: "i < N" and l: "ls s' (multi_from_single v i)" using gas_len(2) [OF assms] by auto
    have ws: "foldl max 0 (replicate 9 (1 :: u64)) = 1" "length (replicate 9 (1 :: u64)) = 9"
      "(replicate 9 (1 :: u64)) ! kind_id kd = 1" for kd
      using kind_id_less [of kd] nth_replicate [of "kind_id kd" 9 "1 :: u64"]
      by (simp_all add: NUM_RESOURCE_KIND_def) (simp add: numeral_eq_Suc)
    have upd: "upd_multi i (\<lambda>_. uniform_cst (v_gas v i)) ((multi_from_single v i)\<lparr>v_multi_len := Suc i\<rparr>) = multi_from_single v (Suc i)"
      by (auto simp: multi_from_single_def upd_multi_def fun_eq_iff less_Suc_eq intro!: l2_view.equality)
    obtain s2 where s2: "add_multi_gas_constraint B H p (g_target (v_gas v i))
        (if 2 ^ 32 - 1 < g_window (v_gas v i) then 2 ^ 32 - 1 else ucast (g_window (v_gas v i))) (g_backlog (v_gas v i)) (replicate 9 1) s' = (Ok (), s2)"
      and g2: "goes s' s2 (multi_from_single v (Suc i))"
      using add_multi_gas_constraint_run [OF l, unfolded gas, OF i ws(2), of "g_target (v_gas v i)"
          "if 2 ^ 32 - 1 < g_window (v_gas v i) then 2 ^ 32 - 1 else ucast (g_window (v_gas v i))" "g_backlog (v_gas v i)"]
      unfolding ws(1,3) uniform_cst_def [symmetric] upd by blast
    have "?f (of_nat i) s' = (Ok (), s2)"
      using s2 by (simp add: bnd_def gas_reads [OF l i, unfolded gas] Let_def NUM_RESOURCE_KIND_def)
    then show "\<exists>s''. ?f (of_nat i) s' = (Ok (), s'') \<and> goes s s'' (multi_from_single v (Suc i))"
      using goes_trans [OF g g2] by blast
  next
    show "v_gas_len v < 2 ^ 64" using gas_len(1) [OF assms] .
  qed (use g1 zero in simp)
  then show ?thesis
    by (simp add: set_multi_gas_constraints_from_single_gas_constraints_def bnd_def [of "clear_multi_gas_constraints _ _ _"] s1
        bnd_def [of "gas_constraints_length _ _"] len)
qed

lemma price_for_refund_run:
  assumes "ls s v"
  shows "multi_dimensional_price_for_refund B H p g s = (Ok (foldl (\<lambda>total kd.
      sat_add total (sat_mul (ucast (mg_get g kd)) (fee_of v kd))) 0 all_kinds), s)" (is ?a)
    and "multi_dimensional_price_for_refund_with_fees B p g (map (\<lambda>kd. if kd = SingleDim then 0 else v_current v kd) all_kinds) s =
      (Ok (foldl (\<lambda>total kd. sat_add total (sat_mul (ucast (mg_get g kd)) (fee_of v kd))) 0 all_kinds), s)" (is ?b)
proof -
  have zero: "sat_add t (sat_mul 0 x) = t" for t x :: u256
    using unat_bound [of t] by (simp add: sat_add_def sat_mul_def)
  show ?a
    unfolding multi_dimensional_price_for_refund_def
    by (simp add: bnd_def fees_per_resource_run(1) [OF assms] ret_run kind_list(2) Let_def)
      (intro foldl_cong; simp add: zero kind_list(2))
  show ?b
    unfolding multi_dimensional_price_for_refund_with_fees_def
    by (simp add: bnd_def l2_reads [OF assms] ret_run kind_list(2) Let_def)
      (intro foldl_cong; auto simp: zero kind_list(2) fee_of_def)
qed

end

interpretation l2: l2_store "state_backend E H" H "F \<union> l2_cells H k N"
    "\<lambda>s. state_ok E H (F \<union> l2_cells H k N) s \<and> l2_keys_ok H k N" "state_cell H" "state_poke E H" k N ver
  for E H F k N ver
  proof
  fix s l l' v
  assume "state_ok E H (F \<union> l2_cells H k N) s \<and> l2_keys_ok H k N" and "l \<in> F \<union> l2_cells H k N" and "l' \<in> F \<union> l2_cells H k N"
  then show "state_cell H (state_poke E H s l v) l' = (if l' = l then v else state_cell H s l')"
    by (intro st.cell_poke) blast+
qed (auto simp: st.sload_system_cell st.sload_cell st.sstore_cell st.ok_poke)

end
