(* ===== verification/L2_System.thy ===== *)
theory L2_System
  imports L2_Models Sample_Env
begin

text \<open>
  The properties of L2 pricing on the executor's state: updating prices and backlogs is the function on
  views, the base fee never falls below the minimum, upgrading the constraints keeps the base fee, and the
  two ways of pricing a refund agree.
\<close>

section \<open>A concrete pricing state\<close>

abbreviation l2_holds :: "revm \<Rightarrow> keccak \<Rightarrow> cell_id set \<Rightarrow> u256 \<Rightarrow> nat \<Rightarrow> l2_view \<Rightarrow> state \<Rightarrow> bool" where
  "l2_holds E H F k N v st \<equiv>
     (state_ok E H (F \<union> l2_cells H k N) st \<and> l2_keys_ok H k N) \<and> l2_at H (state_cell H st) k N v"

definition sample_gas :: gas_cst where
  "sample_gas = \<lparr>g_target = 7000000, g_window = 102, g_backlog = 900000000\<rparr>"

definition sample_multi :: multi_cst where
  "sample_multi = \<lparr>m_target = 7000000, m_window = 102, m_backlog = 900000000, m_max = 2, m_weight = \<lambda>_. 2\<rparr>"

definition sample_l2 :: l2_view where
  "sample_l2 = \<lparr>v_speed = 7000000, v_block_limit = 32000000, v_base_fee = 100000000, v_min_fee = 100000000,
     v_backlog = 900000000, v_inertia = 102, v_tolerance = 10, v_tx_limit = 32000000,
     v_gas_len = 1, v_gas = \<lambda>_. sample_gas, v_multi_len = 1, v_multi = \<lambda>_. sample_multi,
     v_next = \<lambda>_. 100000000, v_current = \<lambda>_. 100000000\<rparr>"

definition sample_l2_cells :: "u256 \<Rightarrow> u256 \<Rightarrow> u256" where
  "sample_l2_cells k key =
     (if k = 7 then [7000000, 32000000, 100000000, 100000000, 900000000, 102, 10, 32000000] ! unat key
      else if k = 1793 \<or> k = 1794 then 1
      else if k = 1795 then 100000000
      else if unat k div 2 ^ 64 = 1793 then [7000000, 102, 900000000] ! unat key
      else if unat key < 3 then [7000000, 102, 900000000] ! unat key
      else 2)"

lemma sample_element_key:
  assumes "unat g < 2 ^ 16" and "g \<noteq> 0"
  shows "derive_sub_key sample_keccak g (be_bytes 8 (i :: u64)) = of_nat (unat g * 2 ^ 64 + unat i + 1)"
proof -
  have "drop 30 (be_bytes 32 g @ be_bytes 8 i) = be_bytes 2 g @ be_bytes 8 i"
    using drop_be_bytes [of 30 2 g] by simp
  then show ?thesis
    using assms unat_bound [of i]
    by (simp add: derive_sub_key_def storage_key_def sample_keccak_def from_be_of_nat be_nat_append be_nat_be_bytes)
qed

lemma sample_l2_keys:
  "l2_key_of sample_keccak 7 L2_Root = 7" "l2_key_of sample_keccak 7 L2_Gas_Vec = 1793"
  "l2_key_of sample_keccak 7 L2_Multi_Vec = 1794" "l2_key_of sample_keccak 7 L2_Fees = 1795"
  "l2_key_of sample_keccak 7 (L2_Gas 0) = 1793 * 2 ^ 64 + 1" "l2_key_of sample_keccak 7 (L2_Multi 0) = 1794 * 2 ^ 64 + 1"
proof -
  show k: "l2_key_of sample_keccak 7 L2_Root = 7" "l2_key_of sample_keccak 7 L2_Gas_Vec = 1793"
    "l2_key_of sample_keccak 7 L2_Multi_Vec = 1794" "l2_key_of sample_keccak 7 L2_Fees = 1795"
    using unat_sub_key_sample [of 7 0] unat_sub_key_sample [of 7 1] unat_sub_key_sample [of 7 2]
    by (simp_all add: word_unat_eq_iff l2_key_of.simps)
  show "l2_key_of sample_keccak 7 (L2_Gas 0) = 1793 * 2 ^ 64 + 1" "l2_key_of sample_keccak 7 (L2_Multi 0) = 1794 * 2 ^ 64 + 1"
    using sample_element_key [of 1793 0] sample_element_key [of 1794 0] k(2,3) by (simp_all add: l2_key_of.simps)
qed

lemma sample_keys_one: "l2_keys (Suc 0) = {L2_Root, L2_Gas_Vec, L2_Multi_Vec, L2_Fees, L2_Gas 0, L2_Multi 0}"
  by (auto simp: l2_keys_def)

lemma sample_l2_holds: "l2_holds sample_revm sample_keccak {} 7 1 sample_l2 (sample_state sample_l2_cells)"
proof (intro conjI)
  show "state_ok sample_revm sample_keccak ({} \<union> l2_cells sample_keccak 7 1) (sample_state sample_l2_cells)"
    by (rule state_ok_sample) (auto simp: l2_cells_def sample_keys_one sample_l2_keys)
  show "l2_keys_ok sample_keccak 7 1"
    by (simp add: l2_keys_ok_def sample_keys_one inj_on_def sample_l2_keys)
  have off: "unat (4 + of_nat (kind_id kd) :: u64) = 4 + kind_id kd" for kd
    by (cases kd) simp_all
  have nth: "[a, b, c, d, e, f, g, h] ! 4 = e" "[a, b, c, d, e, f, g, h] ! 5 = f" "[a, b, c, d, e, f, g, h] ! 6 = g"
    "[a, b, c, d, e, f, g, h] ! 7 = h" for a b c d e f g h :: u256
    by (simp_all add: eval_nat_numeral)
  show "l2_at sample_keccak (state_cell sample_keccak (sample_state sample_l2_cells)) 7 1 sample_l2"
    by (simp add: l2_at_def sample_l2_keys at_sample sample_l2_cells_def sample_l2_def gas_cst_at_def multi_cst_at_def
        fees_at_def sample_gas_def sample_multi_def off nth)
qed

section \<open>Prices and backlogs\<close>

text \<open>
  C5: updating the prices of a block and growing or shrinking the backlog always succeed and do exactly what
  the pricing models on the abstract record of parameters, constraints and fees do; no cell outside the pricing
  state changes.
\<close>

theorem l2_pricing_refines_models:
  assumes "l2_holds E H F k N v st"
  shows "(\<exists>st'. update_pricing_model (state_backend E H) H (l2_open H k ver) t av st = (Ok (), st') \<and>
      l2_holds E H F k N (next_prices ver t v) st' \<and>
      (\<forall>l \<in> F - l2_cells H k N. state_cell H st' l = state_cell H st l)) \<and>
    (\<exists>st'. update_backlog (state_backend E H) H (l2_open H k ver) op used mused st = (Ok (), st') \<and>
      l2_holds E H F k N (backlog_step ver op used mused v) st' \<and>
      (\<forall>l \<in> F - l2_cells H k N. state_cell H st' l = state_cell H st l))"
  using l2.update_pricing_model_run [OF assms, of ver t av] l2.update_backlog_run [OF assms, of ver op used mused]
  by auto

lemma l2_pricing_refines_models_witness:
  "(\<exists>st'. update_pricing_model (state_backend sample_revm sample_keccak) sample_keccak (l2_open sample_keccak 7 60) 3 60
        (sample_state sample_l2_cells) = (Ok (), st') \<and>
      l2_holds sample_revm sample_keccak {} 7 1 (next_prices 60 3 sample_l2) st') \<and>
   (\<exists>st'. update_backlog (state_backend sample_revm sample_keccak) sample_keccak (l2_open sample_keccak 7 50) Grow 21000 mg_zero
        (sample_state sample_l2_cells) = (Ok (), st') \<and>
      l2_holds sample_revm sample_keccak {} 7 1 (backlog_step 50 Grow 21000 mg_zero sample_l2) st')"
  using l2_pricing_refines_models [OF sample_l2_holds, of 60 3 60 Grow 21000 mg_zero]
    l2_pricing_refines_models [OF sample_l2_holds, of 50 3 60 Grow 21000 mg_zero] by blast

lemma price_floor: "m \<le> price m e"
  by (simp add: price_def)

lemma foldl_max_ge: "(m :: u256) \<le> foldl max m xs"
proof (induction xs arbitrary: m)
  case (Cons a xs)
  have "m \<le> max m a" by simp
  also have "\<dots> \<le> foldl max (max m a) xs" by (rule Cons.IH)
  finally show ?case by simp
qed simp

lemma next_prices_floor:
  "v_min_fee v \<le> v_base_fee (next_prices ver t v)" "v_min_fee (next_prices ver t v) = v_min_fee v"
  by (auto simp: next_prices_def legacy_model_def single_model_def multi_model_def Let_def price_floor foldl_max_ge
      split: gas_model.splits)

text \<open>
  C13: whatever pricing model is active, however much time has passed and however large the backlogs are,
  the base fee after an update of the prices is at least the minimum base fee, which the update keeps; in the
  model of constraints on several resources, this holds of the fee of each resource for the next block.
\<close>

theorem base_fee_at_least_minimum:
  assumes "l2_holds E H F k N v st"
  shows "\<exists>st' f. update_pricing_model (state_backend E H) H (l2_open H k ver) t av st = (Ok (), st') \<and>
    base_fee_wei (state_backend E H) (l2_open H k ver) st' = (Ok f, st') \<and>
    min_base_fee_wei (state_backend E H) (l2_open H k ver) st' = (Ok (v_min_fee v), st') \<and> v_min_fee v \<le> f \<and>
    (active_model ver v = MultiGasConstraints \<longrightarrow> (\<forall>kd. \<exists>g.
       get_next_block_fee (state_backend E H) H (l2_multi_gas_base_fees (l2_open H k ver)) kd st' = (Ok g, st') \<and> v_min_fee v \<le> g))"
proof -
  obtain st' where run: "update_pricing_model (state_backend E H) H (l2_open H k ver) t av st = (Ok (), st')"
    and holds: "l2_holds E H F k N (next_prices ver t v) st'"
    using l2.update_pricing_model_run [OF assms, of ver t av] by blast
  have "active_model ver v = MultiGasConstraints \<Longrightarrow> v_min_fee v \<le> v_next (next_prices ver t v) kd" for kd
    by (simp add: next_prices_def multi_model_def Let_def price_floor)
  then show ?thesis
    using run l2.l2_reads(1,2) [OF holds, of ver] next_prices_floor [where v = v and ver = ver and t = t] l2.fee_reads(1) [OF holds, of ver] by auto
qed

lemma base_fee_at_least_minimum_witness:
  "\<exists>st' f. update_pricing_model (state_backend sample_revm sample_keccak) sample_keccak (l2_open sample_keccak 7 60) 3 60
      (sample_state sample_l2_cells) = (Ok (), st') \<and>
    base_fee_wei (state_backend sample_revm sample_keccak) (l2_open sample_keccak 7 60) st' = (Ok f, st') \<and> 100000000 \<le> f"
  using base_fee_at_least_minimum [OF sample_l2_holds, of 60 3 60] by (auto simp: sample_l2_def)

section \<open>Upgrades keep the base fee\<close>

lemma cast_i64: "0 \<le> saturating_cast_to_i64 x" "saturating_cast_to_i64 x < 2 ^ 63" "saturating_cast_to_i64 x = 0 \<longleftrightarrow> x = 0"
proof -
  show "0 \<le> saturating_cast_to_i64 x" by (simp add: saturating_cast_to_i64_def)
  show "saturating_cast_to_i64 x < 2 ^ 63" 
  proof (cases "2 ^ 63 - 1 < unat x")
    case False
    then have "unat x < 2 ^ 63" by simp
    then have "int (unat x) < int (2 ^ 63)" by (simp only: of_nat_less_iff)
    then have "int (unat x) < 2 ^ 63" by (simp only: of_nat_power of_nat_numeral)
    with False show ?thesis by (simp only: saturating_cast_to_i64_def if_False)
  qed (simp add: saturating_cast_to_i64_def)
  show "saturating_cast_to_i64 x = 0 \<longleftrightarrow> x = 0"
    unfolding saturating_cast_to_i64_def by (cases "2 ^ 63 - 1 < unat x") (auto simp only: if_True if_False of_nat_eq_0_iff unat_eq_0, auto)
qed

lemma bips_i64: "0 \<le> n \<Longrightarrow> 0 \<le> natural_to_bips n \<and> natural_to_bips n < 2 ^ 63"
  by (auto simp: natural_to_bips_def i64_clamp_def)

lemma exponent_i64:
  assumes "0 \<le> n" and "0 \<le> d"
  shows "0 \<le> truncated_div (natural_to_bips n) d \<and> truncated_div (natural_to_bips n) d < 2 ^ 63"
proof -
  have "truncated_div (natural_to_bips n) d \<le> natural_to_bips n"
    using assms bips_i64 [OF assms(1)] by (cases "d = 0"; cases "natural_to_bips n = 0")
      (auto simp: truncated_div_def sgn_if intro: order_trans [OF zdiv_mono2 [of _ 1]])
  moreover have "0 \<le> truncated_div (natural_to_bips n) d"
    using assms bips_i64 [OF assms(1)] by (auto simp: truncated_div_def sgn_if pos_imp_zdiv_nonneg_iff)
  ultimately show ?thesis using bips_i64 [OF assms(1)] by simp
qed

lemma add_exponent_zero:
  "add_exponent 0 g =
     (let d = saturating_cast_to_i64 (sat_mul (g_window g) (g_target g)) in
      if 0 < g_backlog g \<and> d \<noteq> 0 then truncated_div (natural_to_bips (saturating_cast_to_i64 (g_backlog g))) d else 0)"
  using exponent_i64 [of "saturating_cast_to_i64 (g_backlog g)" "saturating_cast_to_i64 (sat_mul (g_window g) (g_target g))"]
  by (simp add: add_exponent_def i64_saturating_add_def i64_clamp_def cast_i64 Let_def)

lemma legacy_exponent_cst:
  assumes "unat (v_tolerance v) * unat (v_speed v) < 2 ^ 64"
  shows "legacy_exponent (v\<lparr>v_backlog := sat_sub (v_backlog v) (sat_mul t (v_speed v))\<rparr>) =
    i64_floor_u64 (add_exponent 0 (drain_gas t (legacy_cst v)))"
proof -
  let ?b = "sat_sub (v_backlog v) (sat_mul t (v_speed v))" and ?l = "v_tolerance v * v_speed v"
  have limit: "unat ?l = unat (v_tolerance v) * unat (v_speed v)"
    using iffD1 [OF unat_mult_lem, of "v_tolerance v" "v_speed v"] assms by simp
  have b: "g_backlog (drain_gas t (legacy_cst v)) = (if ?l < ?b then ?b - ?l else 0)"
    using assms limit by (auto simp: word_unat_eq_iff drain_gas_def legacy_cst_def unat_sat word_less_nat_alt unat_sub word_le_nat_alt)
  have d: "g_window (drain_gas t (legacy_cst v)) = v_inertia v" "g_target (drain_gas t (legacy_cst v)) = v_speed v"
    by (simp_all add: drain_gas_def legacy_cst_def)
  have pos: "?l < ?b \<Longrightarrow> 0 < ?b - ?l"
    by (simp add: word_gt_0)
  show ?thesis
    using pos unfolding legacy_exponent_def add_exponent_zero b d by (auto simp: Let_def i64_floor_u64_def)
qed

text \<open>
  C37: from ArbOS 50 on, turning the legacy parameters into a gas constraint keeps the price. Provided no constraints on
  several resources are active and the tolerated backlog
  \<open>tolerance * speed\<close> fits 64 bits, the base fee of the next block is the same under the new constraint as
  under the legacy model, for any time that passes.
\<close>

theorem legacy_upgrade_keeps_base_fee:
  assumes "l2_holds E H F k N v st" and "0 < N" and "unat (v_tolerance v) * unat (v_speed v) < 2 ^ 64"
    and "50 \<le> ver" and "ver < 60 \<or> v_multi_len v = 0"
  shows "\<exists>st1 st2 st3 f.
    update_pricing_model_legacy (state_backend E H) (l2_open H k ver) t st = (Ok (), st1) \<and>
    base_fee_wei (state_backend E H) (l2_open H k ver) st1 = (Ok f, st1) \<and>
    set_gas_constraints_from_legacy (state_backend E H) H (l2_open H k ver) st = (Ok (), st2) \<and>
    update_pricing_model (state_backend E H) H (l2_open H k ver) t av st2 = (Ok (), st3) \<and>
    base_fee_wei (state_backend E H) (l2_open H k ver) st3 = (Ok f, st3)"
proof -
  let ?w = "gas_pushed (legacy_cst v) (gas_cleared v)"
  obtain st1 where r1: "update_pricing_model_legacy (state_backend E H) (l2_open H k ver) t st = (Ok (), st1)"
    and h1: "l2_holds E H F k N (legacy_model t v) st1"
    using l2.legacy_run [OF assms(1), of ver t] by blast
  obtain st2 where r2: "set_gas_constraints_from_legacy (state_backend E H) H (l2_open H k ver) st = (Ok (), st2)"
    and h2: "l2_holds E H F k N ?w st2"
    using l2.from_legacy_run [OF assms(1,2), of ver] by blast
  obtain st3 where r3: "update_pricing_model (state_backend E H) H (l2_open H k ver) t av st2 = (Ok (), st3)"
    and h3: "l2_holds E H F k N (next_prices ver t ?w) st3"
    using l2.update_pricing_model_run [OF h2, of ver t av] by blast
  have "active_model ver ?w = SingleGasConstraints"
    using assms(4,5) by (auto simp: active_model_def gas_pushed_def gas_cleared_def not_le)
  then have "v_base_fee (next_prices ver t ?w) = v_base_fee (legacy_model t v)"
    unfolding next_prices_def
    by (simp add: single_model_def legacy_model_def Let_def legacy_exponent_cst [OF assms(3)] gas_exponent_def)
      (simp add: gas_pushed_def gas_cleared_def)
  then show ?thesis
    using r1 r2 r3 l2.l2_reads(1) [OF h1, of ver] l2.l2_reads(1) [OF h3, of ver] by auto
qed

lemma legacy_upgrade_keeps_base_fee_witness:
  "\<exists>st1 st2 st3 f.
    update_pricing_model_legacy (state_backend sample_revm sample_keccak) (l2_open sample_keccak 7 50) 3
      (sample_state sample_l2_cells) = (Ok (), st1) \<and>
    base_fee_wei (state_backend sample_revm sample_keccak) (l2_open sample_keccak 7 50) st1 = (Ok f, st1) \<and>
    set_gas_constraints_from_legacy (state_backend sample_revm sample_keccak) sample_keccak (l2_open sample_keccak 7 50)
      (sample_state sample_l2_cells) = (Ok (), st2) \<and>
    update_pricing_model (state_backend sample_revm sample_keccak) sample_keccak (l2_open sample_keccak 7 50) 3 50 st2 = (Ok (), st3) \<and>
    base_fee_wei (state_backend sample_revm sample_keccak) (l2_open sample_keccak 7 50) st3 = (Ok f, st3)"
  by (rule legacy_upgrade_keeps_base_fee [OF sample_l2_holds]) (simp_all add: sample_l2_def)

lemma uniform_exponent:
  assumes "g_window g < 2 ^ 32"
  shows "add_kind_exponent (uniform_cst g) kd e = (if kd = SingleDim then e else add_exponent e g)"
proof -
  have w: "m_window (uniform_cst g) = ucast (g_window g)" "ucast (ucast (g_window g) :: u32) = g_window g"
    "(ucast (g_window g) :: u32) = 0 \<longleftrightarrow> g_window g = 0"
    using assms by (auto simp: uniform_cst_def word_less_nat_alt word_unat_eq_iff unat_ucast_small unat_ucast_up)
  have one: "sat_mul x 1 = x" for x :: u64
    using unat_bound [of x] by (simp add: sat_mul_def)
  have zero: "sat_mul 0 x = 0" "sat_mul x 0 = 0" "saturating_cast_to_i64 0 = 0" for x :: u64
    by (simp_all add: sat_mul_def saturating_cast_to_i64_def)
  show ?thesis
    unfolding add_kind_exponent_def w
    by (auto simp: uniform_cst_def one zero w add_exponent_def Let_def word_gt_0)
qed

lemma drain_uniform: "drain_multi t (uniform_cst g) = uniform_cst (drain_gas t g)"
  by (simp add: drain_multi_def drain_gas_def uniform_cst_def)

lemma fold_uniform:
  assumes "\<forall>g \<in> set gs. g_window g < 2 ^ 32"
  shows "fold (\<lambda>m. add_kind_exponent m kd) (map uniform_cst gs) e = (if kd = SingleDim then e else foldl add_exponent e gs)"
  using assms by (induction gs arbitrary: e) (simp_all add: uniform_exponent)

lemma foldl_max_same: "(m :: u256) \<le> x \<Longrightarrow> set ys \<subseteq> {m, x} \<Longrightarrow> x \<in> set ys \<Longrightarrow> foldl max m ys = x"
proof -
  have top: "set ys \<subseteq> {m, x} \<Longrightarrow> m \<le> x \<Longrightarrow> foldl max x ys = x" for m x and ys :: "u256 list"
    by (induction ys) (auto simp: max_def)
  show "m \<le> x \<Longrightarrow> set ys \<subseteq> {m, x} \<Longrightarrow> x \<in> set ys \<Longrightarrow> foldl max m ys = x"
    by (induction ys) (auto simp: top [of _ m x] top [of _ m m] max_def)
qed

lemma uniform_model_price:
  assumes "\<forall>i < v_gas_len v. g_window (v_gas v i) < 2 ^ 32"
  shows "v_base_fee (multi_model t (multi_from_single v (v_gas_len v))) = v_base_fee (single_model t v)"
proof -
  let ?w = "multi_from_single v (v_gas_len v)" and ?gs = "map (\<lambda>i. drain_gas t (v_gas v i)) [0..<v_gas_len v]"
  have len: "v_multi_len ?w = v_gas_len v" "v_min_fee ?w = v_min_fee v"
    by (simp_all add: multi_from_single_def multi_cleared_def)
  let ?w' = "?w\<lparr>v_multi := \<lambda>i. if i < v_multi_len ?w then drain_multi t (v_multi ?w i) else v_multi ?w i\<rparr>"
  have multis: "map (v_multi ?w') [0..<v_multi_len ?w'] = map uniform_cst ?gs"
    by (simp add: len) (simp add: multi_from_single_def drain_uniform)
  have small: "\<forall>g \<in> set ?gs. g_window g < 2 ^ 32" using assms by (auto simp: drain_gas_def)
  have kinds: "kind_exponent ?w' kd = (if kd = SingleDim then 0 else i64_floor_u64 (foldl add_exponent 0 ?gs))" for kd
    unfolding kind_exponent_def multis fold_uniform [OF small] by (simp add: i64_floor_u64_def)
  have "gas_exponent (v\<lparr>v_gas := \<lambda>i. if i < v_gas_len v then drain_gas t (v_gas v i) else v_gas v i\<rparr>) =
      i64_floor_u64 (foldl add_exponent 0 ?gs)"
    unfolding gas_exponent_def by (intro arg_cong [of _ _ "\<lambda>gs. i64_floor_u64 (foldl add_exponent 0 gs)"]) simp
  then have single: "v_base_fee (single_model t v) = price (v_min_fee v) (i64_floor_u64 (foldl add_exponent 0 ?gs))"
    by (simp add: single_model_def Let_def)
  have "v_base_fee (multi_model t ?w) = foldl max (v_min_fee v) (map (\<lambda>kd. price (v_min_fee v) (kind_exponent ?w' kd)) all_kinds)"
    by (simp add: multi_model_def Let_def len)
  also have "\<dots> = price (v_min_fee v) (i64_floor_u64 (foldl add_exponent 0 ?gs))"
    by (rule foldl_max_same) (auto simp: kinds price_floor price_zero kind_list(5) intro!: image_eqI [of _ _ Computation])
  finally show ?thesis using single by simp
qed

text \<open>
  C38: from ArbOS 60 on, turning gas constraints, one at least, into constraints on all resources alike keeps the price. Provided the adjustment
  windows fit the 32 bits they are stored in, the base fee of the next block under the new constraints is the
  one under the old constraints, for any time that passes.
\<close>

theorem multi_upgrade_keeps_base_fee:
  assumes "l2_holds E H F k N v st" and "0 < v_gas_len v" and "\<forall>i < v_gas_len v. g_window (v_gas v i) < 2 ^ 32" and "60 \<le> ver"
  shows "\<exists>st1 st2 st3 f.
    update_pricing_model_single_constraints (state_backend E H) H (l2_open H k ver) t st = (Ok (), st1) \<and>
    base_fee_wei (state_backend E H) (l2_open H k ver) st1 = (Ok f, st1) \<and>
    set_multi_gas_constraints_from_single_gas_constraints (state_backend E H) H (l2_open H k ver) st = (Ok (), st2) \<and>
    update_pricing_model (state_backend E H) H (l2_open H k ver) t av st2 = (Ok (), st3) \<and>
    base_fee_wei (state_backend E H) (l2_open H k ver) st3 = (Ok f, st3)"
proof -
  let ?w = "multi_from_single v (v_gas_len v)"
  obtain st1 where r1: "update_pricing_model_single_constraints (state_backend E H) H (l2_open H k ver) t st = (Ok (), st1)"
    and h1: "l2_holds E H F k N (single_model t v) st1"
    using l2.single_run [OF assms(1), of ver t] by blast
  obtain st2 where r2: "set_multi_gas_constraints_from_single_gas_constraints (state_backend E H) H (l2_open H k ver) st = (Ok (), st2)"
    and h2: "l2_holds E H F k N ?w st2"
    using l2.from_single_run [OF assms(1), of ver] by blast
  obtain st3 where r3: "update_pricing_model (state_backend E H) H (l2_open H k ver) t av st2 = (Ok (), st3)"
    and h3: "l2_holds E H F k N (next_prices ver t ?w) st3"
    using l2.update_pricing_model_run [OF h2, of ver t av] by blast
  have "active_model ver ?w = MultiGasConstraints"
    using assms(2,4) by (simp add: active_model_def multi_from_single_def)
  then have "v_base_fee (next_prices ver t ?w) = v_base_fee (single_model t v)"
    by (simp add: next_prices_def uniform_model_price [OF assms(3)])
  then show ?thesis
    using r1 r2 r3 l2.l2_reads(1) [OF h1, of ver] l2.l2_reads(1) [OF h3, of ver] by auto
qed

lemma multi_upgrade_keeps_base_fee_witness:
  "\<exists>st1 st2 st3 f.
    update_pricing_model_single_constraints (state_backend sample_revm sample_keccak) sample_keccak (l2_open sample_keccak 7 60) 3
      (sample_state sample_l2_cells) = (Ok (), st1) \<and>
    base_fee_wei (state_backend sample_revm sample_keccak) (l2_open sample_keccak 7 60) st1 = (Ok f, st1) \<and>
    set_multi_gas_constraints_from_single_gas_constraints (state_backend sample_revm sample_keccak) sample_keccak
      (l2_open sample_keccak 7 60) (sample_state sample_l2_cells) = (Ok (), st2) \<and>
    update_pricing_model (state_backend sample_revm sample_keccak) sample_keccak (l2_open sample_keccak 7 60) 3 60 st2 = (Ok (), st3) \<and>
    base_fee_wei (state_backend sample_revm sample_keccak) (l2_open sample_keccak 7 60) st3 = (Ok f, st3)"
  by (rule multi_upgrade_keeps_base_fee [OF sample_l2_holds]) (simp_all add: sample_l2_def sample_gas_def)

section \<open>Fees of the resources\<close>

text \<open>
  The price of a refund computed from the fees cached at the start of a block is the price computed from
  the fees in storage, for any usage, and neither changes the state.
\<close>

theorem refund_price_from_cache:
  assumes "l2_holds E H F k N v st"
  shows "\<exists>fees total. get_current_multi_gas_fees (state_backend E H) H (l2_open H k ver) st = (Ok fees, st) \<and>
    multi_dimensional_price_for_refund (state_backend E H) H (l2_open H k ver) g st = (Ok total, st) \<and>
    multi_dimensional_price_for_refund_with_fees (state_backend E H) (l2_open H k ver) g fees st = (Ok total, st)"
  using l2.fees_per_resource_run(2) [OF assms, of ver] l2.price_for_refund_run [OF assms, of ver g] by simp

lemma refund_price_from_cache_witness:
  "\<exists>fees total. get_current_multi_gas_fees (state_backend sample_revm sample_keccak) sample_keccak (l2_open sample_keccak 7 60)
      (sample_state sample_l2_cells) = (Ok fees, sample_state sample_l2_cells) \<and>
    multi_dimensional_price_for_refund (state_backend sample_revm sample_keccak) sample_keccak (l2_open sample_keccak 7 60)
      (computation_gas 21000) (sample_state sample_l2_cells) = (Ok total, sample_state sample_l2_cells) \<and>
    multi_dimensional_price_for_refund_with_fees (state_backend sample_revm sample_keccak) (l2_open sample_keccak 7 60)
      (computation_gas 21000) fees (sample_state sample_l2_cells) = (Ok total, sample_state sample_l2_cells)"
  by (rule refund_price_from_cache [OF sample_l2_holds])

text \<open>
  C39: the fees of the resources computed for the next block become the fees charged when they are committed:
  in the model of constraints on several resources with a nonzero minimum base fee,
  after an update of the prices and a commit, every resource except the single dimension is charged the price its
  own exponent gives, and the single dimension the base fee.
\<close>

theorem committed_fees_are_charged:
  assumes "l2_holds E H F k N v st" and "active_model ver v = MultiGasConstraints" and "v_min_fee v \<noteq> 0"
  shows "\<exists>st1 st2. update_pricing_model (state_backend E H) H (l2_open H k ver) t av st = (Ok (), st1) \<and>
    commit_multi_gas_fees (state_backend E H) H (l2_open H k ver) st1 = (Ok (), st2) \<and>
    get_multi_gas_base_fee_per_resource (state_backend E H) H (l2_open H k ver) st2 =
      (Ok (map (\<lambda>kd. if kd = SingleDim then v_base_fee (multi_model t v)
         else price (v_min_fee v) (kind_exponent (drained_multi t v (v_multi_len v)) kd)) all_kinds), st2)"
proof -
  let ?v = "next_prices ver t v"
  obtain st1 where r1: "update_pricing_model (state_backend E H) H (l2_open H k ver) t av st = (Ok (), st1)"
    and h1: "l2_holds E H F k N ?v st1"
    using l2.update_pricing_model_run [OF assms(1), of ver t av] by blast
  have v: "?v = multi_model t v" using assms(2) by (simp add: next_prices_def)
  have m: "active_model ver ?v = MultiGasConstraints"
    using assms(2) unfolding v by (auto simp: active_model_def multi_model_def Let_def split: if_splits)
  obtain st2 where r2: "commit_multi_gas_fees (state_backend E H) H (l2_open H k ver) st1 = (Ok (), st2)"
    and h2: "l2_holds E H F k N (with_current (v_next ?v) ?v) st2"
    using l2.commit_fees_run [OF h1, of ver] m by auto
  have nz: "price (v_min_fee v) e \<noteq> 0" for e
    using price_floor [of "v_min_fee v" e] assms(3) by (auto simp: word_le_nat_alt unat_eq_0)
  have "fee_of (with_current (v_next ?v) ?v) = (\<lambda>kd. if kd = SingleDim then v_base_fee (multi_model t v)
         else price (v_min_fee v) (kind_exponent (drained_multi t v (v_multi_len v)) kd))"
    unfolding v by (auto simp: fun_eq_iff fee_of_def with_current_def multi_model_def drained_multi_def Let_def nz)
  then show ?thesis
    using r1 r2 l2.fees_per_resource_run(1) [OF h2, of ver] by auto
qed

lemma committed_fees_are_charged_witness:
  "\<exists>st1 st2 fees. update_pricing_model (state_backend sample_revm sample_keccak) sample_keccak (l2_open sample_keccak 7 60) 3 60
      (sample_state sample_l2_cells) = (Ok (), st1) \<and>
    commit_multi_gas_fees (state_backend sample_revm sample_keccak) sample_keccak (l2_open sample_keccak 7 60) st1 = (Ok (), st2) \<and>
    get_multi_gas_base_fee_per_resource (state_backend sample_revm sample_keccak) sample_keccak (l2_open sample_keccak 7 60) st2 =
      (Ok fees, st2)"
  using committed_fees_are_charged [OF sample_l2_holds, of 60 3 60]
  by (simp add: active_model_def sample_l2_def) blast

end
