(* ===== verification/L1_Pricing.thy ===== *)
theory L1_Pricing
  imports Address_Set Util
begin

text \<open>
  L1 pricing, \<open>crates/arbos/src/l1_pricing\<close>: the stored parameters and the reaction to a report of what a
  batch poster spent (\<open>mod.rs\<close>), and the table of batch posters with what is owed to each
  (\<open>batch_poster.rs\<close>). The compressor, \<open>libbrotlienc\<close>, is the parameter \<open>Z\<close>: from the data, the
  quality and the window size it gives the compressed size, or nothing when it fails. The transfer of funds
  is a callback, as in the code.
\<close>

datatype l1_pricing_error = L1_Storage storage_error | L1_AddressSet address_set_error | BatchPosterNotFound
  | BatchPosterAlreadyExists | ParentGasFloorUnsupportedVersion | InvalidUpdateTime

abbreviation BATCH_POSTER_ADDRESS :: address where
  "BATCH_POSTER_ADDRESS \<equiv> 0xa4b000000000000000000073657175656e636572"

definition L1_PRICER_FUNDS_POOL_ADDRESS :: address where
  "L1_PRICER_FUNDS_POOL_ADDRESS = 0xa4b00000000000000000000000000000000000f6"

section \<open>Batch posters\<close>

record batch_poster_state =
  bps_funds_due :: backed
  bps_pay_to :: backed

record batch_posters_table =
  poster_addrs :: address_set
  poster_info :: storage_handle
  bpt_total_funds_due :: backed

definition initialize_batch_posters_table ::
  "'s backend \<Rightarrow> keccak \<Rightarrow> storage_handle \<Rightarrow> address \<Rightarrow> ('s, unit, l1_pricing_error) comp" where
  "initialize_batch_posters_table B H sto initial_poster =
     (let bpt_storage = open_sub_storage H sto [0];
          poster_addrs_storage = open_sub_storage H bpt_storage [0];
          info = open_sub_storage H bpt_storage [1];
          addrs = open_address_set H poster_addrs_storage;
          bp_storage = open_sub_storage H info (be_bytes 20 initial_poster) in
      bnd (map_err L1_AddressSet (add B H addrs initial_poster)) (\<lambda>_.
      bnd (map_err L1_Storage (addr_set B (backed_new H (base_key bp_storage) 1) initial_poster)) (\<lambda>_.
      bnd (map_err L1_Storage (bigint_set B (backed_new H (base_key bp_storage) 0) 0)) (\<lambda>_.
      map_err L1_Storage (bigint_set B (backed_new H (base_key bpt_storage) 0) 0)))))"

definition open_batch_posters_table :: "keccak \<Rightarrow> storage_handle \<Rightarrow> batch_posters_table" where
  "open_batch_posters_table H sto =
     (let bpt_storage = open_sub_storage H sto [0];
          poster_addrs_storage = open_sub_storage H bpt_storage [0];
          info = open_sub_storage H bpt_storage [1] in
      \<lparr>poster_addrs = open_address_set H poster_addrs_storage, poster_info = info,
       bpt_total_funds_due = backed_new H (base_key bpt_storage) 0\<rparr>)"

definition total_funds_due :: "'s backend \<Rightarrow> batch_posters_table \<Rightarrow> ('s, u256, l1_pricing_error) comp" where
  "total_funds_due B t = map_err L1_Storage (bigint_get_raw B (bpt_total_funds_due t))"

definition poster_internal_open :: "keccak \<Rightarrow> batch_posters_table \<Rightarrow> address \<Rightarrow> batch_poster_state" where
  "poster_internal_open H t poster =
     (let bp_storage = open_sub_storage H (poster_info t) (be_bytes 20 poster) in
      \<lparr>bps_funds_due = backed_new H (base_key bp_storage) 0, bps_pay_to = backed_new H (base_key bp_storage) 1\<rparr>)"

definition contains_poster ::
  "'s backend \<Rightarrow> keccak \<Rightarrow> batch_posters_table \<Rightarrow> address \<Rightarrow> ('s, bool, l1_pricing_error) comp" where
  "contains_poster B H t poster = map_err L1_AddressSet (is_member B H (poster_addrs t) poster)"

definition add_poster ::
  "'s backend \<Rightarrow> keccak \<Rightarrow> batch_posters_table \<Rightarrow> address \<Rightarrow> address \<Rightarrow> ('s, batch_poster_state, l1_pricing_error) comp" where
  "add_poster B H t poster_address pay_to =
     bnd (map_err L1_AddressSet (is_member B H (poster_addrs t) poster_address)) (\<lambda>is_poster.
     if is_poster then throw BatchPosterAlreadyExists else
     let bp_state = poster_internal_open H t poster_address in
     bnd (map_err L1_Storage (bigint_set B (bps_funds_due bp_state) 0)) (\<lambda>_.
     bnd (map_err L1_Storage (addr_set B (bps_pay_to bp_state) pay_to)) (\<lambda>_.
     bnd (map_err L1_AddressSet (add B H (poster_addrs t) poster_address)) (\<lambda>_.
     ret bp_state))))"

definition open_poster ::
  "'s backend \<Rightarrow> keccak \<Rightarrow> batch_posters_table \<Rightarrow> address \<Rightarrow> bool \<Rightarrow> ('s, batch_poster_state, l1_pricing_error) comp" where
  "open_poster B H t poster create_if_not_exist =
     bnd (map_err L1_AddressSet (is_member B H (poster_addrs t) poster)) (\<lambda>is_poster.
     if \<not> is_poster then
       if \<not> create_if_not_exist then throw BatchPosterNotFound
       else add_poster B H t poster poster
     else ret (poster_internal_open H t poster))"

definition all_posters :: "'s backend \<Rightarrow> keccak \<Rightarrow> batch_posters_table \<Rightarrow> ('s, address list, l1_pricing_error) comp" where
  "all_posters B H t = map_err L1_AddressSet (all_members B H (poster_addrs t) (- 1))"

definition poster_funds_due :: "'s backend \<Rightarrow> batch_poster_state \<Rightarrow> ('s, u256, l1_pricing_error) comp" where
  "poster_funds_due B p = map_err L1_Storage (bigint_get_raw B (bps_funds_due p))"

definition set_funds_due ::
  "'s backend \<Rightarrow> batch_poster_state \<Rightarrow> u256 \<Rightarrow> backed \<Rightarrow> ('s, unit, l1_pricing_error) comp" where
  "set_funds_due B p value total_due =
     bnd (map_err L1_Storage (bigint_get_raw B (bps_funds_due p))) (\<lambda>prev.
     bnd (map_err L1_Storage (bigint_get_raw B total_due)) (\<lambda>prev_total.
     let new_total = sat_sub (sat_add prev_total value) prev in
     bnd (map_err L1_Storage (bigint_set B total_due new_total)) (\<lambda>_.
     map_err L1_Storage (bigint_set B (bps_funds_due p) value))))"

definition poster_pay_to :: "'s backend \<Rightarrow> batch_poster_state \<Rightarrow> ('s, address, l1_pricing_error) comp" where
  "poster_pay_to B p = map_err L1_Storage (addr_get B (bps_pay_to p))"

definition set_pay_to :: "'s backend \<Rightarrow> batch_poster_state \<Rightarrow> address \<Rightarrow> ('s, unit, l1_pricing_error) comp" where
  "set_pay_to B p a = map_err L1_Storage (addr_set B (bps_pay_to p) a)"

definition get_funds_due_list ::
  "'s backend \<Rightarrow> keccak \<Rightarrow> batch_posters_table \<Rightarrow> ('s, (address \<times> u256) list, l1_pricing_error) comp" where
  "get_funds_due_list B H t =
     bnd (all_posters B H t) (\<lambda>posters.
     fold_each posters (\<lambda>poster result.
       bnd (poster_funds_due B (poster_internal_open H t poster)) (\<lambda>due.
       ret (if 0 < due then result @ [(poster, due)] else result))) [])"

section \<open>The pricing state\<close>

record l1_pricing =
  l1_backing :: storage_handle
  lp_pay_rewards_to :: backed
  lp_equilibration_units :: backed
  lp_inertia :: backed
  lp_per_unit_reward :: backed
  lp_last_update_time :: backed
  lp_funds_due_for_rewards :: backed
  lp_units_since_update :: backed
  lp_price_per_unit :: backed
  lp_last_surplus :: backed
  lp_per_batch_gas_cost :: backed
  lp_amortized_cost_cap_bips :: backed
  lp_l1_fees_available :: backed
  lp_gas_floor_per_token :: backed
  l1_arbos_version :: u64

definition initialize_l1_pricing_state ::
  "'s backend \<Rightarrow> keccak \<Rightarrow> storage_handle \<Rightarrow> address \<Rightarrow> u256 \<Rightarrow> ('s, unit, l1_pricing_error) comp" where
  "initialize_l1_pricing_state B H sto rewards_recipient initial_l1_base_fee =
     (let bk = base_key sto in
      bnd (map_err L1_Storage (addr_set B (backed_new H bk 0) rewards_recipient)) (\<lambda>_.
      bnd (map_err L1_Storage (biguint_set B (backed_new H bk 1) 96000000)) (\<lambda>_.
      bnd (map_err L1_Storage (uint64_set B (backed_new H bk 2) 10)) (\<lambda>_.
      bnd (map_err L1_Storage (uint64_set B (backed_new H bk 3) 10)) (\<lambda>_.
      bnd (map_err L1_Storage (uint64_set B (backed_new H bk 4) 0)) (\<lambda>_.
      bnd (map_err L1_Storage (bigint_set B (backed_new H bk 5) 0)) (\<lambda>_.
      bnd (map_err L1_Storage (uint64_set B (backed_new H bk 6) 0)) (\<lambda>_.
      bnd (map_err L1_Storage (biguint_set B (backed_new H bk 7) initial_l1_base_fee)) (\<lambda>_.
      initialize_batch_posters_table B H sto BATCH_POSTER_ADDRESS)))))))))"

definition open_l1_pricing_state :: "keccak \<Rightarrow> storage_handle \<Rightarrow> u64 \<Rightarrow> l1_pricing" where
  "open_l1_pricing_state H sto arbos_version =
     (let bk = base_key sto in
      \<lparr>l1_backing = sto,
       lp_pay_rewards_to = backed_new H bk 0,
       lp_equilibration_units = backed_new H bk 1,
       lp_inertia = backed_new H bk 2,
       lp_per_unit_reward = backed_new H bk 3,
       lp_last_update_time = backed_new H bk 4,
       lp_funds_due_for_rewards = backed_new H bk 5,
       lp_units_since_update = backed_new H bk 6,
       lp_price_per_unit = backed_new H bk 7,
       lp_last_surplus = backed_new H bk 8,
       lp_per_batch_gas_cost = backed_new H bk 9,
       lp_amortized_cost_cap_bips = backed_new H bk 10,
       lp_l1_fees_available = backed_new H bk 11,
       lp_gas_floor_per_token = backed_new H bk 12,
       l1_arbos_version = arbos_version\<rparr>)"

definition batch_poster_table :: "keccak \<Rightarrow> l1_pricing \<Rightarrow> batch_posters_table" where
  "batch_poster_table H p = open_batch_posters_table H (l1_backing p)"

definition pay_rewards_to :: "'s backend \<Rightarrow> l1_pricing \<Rightarrow> ('s, address, l1_pricing_error) comp" where
  "pay_rewards_to B p = map_err L1_Storage (addr_get B (lp_pay_rewards_to p))"

definition set_pay_rewards_to :: "'s backend \<Rightarrow> l1_pricing \<Rightarrow> address \<Rightarrow> ('s, unit, l1_pricing_error) comp" where
  "set_pay_rewards_to B p val = map_err L1_Storage (addr_set B (lp_pay_rewards_to p) val)"

definition equilibration_units :: "'s backend \<Rightarrow> l1_pricing \<Rightarrow> ('s, u256, l1_pricing_error) comp" where
  "equilibration_units B p = map_err L1_Storage (biguint_get B (lp_equilibration_units p))"

definition set_equilibration_units :: "'s backend \<Rightarrow> l1_pricing \<Rightarrow> u256 \<Rightarrow> ('s, unit, l1_pricing_error) comp" where
  "set_equilibration_units B p val = map_err L1_Storage (biguint_set B (lp_equilibration_units p) val)"

definition l1_inertia :: "'s backend \<Rightarrow> l1_pricing \<Rightarrow> ('s, u64, l1_pricing_error) comp" where
  "l1_inertia B p = map_err L1_Storage (uint64_get B (lp_inertia p))"

definition set_inertia :: "'s backend \<Rightarrow> l1_pricing \<Rightarrow> u64 \<Rightarrow> ('s, unit, l1_pricing_error) comp" where
  "set_inertia B p val = map_err L1_Storage (uint64_set B (lp_inertia p) val)"

definition per_unit_reward :: "'s backend \<Rightarrow> l1_pricing \<Rightarrow> ('s, u64, l1_pricing_error) comp" where
  "per_unit_reward B p = map_err L1_Storage (uint64_get B (lp_per_unit_reward p))"

definition set_per_unit_reward :: "'s backend \<Rightarrow> l1_pricing \<Rightarrow> u64 \<Rightarrow> ('s, unit, l1_pricing_error) comp" where
  "set_per_unit_reward B p val = map_err L1_Storage (uint64_set B (lp_per_unit_reward p) val)"

definition last_update_time :: "'s backend \<Rightarrow> l1_pricing \<Rightarrow> ('s, u64, l1_pricing_error) comp" where
  "last_update_time B p = map_err L1_Storage (uint64_get B (lp_last_update_time p))"

definition set_last_update_time :: "'s backend \<Rightarrow> l1_pricing \<Rightarrow> u64 \<Rightarrow> ('s, unit, l1_pricing_error) comp" where
  "set_last_update_time B p val = map_err L1_Storage (uint64_set B (lp_last_update_time p) val)"

definition funds_due_for_rewards :: "'s backend \<Rightarrow> l1_pricing \<Rightarrow> ('s, u256, l1_pricing_error) comp" where
  "funds_due_for_rewards B p = map_err L1_Storage (bigint_get_raw B (lp_funds_due_for_rewards p))"

definition set_funds_due_for_rewards :: "'s backend \<Rightarrow> l1_pricing \<Rightarrow> u256 \<Rightarrow> ('s, unit, l1_pricing_error) comp" where
  "set_funds_due_for_rewards B p val = map_err L1_Storage (bigint_set B (lp_funds_due_for_rewards p) val)"

definition units_since_update :: "'s backend \<Rightarrow> l1_pricing \<Rightarrow> ('s, u64, l1_pricing_error) comp" where
  "units_since_update B p = map_err L1_Storage (uint64_get B (lp_units_since_update p))"

definition set_units_since_update :: "'s backend \<Rightarrow> l1_pricing \<Rightarrow> u64 \<Rightarrow> ('s, unit, l1_pricing_error) comp" where
  "set_units_since_update B p val = map_err L1_Storage (uint64_set B (lp_units_since_update p) val)"

definition price_per_unit :: "'s backend \<Rightarrow> l1_pricing \<Rightarrow> ('s, u256, l1_pricing_error) comp" where
  "price_per_unit B p = map_err L1_Storage (biguint_get B (lp_price_per_unit p))"

definition set_price_per_unit :: "'s backend \<Rightarrow> l1_pricing \<Rightarrow> u256 \<Rightarrow> ('s, unit, l1_pricing_error) comp" where
  "set_price_per_unit B p val = map_err L1_Storage (biguint_set B (lp_price_per_unit p) val)"

definition per_batch_gas_cost :: "'s backend \<Rightarrow> l1_pricing \<Rightarrow> ('s, u64, l1_pricing_error) comp" where
  "per_batch_gas_cost B p = map_err L1_Storage (int64_get B (lp_per_batch_gas_cost p))"

definition set_per_batch_gas_cost :: "'s backend \<Rightarrow> l1_pricing \<Rightarrow> u64 \<Rightarrow> ('s, unit, l1_pricing_error) comp" where
  "set_per_batch_gas_cost B p val = map_err L1_Storage (int64_set B (lp_per_batch_gas_cost p) val)"

definition amortized_cost_cap_bips :: "'s backend \<Rightarrow> l1_pricing \<Rightarrow> ('s, u64, l1_pricing_error) comp" where
  "amortized_cost_cap_bips B p = map_err L1_Storage (uint64_get B (lp_amortized_cost_cap_bips p))"

definition set_amortized_cost_cap_bips :: "'s backend \<Rightarrow> l1_pricing \<Rightarrow> u64 \<Rightarrow> ('s, unit, l1_pricing_error) comp" where
  "set_amortized_cost_cap_bips B p val = map_err L1_Storage (uint64_set B (lp_amortized_cost_cap_bips p) val)"

definition l1_fees_available :: "'s backend \<Rightarrow> l1_pricing \<Rightarrow> ('s, u256, l1_pricing_error) comp" where
  "l1_fees_available B p = map_err L1_Storage (biguint_get B (lp_l1_fees_available p))"

definition set_l1_fees_available :: "'s backend \<Rightarrow> l1_pricing \<Rightarrow> u256 \<Rightarrow> ('s, unit, l1_pricing_error) comp" where
  "set_l1_fees_available B p val = map_err L1_Storage (biguint_set B (lp_l1_fees_available p) val)"

definition add_to_units_since_update :: "'s backend \<Rightarrow> l1_pricing \<Rightarrow> u64 \<Rightarrow> ('s, unit, l1_pricing_error) comp" where
  "add_to_units_since_update B p units =
     bnd (units_since_update B p) (\<lambda>current. set_units_since_update B p (sat_add current units))"

definition subtract_from_units_since_update :: "'s backend \<Rightarrow> l1_pricing \<Rightarrow> u64 \<Rightarrow> ('s, unit, l1_pricing_error) comp" where
  "subtract_from_units_since_update B p units =
     bnd (units_since_update B p) (\<lambda>current. set_units_since_update B p (sat_sub current units))"

definition last_surplus :: "'s backend \<Rightarrow> l1_pricing \<Rightarrow> ('s, u256 \<times> bool, l1_pricing_error) comp" where
  "last_surplus B p = map_err L1_Storage (bigint_get_signed B (lp_last_surplus p))"

definition set_last_surplus :: "'s backend \<Rightarrow> l1_pricing \<Rightarrow> u256 \<Rightarrow> bool \<Rightarrow> ('s, unit, l1_pricing_error) comp" where
  "set_last_surplus B p magnitude negative =
     (if l1_arbos_version p < 7 then ret ()
      else if negative then map_err L1_Storage (bigint_set_negative B (lp_last_surplus p) magnitude)
      else map_err L1_Storage (bigint_set B (lp_last_surplus p) magnitude))"

definition add_to_l1_fees_available :: "'s backend \<Rightarrow> l1_pricing \<Rightarrow> u256 \<Rightarrow> ('s, unit, l1_pricing_error) comp" where
  "add_to_l1_fees_available B p amount =
     bnd (l1_fees_available B p) (\<lambda>current. set_l1_fees_available B p (sat_add current amount))"

definition transfer_from_l1_fees_available :: "'s backend \<Rightarrow> l1_pricing \<Rightarrow> u256 \<Rightarrow> ('s, u256, l1_pricing_error) comp" where
  "transfer_from_l1_fees_available B p amount =
     bnd (l1_fees_available B p) (\<lambda>available.
     let transfer = min amount available in
     bnd (set_l1_fees_available B p (sat_sub available transfer)) (\<lambda>_.
     ret transfer))"

definition parent_gas_floor_per_token :: "'s backend \<Rightarrow> l1_pricing \<Rightarrow> ('s, u64, l1_pricing_error) comp" where
  "parent_gas_floor_per_token B p =
     (if l1_arbos_version p < 50 then ret 0 else map_err L1_Storage (uint64_get B (lp_gas_floor_per_token p)))"

definition set_parent_gas_floor_per_token :: "'s backend \<Rightarrow> l1_pricing \<Rightarrow> u64 \<Rightarrow> ('s, unit, l1_pricing_error) comp" where
  "set_parent_gas_floor_per_token B p val =
     (if l1_arbos_version p < 50 then throw ParentGasFloorUnsupportedVersion
      else map_err L1_Storage (uint64_set B (lp_gas_floor_per_token p) val))"

section \<open>Costs of a transaction\<close>

definition get_l1_pricing_surplus :: "'s backend \<Rightarrow> keccak \<Rightarrow> l1_pricing \<Rightarrow> ('s, u256 \<times> bool, l1_pricing_error) comp" where
  "get_l1_pricing_surplus B H p =
     bnd (l1_fees_available B p) (\<lambda>fees.
     bnd (total_funds_due B (batch_poster_table H p)) (\<lambda>total_due.
     bnd (funds_due_for_rewards B p) (\<lambda>rewards.
     let need = sat_add total_due rewards in
     if need \<le> fees then ret (sat_sub fees need, False) else ret (sat_sub need fees, True))))"

text \<open>An \<open>i64\<close> is its 64-bit pattern; \<open>-batch_cost as u64\<close> is the negated pattern.\<close>

definition poster_data_cost :: "'s backend \<Rightarrow> l1_pricing \<Rightarrow> u64 \<Rightarrow> ('s, u256, l1_pricing_error) comp" where
  "poster_data_cost B p calldata_units =
     bnd (price_per_unit B p) (\<lambda>price.
     bnd (per_batch_gas_cost B p) (\<lambda>batch_cost.
     let calldata_cost = sat_mul price (ucast calldata_units) in
     if 0 \<le> sint batch_cost then ret (sat_add calldata_cost (ucast batch_cost))
     else ret (sat_sub calldata_cost (ucast (- batch_cost)))))"

definition byte_count_after_brotli_level :: "(bytes \<Rightarrow> nat \<Rightarrow> nat \<Rightarrow> nat option) \<Rightarrow> bytes \<Rightarrow> u64 \<Rightarrow> u64" where
  "byte_count_after_brotli_level Z data level =
     (case Z data (min (unat level) 11) 22 of Some n \<Rightarrow> of_nat n | None \<Rightarrow> of_nat (length data))"

definition poster_units_from_bytes :: "(bytes \<Rightarrow> nat \<Rightarrow> nat \<Rightarrow> nat option) \<Rightarrow> bytes \<Rightarrow> u64 \<Rightarrow> u64" where
  "poster_units_from_bytes Z tx_bytes level = sat_mul 16 (byte_count_after_brotli_level Z tx_bytes level)"

definition compute_poster_cost_standalone ::
  "(bytes \<Rightarrow> nat \<Rightarrow> nat \<Rightarrow> nat option) \<Rightarrow> bytes \<Rightarrow> address \<Rightarrow> u256 \<Rightarrow> u64 \<Rightarrow> u256 \<times> u64" where
  "compute_poster_cost_standalone Z tx_bytes poster price level =
     (if poster \<noteq> BATCH_POSTER_ADDRESS then (0, 0)
      else let units = poster_units_from_bytes Z tx_bytes level in (sat_mul price (ucast units), units))"

definition get_poster_units_without_cache :: "(bytes \<Rightarrow> nat \<Rightarrow> nat \<Rightarrow> nat option) \<Rightarrow> bytes \<Rightarrow> u64 \<Rightarrow> u64" where
  "get_poster_units_without_cache Z tx_bytes level = sat_mul 16 (byte_count_after_brotli_level Z tx_bytes level)"

definition compute_poster_cost :: "'s backend \<Rightarrow> (bytes \<Rightarrow> nat \<Rightarrow> nat \<Rightarrow> nat option) \<Rightarrow> l1_pricing \<Rightarrow> address \<Rightarrow> bytes \<Rightarrow> u64
    \<Rightarrow> ('s, u256 \<times> u64, l1_pricing_error) comp" where
  "compute_poster_cost B Z p poster tx_bytes level =
     (if poster \<noteq> BATCH_POSTER_ADDRESS then ret (0, 0)
      else
        let units = get_poster_units_without_cache Z tx_bytes level in
        bnd (price_per_unit B p) (\<lambda>price. ret (sat_mul price (ucast units), units)))"

definition poster_data_cost_for_estimation :: "'s backend \<Rightarrow> (bytes \<Rightarrow> nat \<Rightarrow> nat \<Rightarrow> nat option) \<Rightarrow> l1_pricing \<Rightarrow> bytes \<Rightarrow> u64
    \<Rightarrow> ('s, u256 \<times> u64, l1_pricing_error) comp" where
  "poster_data_cost_for_estimation B Z p tx_bytes level =
     (let raw_units = get_poster_units_without_cache Z tx_bytes level;
          padded = sat_mul (sat_add raw_units 256) (10000 + 100) div 10000 in
      bnd (price_per_unit B p) (\<lambda>price. ret (sat_mul price (ucast padded), padded)))"

definition get_poster_info :: "'s backend \<Rightarrow> keccak \<Rightarrow> l1_pricing \<Rightarrow> address \<Rightarrow> ('s, u256 \<times> address, l1_pricing_error) comp" where
  "get_poster_info B H p poster =
     bnd (open_poster B H (batch_poster_table H p) poster False) (\<lambda>ps.
     bnd (poster_funds_due B ps) (\<lambda>due.
     bnd (poster_pay_to B ps) (\<lambda>pay_to.
     ret (due, pay_to))))"

section \<open>Signed magnitudes\<close>

definition signed_div :: "u256 \<Rightarrow> bool \<Rightarrow> u256 \<Rightarrow> u256 \<times> bool" where
  "signed_div mag positive divisor =
     (if divisor = 0 then (0, True)
      else if positive then (mag div divisor, True)
      else
        let quotient = mag div divisor; remainder = mag mod divisor in
        if remainder = 0 then (if quotient = 0 then (0, True) else (quotient, False))
        else (quotient + 1, False))"

definition signed_add :: "u256 \<Rightarrow> bool \<Rightarrow> u256 \<Rightarrow> bool \<Rightarrow> u256 \<times> bool" where
  "signed_add a_mag a_pos b_mag b_pos =
     (if a_pos = b_pos then (sat_add a_mag b_mag, a_pos)
      else if b_mag \<le> a_mag then (sat_sub a_mag b_mag, a_pos)
      else (sat_sub b_mag a_mag, b_pos))"

definition signed_sub :: "u256 \<Rightarrow> bool \<Rightarrow> u256 \<Rightarrow> bool \<Rightarrow> u256 \<times> bool" where
  "signed_sub a_mag a_pos b_mag b_pos = signed_add a_mag a_pos b_mag (\<not> b_pos)"

section \<open>A spending report\<close>

text \<open>The price from the surplus before and after: the body of \<open>if units_allocated > 0\<close>.\<close>

definition new_price_of :: "u256 \<Rightarrow> u256 \<Rightarrow> bool \<Rightarrow> u256 \<Rightarrow> bool \<Rightarrow> u64 \<Rightarrow> u256 \<Rightarrow> u64 \<Rightarrow> u256" where
  "new_price_of price surplus_mag surplus_positive old_surplus_mag old_surplus_neg inertia equil_units units_allocated =
     (let inertia_units = (case checked_div equil_units (ucast inertia) of Some q \<Rightarrow> q | None \<Rightarrow> 0);
          alloc_plus_inert = sat_add inertia_units (ucast units_allocated);
          units_u256 = ucast units_allocated;
          (desired_mag, desired_pos) = signed_div surplus_mag (\<not> surplus_positive) equil_units;
          (diff_mag, diff_pos) = signed_sub surplus_mag surplus_positive old_surplus_mag (\<not> old_surplus_neg);
          (actual_mag, actual_pos) = signed_div diff_mag diff_pos units_u256;
          (change_mag, change_pos) = signed_sub desired_mag desired_pos actual_mag actual_pos;
          change_times_units = sat_mul change_mag units_u256;
          (price_change, price_change_pos) = signed_div change_times_units change_pos alloc_plus_inert in
      if price_change_pos then sat_add price price_change else sat_sub price price_change)"

definition reprice :: "'s backend \<Rightarrow> keccak \<Rightarrow> l1_pricing \<Rightarrow> u256 \<Rightarrow> u64 \<Rightarrow> ('s, unit, l1_pricing_error) comp" where
  "reprice B H p l1_fees units_allocated =
     bnd (total_funds_due B (batch_poster_table H p)) (\<lambda>total_due.
     bnd (funds_due_for_rewards B p) (\<lambda>fdr.
     let need_funds = sat_add total_due fdr;
         surplus_mag = (if need_funds \<le> l1_fees then sat_sub l1_fees need_funds else sat_sub need_funds l1_fees);
         surplus_positive = (need_funds \<le> l1_fees) in
     bnd (l1_inertia B p) (\<lambda>inertia.
     bnd (equilibration_units B p) (\<lambda>equil_units.
     bnd (price_per_unit B p) (\<lambda>price.
     bnd (last_surplus B p) (\<lambda>(old_surplus_mag, old_surplus_neg).
     let new_price = new_price_of price surplus_mag surplus_positive old_surplus_mag old_surplus_neg inertia equil_units
           units_allocated in
     bnd (set_last_surplus B p surplus_mag (\<not> surplus_positive)) (\<lambda>_.
     set_price_per_unit B p new_price)))))))"

text \<open>Which part of the units is settled: the time from the last update to the report over the time to now.\<close>

definition allocation :: "u64 \<Rightarrow> u64 \<Rightarrow> u64 \<Rightarrow> u64 \<Rightarrow> u64" where
  "allocation update_time current_time last_time units_since =
     (let alloc_num = sat_sub update_time last_time;
          alloc_denom = sat_sub current_time last_time;
          (num, denom) = (if alloc_denom = 0 then (1, 1) else (alloc_num, alloc_denom)) in
      case checked_div (sat_mul units_since num) denom of Some q \<Rightarrow> q | None \<Rightarrow> 0)"

text \<open>Paying the rewards and the poster from the fees that are there.\<close>

definition pay_rewards :: "'s backend \<Rightarrow> l1_pricing \<Rightarrow> (address \<Rightarrow> address \<Rightarrow> u256 \<Rightarrow> ('s, unit, balance_error) comp)
    \<Rightarrow> u256 \<Rightarrow> u256 \<Rightarrow> u256 \<Rightarrow> ('s, u256, l1_pricing_error) comp" where
  "pay_rewards B p transfer_fn rewards_due l1_fees reward_amount =
     bnd (set_funds_due_for_rewards B p (sat_add rewards_due reward_amount)) (\<lambda>_.
     let payment_for_rewards = (if l1_fees < reward_amount then l1_fees else reward_amount) in
     bnd (funds_due_for_rewards B p) (\<lambda>fdr.
     bnd (set_funds_due_for_rewards B p (sat_sub fdr payment_for_rewards)) (\<lambda>_.
     bnd (pay_rewards_to B p) (\<lambda>recipient.
     if 0 < payment_for_rewards then
       bnd (ignore (transfer_fn L1_PRICER_FUNDS_POOL_ADDRESS recipient payment_for_rewards)) (\<lambda>_.
       bnd (set_l1_fees_available B p (sat_sub l1_fees payment_for_rewards)) (\<lambda>_.
       ret (sat_sub l1_fees payment_for_rewards)))
     else ret l1_fees))))"

definition pay_poster :: "'s backend \<Rightarrow> keccak \<Rightarrow> l1_pricing \<Rightarrow> (address \<Rightarrow> address \<Rightarrow> u256 \<Rightarrow> ('s, unit, balance_error) comp)
    \<Rightarrow> batch_poster_state \<Rightarrow> u256 \<Rightarrow> ('s, u256, l1_pricing_error) comp" where
  "pay_poster B H p transfer_fn poster_state l1_fees =
     bnd (poster_funds_due B poster_state) (\<lambda>balance_due.
     let transfer_amount = (if l1_fees < balance_due then l1_fees else balance_due) in
     if 0 < transfer_amount then
       bnd (poster_pay_to B poster_state) (\<lambda>addr_to_pay.
       bnd (ignore (transfer_fn L1_PRICER_FUNDS_POOL_ADDRESS addr_to_pay transfer_amount)) (\<lambda>_.
       bnd (set_l1_fees_available B p (sat_sub l1_fees transfer_amount)) (\<lambda>_.
       bnd (ignore (set_funds_due B poster_state (sat_sub balance_due transfer_amount)
              (bpt_total_funds_due (batch_poster_table H p)))) (\<lambda>_.
       ret (sat_sub l1_fees transfer_amount)))))
     else ret l1_fees)"

definition capped_spending :: "u256 \<Rightarrow> u256 \<Rightarrow> u64 \<Rightarrow> u64 \<Rightarrow> u256" where
  "capped_spending wei_spent l1_basefee units_allocated cap_bips =
     (if cap_bips \<noteq> 0 then
        let cap = (case checked_div (sat_mul (sat_mul l1_basefee (ucast units_allocated)) (ucast cap_bips)) 10000 of
                     Some q \<Rightarrow> q | None \<Rightarrow> - 1) in
        if cap < wei_spent then cap else wei_spent
      else wei_spent)"

definition update_for_batch_poster_spending :: "'s backend \<Rightarrow> keccak \<Rightarrow> l1_pricing \<Rightarrow> u64 \<Rightarrow> u64 \<Rightarrow> address \<Rightarrow> u256 \<Rightarrow> u256
    \<Rightarrow> (address \<Rightarrow> address \<Rightarrow> u256 \<Rightarrow> ('s, unit, balance_error) comp) \<Rightarrow> ('s, unit, l1_pricing_error) comp" where
  "update_for_batch_poster_spending B H p update_time current_time batch_poster wei_spent l1_basefee transfer_fn =
     (if l1_arbos_version p < 10 then ret () else
      let bpt = batch_poster_table H p in
      bnd (open_poster B H bpt batch_poster True) (\<lambda>poster_state.
      bnd (funds_due_for_rewards B p) (\<lambda>rewards_due.
      bnd (l1_fees_available B p) (\<lambda>fees_available.
      bnd (last_update_time B p) (\<lambda>last_time.
      let last_time = (if last_time = 0 \<and> 0 < update_time then sat_sub update_time 1 else last_time) in
      if current_time < update_time \<or> update_time < last_time then throw InvalidUpdateTime else
      bnd (units_since_update B p) (\<lambda>units_since.
      let units_allocated = allocation update_time current_time last_time units_since in
      bnd (set_units_since_update B p (sat_sub units_since units_allocated)) (\<lambda>_.
      bnd (if 3 \<le> l1_arbos_version p then amortized_cost_cap_bips B p else ret 0) (\<lambda>cap_bips.
      let wei_spent = capped_spending wei_spent l1_basefee units_allocated cap_bips in
      bnd (poster_funds_due B poster_state) (\<lambda>due.
      bnd (ignore (set_funds_due B poster_state (sat_add due wei_spent) (bpt_total_funds_due bpt))) (\<lambda>_.
      bnd (per_unit_reward B p) (\<lambda>reward.
      bnd (pay_rewards B p transfer_fn rewards_due fees_available (sat_mul (ucast units_allocated) (ucast reward))) (\<lambda>l1_fees.
      bnd (pay_poster B H p transfer_fn poster_state l1_fees) (\<lambda>l1_fees.
      bnd (set_last_update_time B p update_time) (\<lambda>_.
      if 0 < units_allocated then reprice B H p l1_fees units_allocated else ret ()))))))))))))))"

end
