(* ===== verification/L1_Recording.thy ===== *)
theory L1_Recording
  imports L1_Pricing
begin

text \<open>
  Running L1 pricing with a transfer callback that also records its calls. The callback of the source is a closure and
  may keep state of its own: here a list next to the state. Every operation of L1 pricing that gets no
  callback leaves that list alone; this is what the lemmas \<open>lifts\<close> say, one for each operation of a spending report.
\<close>

named_theorems lifts \<open>operations on a state with a record next to it\<close>

type_synonym transfers = "(address \<times> address \<times> u256) list"

definition with_log :: "'s backend \<Rightarrow> ('s \<times> transfers) backend" where
  "with_log B = \<lparr>sload_system = (\<lambda>a i. on_state (sload_system B a i)), sload = (\<lambda>a i. on_state (sload B a i)),
     sstore = (\<lambda>a i v. on_state (sstore B a i v))\<rparr>"

definition recorded :: "(address \<Rightarrow> address \<Rightarrow> u256 \<Rightarrow> ('s, unit, 'e) comp)
    \<Rightarrow> address \<Rightarrow> address \<Rightarrow> u256 \<Rightarrow> ('s \<times> transfers, unit, 'e) comp" where
  "recorded t a b x sl = (case t a b x (fst sl) of (r, s') \<Rightarrow> (r, s', snd sl @ [(a, b, x)]))"

text \<open>A payment out of the pool; nothing is transferred for a payment of zero.\<close>

definition pool_payment :: "address \<Rightarrow> u256 \<Rightarrow> transfers" where
  "pool_payment b x = (if x = 0 then [] else [(L1_PRICER_FUNDS_POOL_ADDRESS, b, x)])"

section \<open>The state monad\<close>

lemma on_state_bnd [lifts]: "on_state (bnd m f) = bnd (on_state m) (\<lambda>x. on_state (f x))"
  by (rule ext) (auto simp: on_state_def bnd_def split: prod.split result.split)

lemma on_state_ret [lifts]: "on_state (ret x) = ret x"
  by (rule ext) (simp add: on_state_def ret_def)

lemma on_state_throw [lifts]: "on_state (throw e) = throw e"
  by (rule ext) (simp add: on_state_def throw_def)

lemma on_state_map_err [lifts]: "on_state (map_err f m) = map_err f (on_state m)"
  by (rule ext) (auto simp: on_state_def map_err_def split: prod.split result.split)

lemma on_state_ignore [lifts]: "on_state (ignore m) = ignore (on_state m)"
  by (rule ext) (auto simp: on_state_def ignore_def split: prod.split result.split)

lemma on_state_if [lifts]: "on_state (if c then m else m') = (if c then on_state m else on_state m')"
  by simp

lemma on_state_pair:
  "on_state m (s, l) = (fst (m s), snd (m s), l)"
  "ignore (on_state m) (s, l) = (case ignore m s of (r, s') \<Rightarrow> (r, s', l))"
  by (simp_all add: on_state_def ignore_def split: prod.split result.split)

lemma recorded_run: "ignore (t a b x) s = (r, s') \<Longrightarrow> ignore (recorded t a b x) (s, l) = (r, s', l @ [(a, b, x)])"
  by (auto simp: ignore_def recorded_def split: prod.splits result.splits)

lemma with_log_access [lifts]:
  "sload_system (with_log B) a i = on_state (sload_system B a i)"
  "sload (with_log B) a i = on_state (sload B a i)"
  "sstore (with_log B) a i v = on_state (sstore B a i v)"
  by (simp_all add: with_log_def)

section \<open>Accessors\<close>

lemma lift_decode_address [lifts]: "on_state (decode_address b w) = decode_address b w"
  by (simp add: decode_address_def lifts)

lemma lift_backed [lifts]:
  "uint64_get (with_log B) b = on_state (uint64_get B b)" "uint64_set (with_log B) b x = on_state (uint64_set B b x)"
  "biguint_get (with_log B) b = on_state (biguint_get B b)" "biguint_set (with_log B) b y = on_state (biguint_set B b y)"
  "bigint_get_raw (with_log B) b = on_state (bigint_get_raw B b)" "bigint_set (with_log B) b y = on_state (bigint_set B b y)"
  "addr_get (with_log B) b = on_state (addr_get B b)" "addr_set (with_log B) b a = on_state (addr_set B b a)"
  by (simp_all add: uint64_get_def uint64_set_def biguint_get_def biguint_set_def bigint_get_raw_def bigint_set_def
      addr_get_def addr_set_def lifts)

lemma lift_signed [lifts]:
  "bigint_get_signed (with_log B) b = on_state (bigint_get_signed B b)"
  "bigint_set_negative (with_log B) b y = on_state (bigint_set_negative B b y)"
  by (simp_all add: bigint_get_signed_def bigint_set_negative_def lifts)

lemma lift_pricing [lifts]:
  "pay_rewards_to (with_log B) p = on_state (pay_rewards_to B p)"
  "equilibration_units (with_log B) p = on_state (equilibration_units B p)"
  "l1_inertia (with_log B) p = on_state (l1_inertia B p)"
  "per_unit_reward (with_log B) p = on_state (per_unit_reward B p)"
  "last_update_time (with_log B) p = on_state (last_update_time B p)"
  "set_last_update_time (with_log B) p n = on_state (set_last_update_time B p n)"
  "funds_due_for_rewards (with_log B) p = on_state (funds_due_for_rewards B p)"
  "set_funds_due_for_rewards (with_log B) p x = on_state (set_funds_due_for_rewards B p x)"
  "units_since_update (with_log B) p = on_state (units_since_update B p)"
  "set_units_since_update (with_log B) p n = on_state (set_units_since_update B p n)"
  "price_per_unit (with_log B) p = on_state (price_per_unit B p)"
  "set_price_per_unit (with_log B) p x = on_state (set_price_per_unit B p x)"
  "amortized_cost_cap_bips (with_log B) p = on_state (amortized_cost_cap_bips B p)"
  "l1_fees_available (with_log B) p = on_state (l1_fees_available B p)"
  "set_l1_fees_available (with_log B) p x = on_state (set_l1_fees_available B p x)"
  "last_surplus (with_log B) p = on_state (last_surplus B p)"
  "set_last_surplus (with_log B) p x neg = on_state (set_last_surplus B p x neg)"
  by (simp_all add: pay_rewards_to_def equilibration_units_def l1_inertia_def per_unit_reward_def last_update_time_def
      set_last_update_time_def funds_due_for_rewards_def set_funds_due_for_rewards_def units_since_update_def
      set_units_since_update_def price_per_unit_def set_price_per_unit_def amortized_cost_cap_bips_def
      l1_fees_available_def set_l1_fees_available_def last_surplus_def set_last_surplus_def lifts)

section \<open>Batch posters and the price\<close>

lemma lift_set [lifts]:
  "is_member (with_log B) H s a = on_state (is_member B H s a)" "add (with_log B) H s a = on_state (add B H s a)"
  by (simp_all add: is_member_def add_def by_address_get_def by_address_set_def lifts cong: if_cong)

lemma lift_posters [lifts]:
  "total_funds_due (with_log B) t = on_state (total_funds_due B t)"
  "poster_funds_due (with_log B) b = on_state (poster_funds_due B b)"
  "poster_pay_to (with_log B) b = on_state (poster_pay_to B b)"
  "set_funds_due (with_log B) b x d = on_state (set_funds_due B b x d)"
  "open_poster (with_log B) H t a c = on_state (open_poster B H t a c)"
  by (simp_all add: total_funds_due_def poster_funds_due_def poster_pay_to_def set_funds_due_def open_poster_def
      add_poster_def Let_def lifts cong: if_cong)

lemma lift_reprice [lifts]: "reprice (with_log B) H p f n = on_state (reprice B H p f n)"
  by (simp add: reprice_def Let_def case_prod_unfold lifts cong: if_cong)

end
