(* ===== verification/L1_Store.thy ===== *)
theory L1_Store
  imports L1_Recording
begin

text \<open>
  What the storage of the L1 pricing state means: \<open>l1_at\<close> relates the cells to a \<open>l1_view\<close>, the parameters
  together with the posters, what each is owed and where it is paid. A spending report runs as the function
  \<open>report\<close> on views.
\<close>

section \<open>The view of the pricing state\<close>

record l1_view =
  w_recipient :: address
  w_equil :: u256
  w_inertia :: u64
  w_reward :: u64
  w_last :: u64
  w_fdr :: u256
  w_units :: u64
  w_price :: u256
  w_surplus :: u256
  w_batch_cost :: u64
  w_cap :: u64
  w_fees :: u256
  w_floor :: u64
  w_total :: u256
  w_posters :: "address list"
  w_due :: "address \<Rightarrow> u256"
  w_pay :: "address \<Rightarrow> address"

datatype l1_key = L1_Root | L1_Table | L1_Info address

primrec l1_key_of :: "keccak \<Rightarrow> u256 \<Rightarrow> l1_key \<Rightarrow> u256" where
  "l1_key_of H k L1_Root = k"
| "l1_key_of H k L1_Table = derive_sub_key H k [0]"
| "l1_key_of H k (L1_Info a) = derive_sub_key H (derive_sub_key H (derive_sub_key H k [0]) [1]) (be_bytes 20 a)"

declare l1_key_of.simps [simp del]

definition l1_addrs :: "keccak \<Rightarrow> u256 \<Rightarrow> u256" where
  "l1_addrs H k = derive_sub_key H (derive_sub_key H k [0]) [0]"

definition l1_keys :: "address set \<Rightarrow> l1_key set" where
  "l1_keys U = {L1_Root, L1_Table} \<union> L1_Info ` U"

lemma l1_keys_simps [simp]: "L1_Root \<in> l1_keys U" "L1_Table \<in> l1_keys U" "L1_Info a \<in> l1_keys U \<longleftrightarrow> a \<in> U"
  by (auto simp: l1_keys_def)

text \<open>The keys of the parameters and posters are apart from each other and from the two of the set of
  posters.\<close>

definition l1_keys_ok :: "keccak \<Rightarrow> u256 \<Rightarrow> address set \<Rightarrow> bool" where
  "l1_keys_ok H k U \<longleftrightarrow> inj_on (l1_key_of H k) (l1_keys U) \<and>
     l1_addrs H k \<notin> l1_key_of H k ` l1_keys U \<and> derive_sub_key H (l1_addrs H k) [0] \<notin> l1_key_of H k ` l1_keys U"

definition l1_cells :: "keccak \<Rightarrow> u256 \<Rightarrow> address set \<Rightarrow> cell_id set" where
  "l1_cells H k U = (\<Union>x \<in> l1_keys U. range (at (l1_key_of H k x))) \<union> aset_cells H (l1_addrs H k) U"

definition l1_at :: "keccak \<Rightarrow> (cell_id \<Rightarrow> u256) \<Rightarrow> u256 \<Rightarrow> address set \<Rightarrow> l1_view \<Rightarrow> bool" where
  "l1_at H c k U v \<longleftrightarrow>
     (let r = l1_key_of H k L1_Root in
       c (at r 0) = ucast (w_recipient v) \<and> c (at r 1) = w_equil v \<and> c (at r 2) = ucast (w_inertia v) \<and>
       c (at r 3) = ucast (w_reward v) \<and> c (at r 4) = ucast (w_last v) \<and> c (at r 5) = w_fdr v \<and>
       c (at r 6) = ucast (w_units v) \<and> c (at r 7) = w_price v \<and> c (at r 8) = w_surplus v \<and>
       c (at r 9) = ucast (w_batch_cost v) \<and> c (at r 10) = ucast (w_cap v) \<and> c (at r 11) = w_fees v \<and>
       c (at r 12) = ucast (w_floor v)) \<and>
     c (at (l1_key_of H k L1_Table) 0) = w_total v \<and>
     aset_at H c (l1_addrs H k) U (w_posters v) \<and>
     (\<forall>a \<in> U. c (at (l1_key_of H k (L1_Info a)) 0) = w_due v a \<and> c (at (l1_key_of H k (L1_Info a)) 1) = ucast (w_pay v a))"

abbreviation l1_open :: "keccak \<Rightarrow> u256 \<Rightarrow> u64 \<Rightarrow> l1_pricing" where
  "l1_open H k ver \<equiv> open_l1_pricing_state H (storage_new k) ver"

abbreviation l1_table :: "keccak \<Rightarrow> u256 \<Rightarrow> batch_posters_table" where
  "l1_table H k \<equiv> open_batch_posters_table H (storage_new k)"

lemma open_sub_storage_new: "open_sub_storage H (storage_new k) b = storage_new (derive_sub_key H k b)"
  by (simp add: open_sub_storage_def storage_new_def)

lemma base_key_new [simp]: "base_key (storage_new k) = k"
  by (simp add: storage_new_def)

lemma l1_open_fields:
  "lp_pay_rewards_to (l1_open H k ver) = backed_new H (l1_key_of H k L1_Root) 0"
  "lp_equilibration_units (l1_open H k ver) = backed_new H (l1_key_of H k L1_Root) 1"
  "lp_inertia (l1_open H k ver) = backed_new H (l1_key_of H k L1_Root) 2"
  "lp_per_unit_reward (l1_open H k ver) = backed_new H (l1_key_of H k L1_Root) 3"
  "lp_last_update_time (l1_open H k ver) = backed_new H (l1_key_of H k L1_Root) 4"
  "lp_funds_due_for_rewards (l1_open H k ver) = backed_new H (l1_key_of H k L1_Root) 5"
  "lp_units_since_update (l1_open H k ver) = backed_new H (l1_key_of H k L1_Root) 6"
  "lp_price_per_unit (l1_open H k ver) = backed_new H (l1_key_of H k L1_Root) 7"
  "lp_last_surplus (l1_open H k ver) = backed_new H (l1_key_of H k L1_Root) 8"
  "lp_per_batch_gas_cost (l1_open H k ver) = backed_new H (l1_key_of H k L1_Root) 9"
  "lp_amortized_cost_cap_bips (l1_open H k ver) = backed_new H (l1_key_of H k L1_Root) 10"
  "lp_l1_fees_available (l1_open H k ver) = backed_new H (l1_key_of H k L1_Root) 11"
  "lp_gas_floor_per_token (l1_open H k ver) = backed_new H (l1_key_of H k L1_Root) 12"
  "l1_arbos_version (l1_open H k ver) = ver"
  "batch_poster_table H (l1_open H k ver) = l1_table H k"
  by (simp_all add: open_l1_pricing_state_def Let_def l1_key_of.simps batch_poster_table_def)

lemma l1_table_fields:
  "poster_addrs (l1_table H k) = aset H (l1_addrs H k)"
  "bpt_total_funds_due (l1_table H k) = backed_new H (l1_key_of H k L1_Table) 0"
  "bps_funds_due (poster_internal_open H (l1_table H k) a) = backed_new H (l1_key_of H k (L1_Info a)) 0"
  "bps_pay_to (poster_internal_open H (l1_table H k) a) = backed_new H (l1_key_of H k (L1_Info a)) 1"
  by (simp_all add: open_batch_posters_table_def poster_internal_open_def Let_def open_sub_storage_new l1_addrs_def l1_key_of.simps)

section \<open>A report on views\<close>

definition opened :: "address \<Rightarrow> l1_view \<Rightarrow> l1_view" where
  "opened a v = (if a \<in> set (w_posters v) then v
     else v\<lparr>w_posters := w_posters v @ [a], w_due := (w_due v)(a := 0), w_pay := (w_pay v)(a := a)\<rparr>)"

definition owe :: "address \<Rightarrow> u256 \<Rightarrow> l1_view \<Rightarrow> l1_view" where
  "owe a x v = v\<lparr>w_total := sat_sub (sat_add (w_total v) x) (w_due v a), w_due := (w_due v)(a := x)\<rparr>"

definition rewarded :: "u256 \<Rightarrow> l1_view \<Rightarrow> l1_view" where
  "rewarded r v = (let pay = min r (w_fees v) in
     v\<lparr>w_fdr := sat_sub (sat_add (w_fdr v) r) pay, w_fees := sat_sub (w_fees v) pay\<rparr>)"

definition paid :: "address \<Rightarrow> l1_view \<Rightarrow> l1_view" where
  "paid a v = (let x = min (w_due v a) (w_fees v) in
     if x = 0 then v else owe a (sat_sub (w_due v a) x) (v\<lparr>w_fees := sat_sub (w_fees v) x\<rparr>))"

definition repriced :: "u64 \<Rightarrow> l1_view \<Rightarrow> l1_view" where
  "repriced al v =
     (let need = sat_add (w_total v) (w_fdr v); pos = (need \<le> w_fees v);
          mag = (if pos then sat_sub (w_fees v) need else sat_sub need (w_fees v)) in
      v\<lparr>w_surplus := (if pos then mag else - mag),
        w_price := new_price_of (w_price v) mag pos (fst (to_signed (w_surplus v))) (snd (to_signed (w_surplus v)))
          (w_inertia v) (w_equil v) al\<rparr>)"

definition last_of :: "u64 \<Rightarrow> l1_view \<Rightarrow> u64" where
  "last_of ut v = (if w_last v = 0 \<and> 0 < ut then sat_sub ut 1 else w_last v)"

definition settled :: "u64 \<Rightarrow> u64 \<Rightarrow> l1_view \<Rightarrow> u64" where
  "settled ut ct v = allocation ut ct (last_of ut v) (w_units v)"

definition report :: "u64 \<Rightarrow> u64 \<Rightarrow> address \<Rightarrow> u256 \<Rightarrow> u256 \<Rightarrow> l1_view \<Rightarrow> l1_view" where
  "report ut ct a wei basefee v =
     (let al = settled ut ct v;
          v1 = v\<lparr>w_units := sat_sub (w_units v) al\<rparr>;
          v2 = owe a (sat_add (w_due v a) (capped_spending wei basefee al (w_cap v))) v1;
          v3 = rewarded (sat_mul (ucast al) (ucast (w_reward v))) v2;
          v4 = (paid a v3)\<lparr>w_last := ut\<rparr> in
      if 0 < al then repriced al v4 else v4)"

text \<open>What a report pays: the reward, and what the poster is then owed as far as the fees that are left go.\<close>

definition reward_paid :: "u64 \<Rightarrow> u64 \<Rightarrow> l1_view \<Rightarrow> u256" where
  "reward_paid ut ct v = min (sat_mul (ucast (settled ut ct v)) (ucast (w_reward v))) (w_fees v)"

definition spending_accepted :: "u64 \<Rightarrow> u64 \<Rightarrow> u256 \<Rightarrow> u256 \<Rightarrow> l1_view \<Rightarrow> u256" where
  "spending_accepted ut ct wei basefee v = capped_spending wei basefee (settled ut ct v) (w_cap v)"

definition poster_paid :: "u64 \<Rightarrow> u64 \<Rightarrow> address \<Rightarrow> u256 \<Rightarrow> u256 \<Rightarrow> l1_view \<Rightarrow> u256" where
  "poster_paid ut ct a wei basefee v =
     min (sat_add (w_due v a) (spending_accepted ut ct wei basefee v)) (sat_sub (w_fees v) (reward_paid ut ct v))"

definition report_payments :: "u64 \<Rightarrow> u64 \<Rightarrow> address \<Rightarrow> u256 \<Rightarrow> u256 \<Rightarrow> l1_view \<Rightarrow> transfers" where
  "report_payments ut ct a wei basefee v =
     pool_payment (w_recipient v) (reward_paid ut ct v) @ pool_payment (w_pay v a) (poster_paid ut ct a wei basefee v)"

text \<open>The transfer callback may fail but never panics, and moves balances only: it keeps the stored state.\<close>

definition balances_only ::
  "('s \<Rightarrow> bool) \<Rightarrow> cell_id set \<Rightarrow> ('s \<Rightarrow> cell_id \<Rightarrow> u256) \<Rightarrow> (address \<Rightarrow> address \<Rightarrow> u256 \<Rightarrow> ('s, unit, balance_error) comp) \<Rightarrow> bool" where
  "balances_only ok F cell t \<longleftrightarrow> (\<forall>a b x s. ok s \<longrightarrow>
     (fst (t a b x s) = Ok () \<or> (\<exists>e. fst (t a b x s) = Err e)) \<and> ok (snd (t a b x s)) \<and>
     (\<forall>l \<in> F. cell (snd (t a b x s)) l = cell s l))"

section \<open>Operations on the stored state\<close>

locale l1_store = arb_store B H F ok cell poke
  for B :: "'s backend" and H F ok cell poke +
  fixes k :: u256 and U :: "address set" and ver :: u64
  assumes ok_keys: "ok s \<Longrightarrow> l1_keys_ok H k U" and l1_footprint: "l1_cells H k U \<subseteq> F"
begin

abbreviation K :: "l1_key \<Rightarrow> u256" where
  "K \<equiv> l1_key_of H k"

abbreviation p :: l1_pricing where
  "p \<equiv> l1_open H k ver"

abbreviation ls :: "'s \<Rightarrow> l1_view \<Rightarrow> bool" where
  "ls s v \<equiv> ok s \<and> l1_at H (cell s) k U v"

abbreviation goes :: "'s \<Rightarrow> 's \<Rightarrow> l1_view \<Rightarrow> bool" where
  "goes s s' v \<equiv> ls s' v \<and> (\<forall>l \<in> F - l1_cells H k U. cell s' l = cell s l)"

lemma goes_trans: "goes s s' v \<Longrightarrow> goes s' s'' w \<Longrightarrow> goes s s'' w"
  by auto

lemma K_in_cells: "x \<in> l1_keys U \<Longrightarrow> at (K x) off \<in> l1_cells H k U"
  by (auto simp: l1_cells_def)

lemma K_in_F: "x \<in> l1_keys U \<Longrightarrow> at (K x) off \<in> F"
  using K_in_cells l1_footprint by blast

lemma aset_in_F: "aset_cells H (l1_addrs H k) U \<subseteq> F"
  using l1_footprint by (auto simp: l1_cells_def)

lemma K_not_aset:
  assumes "ok s" and "x \<in> l1_keys U"
  shows "at (K x) off \<notin> aset_cells H (l1_addrs H k) U"
  using ok_keys [OF assms(1)] imageI [OF assms(2), of K] by (auto simp: l1_keys_ok_def aset_cells_def member_cell_def at_def)

lemma cell_K:
  assumes "ok s" and "x \<in> l1_keys U" and "y \<in> l1_keys U"
  shows "cell (poke s (at (K x) off) w) (at (K y) off') = (if y = x \<and> off' = off then w else cell s (at (K y) off'))"
proof -
  have "K y = K x \<longleftrightarrow> y = x"
    using ok_keys [OF assms(1)] assms(2,3) by (auto simp: l1_keys_ok_def inj_on_def)
  then show ?thesis
    using cell_poke [OF assms(1) K_in_F [OF assms(2)] K_in_F [OF assms(3)]] by simp
qed

lemma poke_elsewhere:
  assumes "ok s" and "x \<in> l1_keys U"
  shows "\<forall>l \<in> F - l1_cells H k U. cell (poke s (at (K x) off) w) l = cell s l"
  using cell_poke_other [OF assms(1) l1_footprint K_in_cells [OF assms(2)]] by blast

lemma aset_kept:
  assumes "aset_at H (cell s) (l1_addrs H k) U xs" and "\<And>l. l \<in> aset_cells H (l1_addrs H k) U \<Longrightarrow> cell s' l = cell s l"
  shows "aset_at H (cell s') (l1_addrs H k) U xs"
proof -
  have "cell s' (at (l1_addrs H k) off) = cell s (at (l1_addrs H k) off)" for off
    using assms(2) by (auto simp: aset_cells_def)
  moreover have "a \<in> U \<Longrightarrow> cell s' (member_cell H (l1_addrs H k) a) = cell s (member_cell H (l1_addrs H k) a)" for a
    using assms(2) by (auto simp: aset_cells_def)
  ultimately show ?thesis
    using assms(1) unfolding aset_at_def by (auto simp del: of_nat_Suc dest: nth_mem)
qed

lemma poke_aset:
  assumes "ok s" and "x \<in> l1_keys U" and "aset_at H (cell s) (l1_addrs H k) U xs"
  shows "aset_at H (cell (poke s (at (K x) off) w)) (l1_addrs H k) U xs"
proof (rule aset_kept [OF assms(3)])
  fix l
  assume l: "l \<in> aset_cells H (l1_addrs H k) U"
  then have "l \<noteq> at (K x) off" using K_not_aset [OF assms(1,2)] by auto
  then show "cell (poke s (at (K x) off) w) l = cell s l"
    using cell_poke [OF assms(1) K_in_F [OF assms(2)] subsetD [OF aset_in_F l]] by simp
qed

lemma root_pokes:
  assumes "ls s v"
  shows "goes s (poke s (at (K L1_Root) 0) (ucast a)) (v\<lparr>w_recipient := a\<rparr>)"
    and "goes s (poke s (at (K L1_Root) 1) f) (v\<lparr>w_equil := f\<rparr>)"
    and "goes s (poke s (at (K L1_Root) 2) (ucast x)) (v\<lparr>w_inertia := x\<rparr>)"
    and "goes s (poke s (at (K L1_Root) 3) (ucast x)) (v\<lparr>w_reward := x\<rparr>)"
    and "goes s (poke s (at (K L1_Root) 4) (ucast x)) (v\<lparr>w_last := x\<rparr>)"
    and "goes s (poke s (at (K L1_Root) 5) f) (v\<lparr>w_fdr := f\<rparr>)"
    and "goes s (poke s (at (K L1_Root) 6) (ucast x)) (v\<lparr>w_units := x\<rparr>)"
    and "goes s (poke s (at (K L1_Root) 7) f) (v\<lparr>w_price := f\<rparr>)"
    and "goes s (poke s (at (K L1_Root) 8) f) (v\<lparr>w_surplus := f\<rparr>)"
    and "goes s (poke s (at (K L1_Root) 11) f) (v\<lparr>w_fees := f\<rparr>)"
    and "goes s (poke s (at (K L1_Table) 0) f) (v\<lparr>w_total := f\<rparr>)"
  using assms poke_aset [of s L1_Root] poke_aset [of s L1_Table]
  by (simp_all add: ok_poke poke_elsewhere l1_at_def Let_def cell_K)

lemma info_pokes:
  assumes "ls s v" and "a \<in> U"
  shows "goes s (poke s (at (K (L1_Info a)) 0) f) (v\<lparr>w_due := (w_due v)(a := f)\<rparr>)"
    and "goes s (poke s (at (K (L1_Info a)) 1) (ucast b)) (v\<lparr>w_pay := (w_pay v)(a := b)\<rparr>)"
  using assms poke_aset [of s "L1_Info a"]
  by (simp_all add: ok_poke poke_elsewhere l1_at_def Let_def cell_K)

lemma l1_reads:
  assumes "ls s v"
  shows "pay_rewards_to B p s = (Ok (w_recipient v), s)"
    and "equilibration_units B p s = (Ok (w_equil v), s)"
    and "l1_inertia B p s = (Ok (w_inertia v), s)"
    and "per_unit_reward B p s = (Ok (w_reward v), s)"
    and "last_update_time B p s = (Ok (w_last v), s)"
    and "funds_due_for_rewards B p s = (Ok (w_fdr v), s)"
    and "units_since_update B p s = (Ok (w_units v), s)"
    and "price_per_unit B p s = (Ok (w_price v), s)"
    and "last_surplus B p s = (Ok (to_signed (w_surplus v)), s)"
    and "amortized_cost_cap_bips B p s = (Ok (w_cap v), s)"
    and "l1_fees_available B p s = (Ok (w_fees v), s)"
    and "total_funds_due B (l1_table H k) s = (Ok (w_total v), s)"
  using assms
  by (simp_all add: pay_rewards_to_def equilibration_units_def l1_inertia_def per_unit_reward_def last_update_time_def
      funds_due_for_rewards_def units_since_update_def price_per_unit_def last_surplus_def amortized_cost_cap_bips_def
      l1_fees_available_def total_funds_due_def l1_open_fields l1_table_fields map_err_Ok store_simps l1_at_def Let_def ucast_down_up)

lemma l1_writes:
  assumes "ls s v"
  shows "\<exists>s'. set_last_update_time B p x s = (Ok (), s') \<and> goes s s' (v\<lparr>w_last := x\<rparr>)"
    and "\<exists>s'. set_funds_due_for_rewards B p f s = (Ok (), s') \<and> goes s s' (v\<lparr>w_fdr := f\<rparr>)"
    and "\<exists>s'. set_units_since_update B p x s = (Ok (), s') \<and> goes s s' (v\<lparr>w_units := x\<rparr>)"
    and "\<exists>s'. set_price_per_unit B p f s = (Ok (), s') \<and> goes s s' (v\<lparr>w_price := f\<rparr>)"
    and "\<exists>s'. set_l1_fees_available B p f s = (Ok (), s') \<and> goes s s' (v\<lparr>w_fees := f\<rparr>)"
    and "7 \<le> ver \<Longrightarrow> \<exists>s'. set_last_surplus B p f neg s = (Ok (), s') \<and> goes s s' (v\<lparr>w_surplus := if neg then - f else f\<rparr>)"
proof -
  have ok: "ok s" using assms by blast
  note unfold = l1_open_fields uint64_set_run biguint_set_run bigint_set_run bigint_set_negative_run map_err_Ok
  show "\<exists>s'. set_last_update_time B p x s = (Ok (), s') \<and> goes s s' (v\<lparr>w_last := x\<rparr>)"
    using root_pokes(5) [OF assms] ok by (simp add: set_last_update_time_def unfold)
  show "\<exists>s'. set_funds_due_for_rewards B p f s = (Ok (), s') \<and> goes s s' (v\<lparr>w_fdr := f\<rparr>)"
    using root_pokes(6) [OF assms] ok by (simp add: set_funds_due_for_rewards_def unfold)
  show "\<exists>s'. set_units_since_update B p x s = (Ok (), s') \<and> goes s s' (v\<lparr>w_units := x\<rparr>)"
    using root_pokes(7) [OF assms] ok by (simp add: set_units_since_update_def unfold)
  show "\<exists>s'. set_price_per_unit B p f s = (Ok (), s') \<and> goes s s' (v\<lparr>w_price := f\<rparr>)"
    using root_pokes(8) [OF assms] ok by (simp add: set_price_per_unit_def unfold)
  show "\<exists>s'. set_l1_fees_available B p f s = (Ok (), s') \<and> goes s s' (v\<lparr>w_fees := f\<rparr>)"
    using root_pokes(10) [OF assms] ok by (simp add: set_l1_fees_available_def unfold)
  show "\<exists>s'. set_last_surplus B p f neg s = (Ok (), s') \<and> goes s s' (v\<lparr>w_surplus := if neg then - f else f\<rparr>)" if "7 \<le> ver"
    using root_pokes(9) [OF assms, of f] root_pokes(9) [OF assms, of "- f"] ok leD [OF that]
    by (cases neg) (simp_all add: set_last_surplus_def unfold)
qed

lemma poster_reads:
  assumes "ls s v" and "a \<in> U"
  shows "poster_funds_due B (poster_internal_open H (l1_table H k) a) s = (Ok (w_due v a), s)"
    and "poster_pay_to B (poster_internal_open H (l1_table H k) a) s = (Ok (w_pay v a), s)"
  using assms
  by (simp_all add: poster_funds_due_def poster_pay_to_def l1_table_fields map_err_Ok store_simps l1_at_def ucast_down_up)

lemma set_funds_due_run:
  assumes "ls s v" and "a \<in> U"
  shows "\<exists>s'. set_funds_due B (poster_internal_open H (l1_table H k) a) x (bpt_total_funds_due (l1_table H k)) s = (Ok (), s') \<and>
    goes s s' (owe a x v)"
proof -
  let ?t = "sat_sub (sat_add (w_total v) x) (w_due v a)"
  let ?s1 = "poke s (at (K L1_Table) 0) ?t"
  have g1: "goes s ?s1 (v\<lparr>w_total := ?t\<rparr>)" by (rule root_pokes(11) [OF assms(1)])
  have g2: "goes ?s1 (poke ?s1 (at (K (L1_Info a)) 0) x) ((v\<lparr>w_total := ?t\<rparr>)\<lparr>w_due := (w_due v)(a := x)\<rparr>)"
    using info_pokes(1) [OF conjunct1 [OF g1] assms(2), of x] by simp
  have ok: "ok s" "ok ?s1" using assms(1) g1 by blast+
  have due: "cell s (at (K (L1_Info a)) 0) = w_due v a" and tot: "cell s (at (K L1_Table) 0) = w_total v"
    using assms by (simp_all add: l1_at_def)
  have "set_funds_due B (poster_internal_open H (l1_table H k) a) x (bpt_total_funds_due (l1_table H k)) s =
      (Ok (), poke ?s1 (at (K (L1_Info a)) 0) x)"
    by (simp add: set_funds_due_def bnd_def l1_table_fields map_err_def bigint_get_raw_run ok bigint_set_run due tot Let_def)
  then show ?thesis using goes_trans [OF g1 g2] by (auto simp: owe_def)
qed

lemma ls_cong:
  assumes "ls s v" and "ok s'" and "\<And>l. l \<in> F \<Longrightarrow> cell s' l = cell s l"
  shows "goes s s' v"
proof -
  have "cell s' (at (K x) off) = cell s (at (K x) off)" if "x \<in> l1_keys U" for x off
    using assms(3) [OF K_in_F [OF that]] .
  moreover have "aset_at H (cell s') (l1_addrs H k) U (w_posters v)"
  proof (rule aset_kept)
    show "aset_at H (cell s) (l1_addrs H k) U (w_posters v)" using assms(1) by (simp add: l1_at_def)
    show "l \<in> aset_cells H (l1_addrs H k) U \<Longrightarrow> cell s' l = cell s l" for l
      by (rule assms(3)) (rule subsetD [OF aset_in_F])
  qed
  ultimately show ?thesis using assms by (simp add: l1_at_def Let_def)
qed

lemma add_poster_set:
  assumes "ls s v" and "a \<in> U" and "length (w_posters v) + 2 < 2 ^ 64" and "a \<notin> set (w_posters v)"
  shows "\<exists>s'. add B H (poster_addrs (l1_table H k)) a s = (Ok (), s') \<and> goes s s' (v\<lparr>w_posters := w_posters v @ [a]\<rparr>)"
proof -
  have at: "aset_at H (cell s) (l1_addrs H k) U (w_posters v)" and ok: "ok s" using assms(1) by (auto simp: l1_at_def)
  obtain s' where run: "add B H (aset H (l1_addrs H k)) a s = (Ok (), s')" and ok': "ok s'"
    and at': "aset_at H (cell s') (l1_addrs H k) U (w_posters v @ [a])"
    and fr: "\<And>l. l \<in> F - aset_cells H (l1_addrs H k) U \<Longrightarrow> cell s' l = cell s l"
    using add_run [OF ok at assms(2) aset_in_F assms(3)] assms(4) by auto
  have "cell s' (at (K x) off) = cell s (at (K x) off)" if "x \<in> l1_keys U" for x off
    using fr [of "at (K x) off"] K_in_F [OF that] K_not_aset [OF ok that] by blast
  then have "l1_at H (cell s') k U (v\<lparr>w_posters := w_posters v @ [a]\<rparr>)"
    using assms(1) at' by (simp add: l1_at_def Let_def)
  moreover have "\<forall>l \<in> F - l1_cells H k U. cell s' l = cell s l"
    using fr by (auto simp: l1_cells_def)
  ultimately show ?thesis using run ok' by (auto simp: l1_table_fields)
qed

lemma is_poster_run:
  assumes "ls s v" and "a \<in> U"
  shows "map_err L1_AddressSet (is_member B H (poster_addrs (l1_table H k)) a) s = (Ok (a \<in> set (w_posters v)), s)"
  using is_member_run [of s "l1_addrs H k" U "w_posters v" a] assms by (auto simp: l1_table_fields l1_at_def intro: map_err_Ok)

lemma open_poster_run:
  assumes "ls s v" and "a \<in> U" and "length (w_posters v) + 2 < 2 ^ 64"
  shows "\<exists>s'. open_poster B H (l1_table H k) a True s = (Ok (poster_internal_open H (l1_table H k) a), s') \<and> goes s s' (opened a v)"
proof (cases "a \<in> set (w_posters v)")
  case True
  then show ?thesis
    using assms(1) by (simp add: open_poster_def bnd_def is_poster_run [OF assms(1,2)] ret_run opened_def)
next
  case False
  let ?s1 = "poke s (at (K (L1_Info a)) 0) 0"
  let ?v1 = "v\<lparr>w_due := (w_due v)(a := 0)\<rparr>"
  let ?s2 = "poke ?s1 (at (K (L1_Info a)) 1) (ucast a)"
  let ?v2 = "?v1\<lparr>w_pay := (w_pay v)(a := a)\<rparr>"
  have g1: "goes s ?s1 ?v1" by (rule info_pokes(1) [OF assms(1,2)])
  have g2: "goes ?s1 ?s2 ?v2" using info_pokes(2) [OF conjunct1 [OF g1] assms(2), of a] by simp
  obtain s3 where s3: "add B H (poster_addrs (l1_table H k)) a ?s2 = (Ok (), s3)"
    and g3: "goes ?s2 s3 (?v2\<lparr>w_posters := w_posters v @ [a]\<rparr>)"
    using add_poster_set [OF conjunct1 [OF g2] assms(2)] assms(3) False by auto
  have ok: "ok s" "ok ?s1" using assms(1) g1 by blast+
  note is_poster = is_poster_run [OF assms(1,2)]
  have "add_poster B H (l1_table H k) a a s = (Ok (poster_internal_open H (l1_table H k) a), s3)"
    using s3 False
    by (simp add: add_poster_def bnd_def is_poster [unfolded l1_table_fields] map_err_Ok [of "bigint_set _ _ _"] map_err_Ok [of "addr_set _ _ _"]
        map_err_Ok [of "add _ _ _ _"] l1_table_fields bigint_set_run addr_set_run ok ret_run Let_def)
  then have "open_poster B H (l1_table H k) a True s = (Ok (poster_internal_open H (l1_table H k) a), s3)"
    using False by (simp add: open_poster_def bnd_def is_poster)
  moreover have "?v2\<lparr>w_posters := w_posters v @ [a]\<rparr> = opened a v"
    using False by (simp add: opened_def)
  ultimately show ?thesis using goes_trans [OF goes_trans [OF g1 g2] g3] by metis
qed

lemma transfer_run:
  assumes "ls s v" and "balances_only ok F cell t"
  shows "\<exists>s'. ignore (t a b x) s = (Ok (), s') \<and> goes s s' v"
proof -
  obtain r s' where t: "t a b x s = (r, s')" by fastforce
  have "r = Ok () \<or> (\<exists>e. r = Err e)" and "ok s'" and "\<And>l. l \<in> F \<Longrightarrow> cell s' l = cell s l"
    using assms(1) assms(2) [unfolded balances_only_def, rule_format, of s a b x] by (simp_all add: t)
  then show ?thesis using ls_cong [OF assms(1)] t by (auto simp: ignore_def)
qed

lemma pay_rewards_run:
  assumes "ls s v" and "balances_only ok F cell t"
  shows "\<exists>s'. pay_rewards B p t (w_fdr v) (w_fees v) r s = (Ok (w_fees (rewarded r v)), s') \<and> goes s s' (rewarded r v) \<and>
    (\<forall>l. pay_rewards (with_log B) p (recorded t) (w_fdr v) (w_fees v) r (s, l) =
       (Ok (w_fees (rewarded r v)), s', l @ pool_payment (w_recipient v) (min r (w_fees v))))"
proof -
  let ?pay = "min r (w_fees v)"
  have pay: "(if w_fees v < r then w_fees v else r) = ?pay" by (auto simp: min_def)
  let ?v1 = "v\<lparr>w_fdr := sat_add (w_fdr v) r\<rparr>" and ?v2 = "v\<lparr>w_fdr := sat_sub (sat_add (w_fdr v) r) ?pay\<rparr>"
  obtain s1 where s1: "set_funds_due_for_rewards B p (sat_add (w_fdr v) r) s = (Ok (), s1)" and g1: "goes s s1 ?v1"
    using l1_writes(2) [OF assms(1)] by blast
  obtain s2 where s2: "set_funds_due_for_rewards B p (sat_sub (sat_add (w_fdr v) r) ?pay) s1 = (Ok (), s2)" and g2: "goes s1 s2 ?v2"
    using l1_writes(2) [OF conjunct1 [OF g1]] by fastforce
  have fdr: "funds_due_for_rewards B p s1 = (Ok (sat_add (w_fdr v) r), s1)"
    using l1_reads(6) [OF conjunct1 [OF g1]] by simp
  have rec: "pay_rewards_to B p s2 = (Ok (w_recipient v), s2)"
    using l1_reads(1) [OF conjunct1 [OF g2]] by simp
  show ?thesis
  proof (cases "?pay = 0")
    case True
    have "pay_rewards B p t (w_fdr v) (w_fees v) r s = (Ok (w_fees v), s2)"
      and "pay_rewards (with_log B) p (recorded t) (w_fdr v) (w_fees v) r (s, l) = (Ok (w_fees v), s2, l)" for l
      unfolding pay_rewards_def pay Let_def using True
      by (simp_all add: lifts on_state_pair bnd_def s1 s2 [unfolded True] fdr rec ret_run)
    moreover have "rewarded r v = ?v2"
      using True by (simp add: rewarded_def sat_sub_def Let_def)
    ultimately show ?thesis using goes_trans [OF g1 g2] True by (auto simp: pool_payment_def)
  next
    case False
    obtain s3 where s3: "(ignore (t L1_PRICER_FUNDS_POOL_ADDRESS (w_recipient v) ?pay) :: (_, _, l1_pricing_error) comp) s2 = (Ok (), s3)" and g3: "goes s2 s3 ?v2"
      using transfer_run [OF conjunct1 [OF g2] assms(2)] by blast
    obtain s4 where s4: "set_l1_fees_available B p (sat_sub (w_fees v) ?pay) s3 = (Ok (), s4)"
      and g4: "goes s3 s4 (?v2\<lparr>w_fees := sat_sub (w_fees v) ?pay\<rparr>)"
      using l1_writes(5) [OF conjunct1 [OF g3]] by blast
    have "pay_rewards B p t (w_fdr v) (w_fees v) r s = (Ok (sat_sub (w_fees v) ?pay), s4)"
      and "pay_rewards (with_log B) p (recorded t) (w_fdr v) (w_fees v) r (s, l) =
        (Ok (sat_sub (w_fees v) ?pay), s4, l @ pool_payment (w_recipient v) ?pay)" for l
      unfolding pay_rewards_def pay Let_def using False
      by (simp_all add: lifts on_state_pair bnd_def s1 s2 s3 recorded_run [of t, OF s3] s4 fdr rec ret_run word_neq_0_conv pool_payment_def)
    moreover have "rewarded r v = ?v2\<lparr>w_fees := sat_sub (w_fees v) ?pay\<rparr>"
      by (simp add: rewarded_def Let_def)
    ultimately show ?thesis using goes_trans [OF goes_trans [OF goes_trans [OF g1 g2] g3] g4] by auto
  qed
qed

lemma pay_poster_run:
  assumes "ls s v" and "a \<in> U" and "balances_only ok F cell t"
  shows "\<exists>s'. pay_poster B H p t (poster_internal_open H (l1_table H k) a) (w_fees v) s = (Ok (w_fees (paid a v)), s') \<and> goes s s' (paid a v) \<and>
    (\<forall>l. pay_poster (with_log B) H p (recorded t) (poster_internal_open H (l1_table H k) a) (w_fees v) (s, l) =
       (Ok (w_fees (paid a v)), s', l @ pool_payment (w_pay v a) (min (w_due v a) (w_fees v))))"
proof -
  let ?ps = "poster_internal_open H (l1_table H k) a" and ?x = "min (w_due v a) (w_fees v)"
  have x: "(if w_fees v < w_due v a then w_fees v else w_due v a) = ?x" by (auto simp: min_def)
  note reads = poster_reads [OF assms(1,2)]
  show ?thesis
  proof (cases "?x = 0")
    case True
    then show ?thesis
      using assms(1) unfolding pay_poster_def x Let_def 
      by (simp add: lifts on_state_pair bnd_def reads x ret_run paid_def pool_payment_def)
  next
    case False
    let ?v1 = "v\<lparr>w_fees := sat_sub (w_fees v) ?x\<rparr>"
    obtain s1 where s1: "(ignore (t L1_PRICER_FUNDS_POOL_ADDRESS (w_pay v a) ?x) :: (_, _, l1_pricing_error) comp) s = (Ok (), s1)" and g1: "goes s s1 v"
      using transfer_run [OF assms(1,3)] by blast
    obtain s2 where s2: "set_l1_fees_available B p (sat_sub (w_fees v) ?x) s1 = (Ok (), s2)" and g2: "goes s1 s2 ?v1"
      using l1_writes(5) [OF conjunct1 [OF g1]] by blast
    obtain s3 where s3: "set_funds_due B ?ps (sat_sub (w_due v a) ?x) (bpt_total_funds_due (l1_table H k)) s2 = (Ok (), s3)"
      and g3: "goes s2 s3 (owe a (sat_sub (w_due v a) ?x) ?v1)"
      using set_funds_due_run [OF conjunct1 [OF g2] assms(2)] by blast
    have "pay_poster B H p t ?ps (w_fees v) s = (Ok (sat_sub (w_fees v) ?x), s3)"
      and "pay_poster (with_log B) H p (recorded t) ?ps (w_fees v) (s, l) =
        (Ok (sat_sub (w_fees v) ?x), s3, l @ pool_payment (w_pay v a) ?x)" for l
      unfolding pay_poster_def Let_def pool_payment_def if_not_P [OF False] using False
      by (simp_all add: lifts on_state_pair recorded_run [of t, OF s1] bnd_def reads x s1 s2 ignore_def [of "set_funds_due _ _ _ _"] s3 l1_open_fields(15) ret_run word_neq_0_conv)
    moreover have "paid a v = owe a (sat_sub (w_due v a) ?x) ?v1" and "w_fees (paid a v) = sat_sub (w_fees v) ?x"
      using False by (simp_all add: paid_def owe_def Let_def)
    ultimately show ?thesis using goes_trans [OF goes_trans [OF g1 g2] g3] by auto
  qed
qed

lemma reprice_run:
  assumes "ls s v" and "7 \<le> ver"
  shows "\<exists>s'. reprice B H p (w_fees v) al s = (Ok (), s') \<and> goes s s' (repriced al v)"
proof -
  note reads = l1_reads [OF assms(1)]
  let ?need = "sat_add (w_total v) (w_fdr v)"
  let ?pos = "?need \<le> w_fees v"
  let ?mag = "if ?pos then sat_sub (w_fees v) ?need else sat_sub ?need (w_fees v)"
  let ?old = "to_signed (w_surplus v)"
  let ?price = "new_price_of (w_price v) ?mag ?pos (fst ?old) (snd ?old) (w_inertia v) (w_equil v) al"
  let ?v1 = "v\<lparr>w_surplus := if \<not> ?pos then - ?mag else ?mag\<rparr>"
  obtain s1 where s1: "set_last_surplus B p ?mag (\<not> ?pos) s = (Ok (), s1)" and g1: "goes s s1 ?v1"
    using l1_writes(6) [OF assms] by blast
  obtain s2 where s2: "set_price_per_unit B p ?price s1 = (Ok (), s2)" and g2: "goes s1 s2 (?v1\<lparr>w_price := ?price\<rparr>)"
    using l1_writes(4) [OF conjunct1 [OF g1]] by blast
  have "reprice B H p (w_fees v) al s = (Ok (), s2)"
    unfolding reprice_def Let_def l1_open_fields(15)
    using s1 s2 by (simp add: bnd_def reads case_prod_beta del: if_split)
  moreover have "?v1\<lparr>w_price := ?price\<rparr> = repriced al v"
    by (simp add: repriced_def Let_def)
  ultimately show ?thesis using goes_trans [OF g1 g2] by metis
qed

text \<open>A report runs in three stages: it opens the poster, it books what is due, and it pays and sets the price.\<close>

lemma report_rejected_run:
  assumes "ls s v" and "a \<in> U" and "length (w_posters v) + 2 < 2 ^ 64" and "10 \<le> ver"
    and late: "ct < ut \<or> ut < last_of ut v"
  shows "\<exists>s'. update_for_batch_poster_spending B H p ut ct a wei basefee t s = (Err InvalidUpdateTime, s') \<and> goes s s' (opened a v)"
proof -
  obtain s1 where s1: "open_poster B H (l1_table H k) a True s = (Ok (poster_internal_open H (l1_table H k) a), s1)"
    and g1: "goes s s1 (opened a v)"
    using open_poster_run [OF assms(1-3)] by blast
  have "w_last (opened a v) = w_last v" by (simp add: opened_def)
  then have "update_for_batch_poster_spending B H p ut ct a wei basefee t s = (Err InvalidUpdateTime, s1)"
    unfolding update_for_batch_poster_spending_def Let_def l1_open_fields(14,15) using late leD [OF assms(4)]
    by (simp add: bnd_def s1 l1_reads [OF conjunct1 [OF g1]] last_of_def throw_run)
  then show ?thesis using g1 by blast
qed

lemma report_run_recorded:
  assumes "ls s v" and "a \<in> U" and "length (w_posters v) + 2 < 2 ^ 64" and "10 \<le> ver"
    and t: "balances_only ok F cell t" and intime: "ut \<le> ct" "last_of ut v \<le> ut"
  shows "\<exists>s'. update_for_batch_poster_spending B H p ut ct a wei basefee t s = (Ok (), s') \<and>
    goes s s' (report ut ct a wei basefee (opened a v)) \<and>
    (\<forall>l. update_for_batch_poster_spending (with_log B) H p ut ct a wei basefee (recorded t) (s, l) =
       (Ok (), s', l @ report_payments ut ct a wei basefee (opened a v)))"
proof -
  let ?ps = "poster_internal_open H (l1_table H k) a" and ?w = "opened a v"
  let ?al = "settled ut ct ?w"
  let ?v1 = "?w\<lparr>w_units := sat_sub (w_units ?w) ?al\<rparr>"
  let ?due = "sat_add (w_due ?w a) (capped_spending wei basefee ?al (w_cap ?w))"
  let ?v2 = "owe a ?due ?v1" and ?r = "sat_mul (ucast ?al) (ucast (w_reward ?w))"
  let ?v3 = "rewarded ?r ?v2"
  obtain s0 where s0: "open_poster B H (l1_table H k) a True s = (Ok ?ps, s0)" and g0: "goes s s0 ?w"
    using open_poster_run [OF assms(1-3)] by blast
  note r0 = l1_reads [OF conjunct1 [OF g0]]
  obtain s1 where s1: "set_units_since_update B p (sat_sub (w_units ?w) ?al) s0 = (Ok (), s1)" and g1: "goes s0 s1 ?v1"
    using l1_writes(3) [OF conjunct1 [OF g0]] by blast
  note r1 = l1_reads [OF conjunct1 [OF g1]] poster_reads [OF conjunct1 [OF g1] assms(2)]
  obtain s2 where s2: "set_funds_due B ?ps ?due (bpt_total_funds_due (l1_table H k)) s1 = (Ok (), s2)" and g2: "goes s1 s2 ?v2"
    using set_funds_due_run [OF conjunct1 [OF g1] assms(2)] by blast
  have v2: "w_fdr ?v2 = w_fdr ?w" "w_fees ?v2 = w_fees ?w" "w_reward ?v2 = w_reward ?w" by (simp_all add: owe_def)
  have r2: "per_unit_reward B p s2 = (Ok (w_reward ?w), s2)" using l1_reads(4) [OF conjunct1 [OF g2]] v2(3) by simp
  obtain s3 where s3: "pay_rewards B p t (w_fdr ?w) (w_fees ?w) ?r s2 = (Ok (w_fees ?v3), s3)" and g3: "goes s2 s3 ?v3"
    and l3: "\<And>l. pay_rewards (with_log B) p (recorded t) (w_fdr ?w) (w_fees ?w) ?r (s2, l) =
      (Ok (w_fees ?v3), s3, l @ pool_payment (w_recipient ?v2) (min ?r (w_fees ?w)))"
    using pay_rewards_run [OF conjunct1 [OF g2] t, of ?r] unfolding v2 by blast
  obtain s4 where s4: "pay_poster B H p t ?ps (w_fees ?v3) s3 = (Ok (w_fees (paid a ?v3)), s4)" and g4: "goes s3 s4 (paid a ?v3)"
    and l4: "\<And>l. pay_poster (with_log B) H p (recorded t) ?ps (w_fees ?v3) (s3, l) =
      (Ok (w_fees (paid a ?v3)), s4, l @ pool_payment (w_pay ?v3 a) (min (w_due ?v3 a) (w_fees ?v3)))"
    using pay_poster_run [OF conjunct1 [OF g3] assms(2) t] by blast
  let ?v5 = "(paid a ?v3)\<lparr>w_last := ut\<rparr>"
  obtain s5 where s5: "set_last_update_time B p ut s4 = (Ok (), s5)" and g5: "goes s4 s5 ?v5"
    using l1_writes(1) [OF conjunct1 [OF g4]] by blast
  obtain s6 where s6: "(if 0 < ?al then reprice B H p (w_fees (paid a ?v3)) ?al else ret ()) s5 = (Ok (), s6)"
    and g6: "goes s5 s6 (if 0 < ?al then repriced ?al ?v5 else ?v5)"
  proof (cases "0 < ?al")
    case True
    have "7 \<le> ver" using assms(4) by (rule order_trans [rotated]) simp
    from reprice_run [OF conjunct1 [OF g5] this, of ?al] True that show thesis by auto
  next
    case False
    then show thesis using that [of s5] conjunct1 [OF g5] by (simp add: ret_run)
  qed
  have al: "allocation ut ct (if w_last ?w = 0 \<and> 0 < ut then sat_sub ut 1 else w_last ?w) (w_units ?w) = ?al"
    by (simp add: settled_def last_of_def)
  have time: "\<not> (ct < ut \<or> ut < (if w_last ?w = 0 \<and> 0 < ut then sat_sub ut 1 else w_last ?w))"
    using intime by (auto simp: opened_def last_of_def)
  have v3: "\<not> ver < 10" "3 \<le> ver" using assms(4) by (auto simp: not_less elim: order_trans [rotated])
  have run: "update_for_batch_poster_spending B H p ut ct a wei basefee t s = (Ok (), s6)"
    unfolding update_for_batch_poster_spending_def Let_def l1_open_fields(14,15)
    using time s6
    by (cases "0 < ?al") (simp_all add: bnd_def v3 s0 r0 al s1 r1 ignore_def [of "set_funds_due _ _ _ _"] s2 r2 s3 s4 s5 ret_run del: if_split)
  have payments: "pool_payment (w_recipient ?v2) (min ?r (w_fees ?w)) @ pool_payment (w_pay ?v3 a) (min (w_due ?v3 a) (w_fees ?v3)) =
      report_payments ut ct a wei basefee ?w"
    by (simp add: report_payments_def reward_paid_def poster_paid_def spending_accepted_def rewarded_def owe_def Let_def)
  have run_log: "update_for_batch_poster_spending (with_log B) H p ut ct a wei basefee (recorded t) (s, l) =
      (Ok (), s6, l @ report_payments ut ct a wei basefee ?w)" for l
    unfolding update_for_batch_poster_spending_def Let_def l1_open_fields(14,15) payments [symmetric]
    using time s6
    by (cases "0 < ?al") (simp_all add: lifts on_state_pair bnd_def v3 s0 r0 al s1 r1 ignore_def [of "set_funds_due _ _ _ _"] s2 r2 l3 l4 s5 ret_run del: if_split)
  have fin: "goes s s6 (report ut ct a wei basefee ?w)"
    using goes_trans [OF goes_trans [OF goes_trans [OF goes_trans [OF goes_trans [OF goes_trans [OF g0 g1] g2] g3] g4] g5] g6]
    unfolding report_def Let_def .
  show ?thesis using run fin run_log by blast
qed

lemma report_run:
  assumes "ls s v" and "a \<in> U" and "length (w_posters v) + 2 < 2 ^ 64" and "10 \<le> ver"
    and "balances_only ok F cell t" and "ut \<le> ct" and "last_of ut v \<le> ut"
  shows "\<exists>s'. update_for_batch_poster_spending B H p ut ct a wei basefee t s = (Ok (), s') \<and>
    goes s s' (report ut ct a wei basefee (opened a v))"
  using report_run_recorded [OF assms, of wei basefee] by blast

end

interpretation l1: l1_store "state_backend E H" H "F \<union> l1_cells H k U"
    "\<lambda>s. state_ok E H (F \<union> l1_cells H k U) s \<and> l1_keys_ok H k U" "state_cell H" "state_poke E H" k U ver
  for E H F k U ver
  proof
  fix s l l' v
  assume "state_ok E H (F \<union> l1_cells H k U) s \<and> l1_keys_ok H k U" and "l \<in> F \<union> l1_cells H k U" and "l' \<in> F \<union> l1_cells H k U"
  then show "state_cell H (state_poke E H s l v) l' = (if l' = l then v else state_cell H s l')"
    by (intro st.cell_poke) blast+
qed (auto simp: st.sload_system_cell st.sload_cell st.sstore_cell st.ok_poke)

end
