(* ===== verification/L1_System.thy ===== *)
theory L1_System
  imports L1_Store Sample_Env
begin

text \<open>
  The properties of L1 pricing on the executor's state: a spending report is the function on views, it is
  refused exactly when its time is out of range, it keeps the books of what is owed, and the arithmetic on
  signed magnitudes is that of the integers.
\<close>

section \<open>A concrete pricing state\<close>

abbreviation l1_ok :: "revm \<Rightarrow> keccak \<Rightarrow> cell_id set \<Rightarrow> u256 \<Rightarrow> address set \<Rightarrow> state \<Rightarrow> bool" where
  "l1_ok E H F k U st \<equiv> state_ok E H (F \<union> l1_cells H k U) st \<and> l1_keys_ok H k U"

abbreviation l1_holds :: "revm \<Rightarrow> keccak \<Rightarrow> cell_id set \<Rightarrow> u256 \<Rightarrow> address set \<Rightarrow> l1_view \<Rightarrow> state \<Rightarrow> bool" where
  "l1_holds E H F k U v st \<equiv> l1_ok E H F k U st \<and> l1_at H (state_cell H st) k U v"

abbreviation l1_transfer_ok :: "revm \<Rightarrow> keccak \<Rightarrow> cell_id set \<Rightarrow> u256 \<Rightarrow> address set
    \<Rightarrow> (address \<Rightarrow> address \<Rightarrow> u256 \<Rightarrow> (state, unit, balance_error) comp) \<Rightarrow> bool" where
  "l1_transfer_ok E H F k U t \<equiv> balances_only (l1_ok E H F k U) (F \<union> l1_cells H k U) (state_cell H) t"

definition sample_l1 :: l1_view where
  "sample_l1 = \<lparr>w_recipient = 9, w_equil = 16000000, w_inertia = 10, w_reward = 10, w_last = 100, w_fdr = 0, w_units = 50,
     w_price = 50, w_surplus = 0, w_batch_cost = 0, w_cap = 0, w_fees = 1000, w_floor = 0, w_total = 500,
     w_posters = [100], w_due = (\<lambda>a. if a = 100 then 500 else 0), w_pay = (\<lambda>a. if a = 100 then 9 else 0)\<rparr>"

definition sample_l1_cells :: "u256 \<Rightarrow> u256 \<Rightarrow> u256" where
  "sample_l1_cells k key =
     (if k = 7 then [9, 16000000, 10, 10, 100, 0, 50, 50, 0, 0, 0, 1000, 0] ! unat key
      else if k = 1793 then 500
      else if k = 459009 then (if key = 0 then 1 else 100)
      else if k = 117506305 then (if key = 100 then 1 else 0)
      else if k = 101 then (if key = 0 then 500 else 9)
      else 0)"

lemma sample_info_key:
  assumes "unat (a :: address) < 2 ^ 80"
  shows "derive_sub_key sample_keccak g (be_bytes 20 a) = ucast a + 1"
proof -
  have "drop (length (storage_key g) + 10) (storage_key g @ be_bytes 20 a) = be_bytes 10 a"
    using drop_be_bytes [of 10 10 a] by simp
  moreover have "length (storage_key g) + 20 \<noteq> 63" "length (storage_key g) + 20 \<noteq> 31"
    by (simp_all add: storage_key_def)
  ultimately show ?thesis
    using assms
    by (simp add: derive_sub_key_def sample_keccak_def from_be_of_nat be_nat_be_bytes word_unat_eq_iff unat_ucast_up)
qed

lemma sample_l1_keys:
  "l1_key_of sample_keccak 7 L1_Root = 7" "l1_key_of sample_keccak 7 L1_Table = 1793"
  "l1_key_of sample_keccak 7 (L1_Info 100) = 101" "l1_key_of sample_keccak 7 (L1_Info 200) = 201"
  "l1_addrs sample_keccak 7 = 459009" "derive_sub_key sample_keccak 459009 [0] = 117506305"
proof -
  have k: "derive_sub_key sample_keccak 7 [0] = 1793" "derive_sub_key sample_keccak 1793 [0] = 459009"
    using unat_sub_key_sample [of 7 0] unat_sub_key_sample [of 1793 0] by (simp_all add: word_unat_eq_iff)
  show "l1_key_of sample_keccak 7 L1_Root = 7" "l1_key_of sample_keccak 7 L1_Table = 1793" "l1_addrs sample_keccak 7 = 459009"
    by (simp_all add: l1_key_of.simps l1_addrs_def k)
  show "derive_sub_key sample_keccak 459009 [0] = 117506305"
    using unat_sub_key_sample [of 459009 0] by (simp add: word_unat_eq_iff)
  show "l1_key_of sample_keccak 7 (L1_Info 100) = 101" "l1_key_of sample_keccak 7 (L1_Info 200) = 201"
    by (simp_all add: l1_key_of.simps sample_info_key)
qed

lemma sample_l1_key_set: "l1_keys {100, 200} = {L1_Root, L1_Table, L1_Info 100, L1_Info 200}"
  by (auto simp: l1_keys_def)

lemma sample_l1_holds: "l1_holds sample_revm sample_keccak {} 7 {100, 200} sample_l1 (sample_state sample_l1_cells)"
proof (intro conjI)
  show "state_ok sample_revm sample_keccak ({} \<union> l1_cells sample_keccak 7 {100, 200}) (sample_state sample_l1_cells)"
    by (rule state_ok_sample) (auto simp: l1_cells_def sample_l1_key_set sample_l1_keys aset_cells_def member_cell_def)
  show "l1_keys_ok sample_keccak 7 {100, 200}"
    by (simp add: l1_keys_ok_def sample_l1_key_set inj_on_def sample_l1_keys)
  have nth: "[a, b, c, d, e, f, g, h, i, j, k, l, m] ! 4 = e" "[a, b, c, d, e, f, g, h, i, j, k, l, m] ! 5 = f"
    "[a, b, c, d, e, f, g, h, i, j, k, l, m] ! 6 = g" "[a, b, c, d, e, f, g, h, i, j, k, l, m] ! 7 = h"
    "[a, b, c, d, e, f, g, h, i, j, k, l, m] ! 8 = i" "[a, b, c, d, e, f, g, h, i, j, k, l, m] ! 9 = j"
    "[a, b, c, d, e, f, g, h, i, j, k, l, m] ! 10 = k" "[a, b, c, d, e, f, g, h, i, j, k, l, m] ! 11 = l"
    "[a, b, c, d, e, f, g, h, i, j, k, l, m] ! 12 = m" for a b c d e f g h i j k l m :: u256
    by (simp_all add: eval_nat_numeral)
  have mem: "state_cell sample_keccak (sample_state c) (member_cell sample_keccak 459009 a) = c 117506305 (ucast a)" for c a
    using unat_bound [of a] unfolding member_cell_def sample_l1_keys
    by (subst state_cell_sample) (simp_all add: unat_ucast_up)
  show "l1_at sample_keccak (state_cell sample_keccak (sample_state sample_l1_cells)) 7 {100, 200} sample_l1"
    by (simp add: l1_at_def aset_at_def sample_l1_keys at_sample mem sample_l1_cells_def sample_l1_def nth)
qed

lemma no_transfer_ok: "balances_only ok F cell (\<lambda>a b x. ret ())"
  by (simp add: balances_only_def ret_run)

section \<open>Signed magnitudes are integers\<close>

definition sval :: "u256 \<times> bool \<Rightarrow> int" where
  "sval x = (if snd x then uint (fst x) else - uint (fst x))"

definition clamp :: "int \<Rightarrow> int" where
  "clamp x = max (- (2 ^ 256 - 1)) (min (2 ^ 256 - 1) x)"

lemma sval_pair [simp]: "sval (m, True) = uint m" "sval (m, False) = - uint m"
  by (simp_all add: sval_def)

lemma uint_sat256:
  "uint (sat_add a b :: u256) = min (2 ^ 256 - 1) (uint a + uint b)"
  "uint (sat_mul a b :: u256) = min (2 ^ 256 - 1) (uint a * uint b)"
  "uint (sat_sub a b :: u256) = max 0 (uint a - uint b)"
proof -
  have "int (unat (sat_add a b)) = int (min (2 ^ 256 - 1) (unat a + unat b))"
    and "int (unat (sat_mul a b)) = int (min (2 ^ 256 - 1) (unat a * unat b))"
    by (simp_all add: unat_sat)
  then show "uint (sat_add a b) = min (2 ^ 256 - 1) (uint a + uint b)"
    and "uint (sat_mul a b) = min (2 ^ 256 - 1) (uint a * uint b)"
    unfolding uint_nat by (simp_all only: of_nat_min of_nat_add of_nat_mult) simp_all
  show "uint (sat_sub a b) = max 0 (uint a - uint b)"
    using uint_minus_simple_alt [of b a] by (cases "b \<le> a") (simp_all add: sat_sub_def word_le_def)
qed

lemma clamp_simps:
  assumes "0 \<le> x" and "0 \<le> y"
  shows "clamp (x + y) = min (2 ^ 256 - 1) (x + y)" and "clamp (- x - y) = - min (2 ^ 256 - 1) (x + y)"
    and "x < 2 ^ 256 \<Longrightarrow> y < 2 ^ 256 \<Longrightarrow> clamp (x - y) = x - y"
  using assms by (simp_all add: clamp_def max_def min_def)

lemma sval_signed_div: "sval (signed_div m pos d) = sval (m, pos) div uint d"
proof (cases "d = 0 \<or> pos")
  case True
  then show ?thesis by (auto simp: signed_div_def uint_div_distrib)
next
  case False
  have d: "uint d \<noteq> 0" using False by (simp add: uint_0_iff)
  have q: "uint (m div d) = uint m div uint d" and r: "m mod d = 0 \<longleftrightarrow> uint m mod uint d = 0"
    by (simp_all add: uint_div_distrib uint_mod_distrib word_uint_eq_iff)
  show ?thesis
  proof (cases "m mod d = 0")
    case True
    then show ?thesis using False d q r by (auto simp: signed_div_def Let_def zdiv_zminus1_eq_if)
  next
    case rem: False
    have "1 < uint d"
      using rem r order_le_less [of 0 "uint d"] d by (cases "uint d = 1") auto
    then have "2 * (uint m div uint d) \<le> uint m"
      using mult_right_mono [of 2 "uint d" "uint m div uint d"] pos_imp_zdiv_nonneg_iff [of "uint d" "uint m"]
        div_mult_mod_eq [of "uint m" "uint d"] pos_mod_sign [of "uint d" "uint m"]
      by (smt (verit) mult.commute uint_ge_0)
    then have "uint m div uint d < 2 ^ 256 - 1"
      using uint_lt2p [of m] by simp
    then have "uint (m div d + 1) = uint m div uint d + 1"
      by (simp add: q uint_plus_if')
    then show ?thesis using False rem d r by (simp add: signed_div_def Let_def zdiv_zminus1_eq_if)
  qed
qed

lemma sval_signed_add: "sval (signed_add a p b q) = clamp (sval (a, p) + sval (b, q))"
proof -
  have u: "0 \<le> uint a" "uint a < 2 ^ 256" "0 \<le> uint b" "uint b < 2 ^ 256"
    using uint_lt2p [of a] uint_lt2p [of b] by simp_all
  note c = clamp_simps(1,2) [OF u(1,3)] clamp_simps(3) [OF u(1,3,2,4)] clamp_simps(3) [OF u(3,1,4,2)]
  show ?thesis
    using c by (cases p; cases q) (simp_all add: signed_add_def uint_sat256 word_le_def)
qed

lemma sval_signed_sub: "sval (signed_sub a p b q) = clamp (sval (a, p) - sval (b, q))"
  by (cases q) (simp_all add: signed_sub_def sval_signed_add)

text \<open>
  C40: the price of an L1 data unit after a report is the integer formula of the pricing model: with surplus S,
  surplus O before, and u settled units, the price moves by ((-S) div e - (S - O) div u) * u div (e div i + u),
  where division rounds down, e is the number of equilibration units and i the inertia. Each
  intermediate value is held within 256 bits and a sign, the price within 0 and 2^256 - 1, and a division by
  zero gives zero.
\<close>

theorem new_price_is_integer_formula:
  "uint (new_price_of price m pos om oneg i e u) =
     (let S = sval (m, pos); O' = sval (om, \<not> oneg);
          change = clamp ((- S) div uint e - clamp (S - O') div uint u);
          units = min (2 ^ 256 - 1) (uint e div uint i + uint u) in
      max 0 (min (2 ^ 256 - 1) (uint price + clamp (change * uint u) div units)))"
proof -
  have u: "uint (ucast u :: u256) = uint u" "uint (ucast i :: u256) = uint i"
    by (simp_all add: uint_up_ucast is_up)
  have iu: "uint (case checked_div e (ucast i :: u256) of Some q \<Rightarrow> q | None \<Rightarrow> 0) = uint e div uint i"
    by (auto simp: checked_div_def uint_div_distrib u word_uint_eq_iff)
  have "uint price - uint (fst d) \<le> 115792089237316195423570985008687907853269984665640564039457584007913129639935" for d :: "u256 \<times> bool"
    using uint_lt2p [of price, simplified] uint_ge_0 [of "fst d"] by linarith
  then have step: "uint (if snd d then sat_add price (fst d) else sat_sub price (fst d)) =
      max 0 (min (2 ^ 256 - 1) (uint price + sval d))" for d
    by (simp add: sval_def uint_sat256 max_def min_absorb2)
  have mul: "sval (sat_mul (fst d) (ucast u), snd d) = clamp (sval d * uint u)" for d
    using clamp_simps(1,2) [of "uint (fst d) * uint u" 0] by (simp add: sval_def uint_sat256 u)
  have neg: "sval (m, \<not> pos) = - sval (m, pos)" by (simp add: sval_def)
  show ?thesis
    unfolding new_price_of_def Let_def case_prod_beta step sval_signed_div
    by (simp only: mul sval_signed_sub prod.collapse sval_signed_div neg u uint_sat256 iu)
qed

section \<open>Spending reports\<close>

text \<open>
  C14: from ArbOS 10 on, a spending report of a batch poster opens the poster's entry; it is refused with InvalidUpdateTime, and
  changes nothing else, when its time is after the current time or before the last update; otherwise it succeeds,
  even when the transfers it makes fail, and does exactly what the function on views says. No cell outside the L1
  pricing state changes.
\<close>

theorem spending_report_refines:
  assumes "l1_holds E H F k U v st" and "a \<in> U" and "length (w_posters v) + 2 < 2 ^ 64" and "10 \<le> ver"
    and "l1_transfer_ok E H F k U t"
  shows "\<exists>st'. update_for_batch_poster_spending (state_backend E H) H (l1_open H k ver) ut ct a wei basefee t st =
        (if ct < ut \<or> ut < last_of ut v then Err InvalidUpdateTime else Ok (), st') \<and>
      l1_holds E H F k U
        (if ct < ut \<or> ut < last_of ut v then opened a v else report ut ct a wei basefee (opened a v)) st' \<and>
      (\<forall>l \<in> F - l1_cells H k U. state_cell H st' l = state_cell H st l)"
proof (cases "ct < ut \<or> ut < last_of ut v")
  case True
  then show ?thesis
    using l1.report_rejected_run [OF assms(1-4) True, of wei basefee t] by simp blast
next
  case False
  then have "ut \<le> ct" and "last_of ut v \<le> ut" by (simp_all add: not_less)
  with False show ?thesis
    using l1.report_run [OF assms(1-5), of ut ct wei basefee] by simp blast
qed

lemma spending_report_refines_witness:
  "\<exists>st'. update_for_batch_poster_spending (state_backend sample_revm sample_keccak) sample_keccak (l1_open sample_keccak 7 10)
       110 120 200 300 7 (\<lambda>a b x. ret ()) (sample_state sample_l1_cells) = (Ok (), st') \<and>
     l1_holds sample_revm sample_keccak {} 7 {100, 200} (report 110 120 200 300 7 (opened 200 sample_l1)) st'"
proof -
  have "\<not> ((120 :: u64) < 110 \<or> 110 < last_of 110 sample_l1)" and "length (w_posters sample_l1) + 2 < 2 ^ 64"
    by (simp_all add: last_of_def sample_l1_def)
  then show ?thesis
    using spending_report_refines [OF sample_l1_holds _ _ _ no_transfer_ok, of 200 10 110 120 300 7] by auto
qed

definition l1_books :: "l1_view \<Rightarrow> bool" where
  "l1_books v \<longleftrightarrow> distinct (w_posters v) \<and> unat (w_total v) = (\<Sum>a\<leftarrow>w_posters v. unat (w_due v a))"

lemma sum_list_upd_other:
  "a \<notin> set xs \<Longrightarrow> (\<Sum>b\<leftarrow>xs. unat (if b = a then x else f b)) = (\<Sum>b\<leftarrow>xs. unat (f b))"
  by (induction xs) auto

lemma sum_list_upd:
  assumes "distinct xs" and "a \<in> set xs"
  shows "(\<Sum>b\<leftarrow>xs. unat ((f(a := x)) b)) + unat (f a) = (\<Sum>b\<leftarrow>xs. unat (f b)) + unat (x :: u256)"
  using assms by (induction xs) (auto simp: sum_list_upd_other)

lemma books_opened:
  assumes "l1_books v"
  shows "l1_books (opened a v)" and "a \<in> set (w_posters (opened a v))"
  using assms by (auto simp: l1_books_def opened_def sum_list_upd_other)

lemma books_owe:
  assumes "l1_books v" and "a \<in> set (w_posters v)" and "unat (w_total v) + unat x < 2 ^ 256"
  shows "l1_books (owe a x v)" and "unat (w_total (owe a x v)) + unat (w_due v a) = unat (w_total v) + unat x"
proof -
  have le: "unat (w_due v a) \<le> unat (w_total v)"
    using assms(1,2) by (simp add: l1_books_def member_le_sum_list)
  then show tot: "unat (w_total (owe a x v)) + unat (w_due v a) = unat (w_total v) + unat x"
    using assms(3) by (simp add: owe_def unat_sat)
  show "l1_books (owe a x v)"
    using assms(1,2) tot sum_list_upd [of "w_posters v" a "w_due v" x] by (simp add: l1_books_def owe_def)
qed

lemma capped_le: "capped_spending wei b u c \<le> wei"
  by (auto simp: capped_spending_def Let_def)

lemma rewarded_pays: "unat (w_fees (rewarded x v)) + unat (min x (w_fees v)) = unat (w_fees v)"
  by (auto simp: rewarded_def Let_def unat_sat min_def word_le_nat_alt)

lemma paid_pays:
  assumes "l1_books v" and "a \<in> set (w_posters v)" and "unat (w_total v) < 2 ^ 255"
  shows "l1_books (paid a v) \<and> unat (w_fees (paid a v)) + unat (min (w_due v a) (w_fees v)) = unat (w_fees v) \<and>
    unat (w_total (paid a v)) + unat (min (w_due v a) (w_fees v)) = unat (w_total v) \<and>
    (w_fees (paid a v) = 0 \<or> w_due (paid a v) a = 0)"
proof -
  let ?x = "min (w_due v a) (w_fees v)" and ?v = "v\<lparr>w_fees := sat_sub (w_fees v) (min (w_due v a) (w_fees v))\<rparr>"
  have x: "unat ?x = min (unat (w_due v a)) (unat (w_fees v))" by (simp add: min_def word_le_nat_alt)
  have le: "unat (w_due v a) \<le> unat (w_total v)"
    using assms(1,2) by (simp add: l1_books_def member_le_sum_list)
  have "unat (w_total ?v) + unat (sat_sub (w_due v a) ?x) < 2 ^ 256"
    using le assms(3) by (simp add: unat_sat)
  then have b: "l1_books (owe a (sat_sub (w_due v a) ?x) ?v)"
    and t: "unat (w_total (owe a (sat_sub (w_due v a) ?x) ?v)) + unat (w_due v a) = unat (w_total v) + unat (sat_sub (w_due v a) ?x)"
    using books_owe [of ?v a "sat_sub (w_due v a) ?x"] assms(1,2) by (simp_all add: l1_books_def)
  show ?thesis
  proof (cases "?x = 0")
    case True
    then show ?thesis using assms(1) by (auto simp: paid_def min_def split: if_splits)
  next
    case False
    have p: "paid a v = owe a (sat_sub (w_due v a) ?x) ?v" using False by (simp add: paid_def Let_def)
    have "unat (w_fees (paid a v)) + unat ?x = unat (w_fees v)"
      by (simp add: p owe_def unat_sat x)
    moreover have "unat (w_total (paid a v)) + unat ?x = unat (w_total v)"
      using t by (simp add: p unat_sat x)
    moreover have "w_fees (paid a v) = 0 \<or> w_due (paid a v) a = 0"
      by (auto simp: p owe_def sat_sub_def min_def)
    ultimately show ?thesis using b p by metis
  qed
qed

lemma repriced_same:
  "l1_books (repriced al v) = l1_books v" "w_posters (repriced al v) = w_posters v" "w_due (repriced al v) = w_due v"
  "w_total (repriced al v) = w_total v" "w_fees (repriced al v) = w_fees v" "w_last (repriced al v) = w_last v"
  by (simp_all add: repriced_def l1_books_def Let_def)

lemma stage_same:
  "w_posters (owe a x v) = w_posters v" "w_posters (paid a v) = w_posters v" "w_fees (owe a x v) = w_fees v"
  "b \<noteq> a \<Longrightarrow> w_due (owe a x v) b = w_due v b" "b \<noteq> a \<Longrightarrow> w_due (paid a v) b = w_due v b" "w_due (owe a x v) a = x"
  "w_posters (rewarded x v) = w_posters v" "w_total (rewarded x v) = w_total v" "w_due (rewarded x v) = w_due v"
  "l1_books (rewarded x v) = l1_books v"
  by (simp_all add: owe_def paid_def rewarded_def l1_books_def Let_def)

lemma report_books:
  assumes "l1_books v" and "a \<in> set (w_posters v)" and "unat (w_total v) + unat wei < 2 ^ 255"
    and v'_def: "v' = report ut ct a wei basefee v"
  shows "l1_books v' \<and> w_posters v' = w_posters v \<and> w_last v' = ut \<and> (\<forall>b. b \<noteq> a \<longrightarrow> w_due v' b = w_due v b) \<and>
    (w_fees v' = 0 \<or> w_due v' a = 0) \<and> unat (spending_accepted ut ct wei basefee v) \<le> unat wei \<and>
    unat (w_total v') + unat (poster_paid ut ct a wei basefee v) =
      unat (w_total v) + unat (spending_accepted ut ct wei basefee v) \<and>
    unat (w_fees v') + unat (reward_paid ut ct v) + unat (poster_paid ut ct a wei basefee v) = unat (w_fees v)"
proof -
  let ?al = "settled ut ct v"
  let ?v1 = "v\<lparr>w_units := sat_sub (w_units v) ?al\<rparr>" and ?x = "capped_spending wei basefee ?al (w_cap v)"
  let ?v2 = "owe a (sat_add (w_due v a) ?x) ?v1"
  let ?v3 = "rewarded (sat_mul (ucast ?al) (ucast (w_reward v))) ?v2"
  have x: "unat ?x \<le> unat wei" using capped_le by (simp add: word_le_nat_alt)
  have le: "unat (w_due v a) \<le> unat (w_total v)"
    using assms(1,2) by (simp add: l1_books_def member_le_sum_list)
  have room: "unat (w_total v) + unat (sat_add (w_due v a) ?x) < 2 ^ 256" and due: "unat (sat_add (w_due v a) ?x) = unat (w_due v a) + unat ?x"
    using le x assms(3) by (simp_all add: unat_sat)
  have b1: "l1_books ?v1" using assms(1) by (simp add: l1_books_def)
  note o = books_owe [OF b1, of a "sat_add (w_due v a) ?x"]
  have b2: "l1_books ?v2" and t2: "unat (w_total ?v2) = unat (w_total v) + unat ?x"
    using o assms(2) room due by simp_all
  have r: "unat (w_fees ?v3) + unat (reward_paid ut ct v) = unat (w_fees v)"
    using rewarded_pays [of "sat_mul (ucast ?al) (ucast (w_reward v))" ?v2] by (simp add: reward_paid_def stage_same)
  have pay: "min (w_due ?v3 a) (w_fees ?v3) = poster_paid ut ct a wei basefee v"
    by (simp add: poster_paid_def spending_accepted_def reward_paid_def rewarded_def owe_def Let_def)
  have p: "l1_books (paid a ?v3) \<and> unat (w_fees (paid a ?v3)) + unat (min (w_due ?v3 a) (w_fees ?v3)) = unat (w_fees ?v3) \<and>
      unat (w_total (paid a ?v3)) + unat (min (w_due ?v3 a) (w_fees ?v3)) = unat (w_total ?v3) \<and>
      (w_fees (paid a ?v3) = 0 \<or> w_due (paid a ?v3) a = 0)"
    using b2 t2 x assms(2,3) by (intro paid_pays) (simp_all add: stage_same)
  let ?v4 = "(paid a ?v3)\<lparr>w_last := ut\<rparr>"
  have v': "v' = (if 0 < ?al then repriced ?al ?v4 else ?v4)"
    unfolding v'_def report_def Let_def ..
  have fields: "l1_books v' = l1_books (paid a ?v3)" "w_posters v' = w_posters v" "w_due v' = w_due (paid a ?v3)" "w_last v' = ut"
    "w_total v' = w_total (paid a ?v3)" "w_fees v' = w_fees (paid a ?v3)"
    by (simp_all add: v' repriced_same stage_same l1_books_def)
  have t3: "w_total ?v3 = w_total ?v2" by (simp add: stage_same)
  have "unat (w_total v') + unat (poster_paid ut ct a wei basefee v) = unat (w_total v) + unat ?x"
    and "unat (w_fees v') + unat (reward_paid ut ct v) + unat (poster_paid ut ct a wei basefee v) = unat (w_fees v)"
    using p [unfolded pay t3] t2 r by (simp_all add: fields)
  then show ?thesis using p x by (simp add: fields stage_same spending_accepted_def)
qed

text \<open>
  C2: the books of the batch posters balance, from ArbOS 10 on: when the total owed is the sum of what each poster is
  owed, and that total with the reported spending is below 2^255, a report in time keeps it so. The report calls the
  transfer callback for the reward, the price of the settled units as far as the fees go, and then for the poster's pay,
  what the poster is owed as far as the fees go then; it calls it for nothing else, and not at all for a zero amount. The
  total grows by what is accepted of the spending, at most what was reported, and shrinks by the poster's pay;
  the fees at hand shrink by exactly the reward and that pay; no other poster's claim changes; and the poster is then
  owed nothing, or no fees are left.
\<close>

theorem spending_report_keeps_books:
  assumes "l1_holds E H F k U v st" and "a \<in> U" and "length (w_posters v) + 2 < 2 ^ 64" and "10 \<le> ver"
    and "l1_transfer_ok E H F k U t" and "ut \<le> ct" and "last_of ut v \<le> ut"
    and "l1_books v" and "unat (w_total v) + unat wei < 2 ^ 255"
  shows "\<exists>st' v' spent reward pay.
    update_for_batch_poster_spending (state_backend E H) H (l1_open H k ver) ut ct a wei basefee t st = (Ok (), st') \<and>
    update_for_batch_poster_spending (with_log (state_backend E H)) H (l1_open H k ver) ut ct a wei basefee (recorded t) (st, []) =
      (Ok (), st', pool_payment (w_recipient v) reward @ pool_payment (w_pay (opened a v) a) pay) \<and>
    l1_holds E H F k U v' st' \<and> l1_books v' \<and> set (w_posters v') = insert a (set (w_posters v)) \<and>
    reward = min (sat_mul (ucast (settled ut ct v)) (ucast (w_reward v))) (w_fees v) \<and>
    pay = min (sat_add (w_due (opened a v) a) spent) (sat_sub (w_fees v) reward) \<and>
    unat spent \<le> unat wei \<and> unat (w_total v') + unat pay = unat (w_total v) + unat spent \<and>
    unat (w_fees v') + unat reward + unat pay = unat (w_fees v) \<and>
    (\<forall>b. b \<noteq> a \<longrightarrow> w_due v' b = w_due v b) \<and> (w_fees v' = 0 \<or> w_due v' a = 0)"
proof -
  let ?w = "opened a v" and ?v' = "report ut ct a wei basefee (opened a v)"
  obtain st' where run: "update_for_batch_poster_spending (state_backend E H) H (l1_open H k ver) ut ct a wei basefee t st = (Ok (), st')"
    and holds: "l1_holds E H F k U ?v' st'"
    and log: "update_for_batch_poster_spending (with_log (state_backend E H)) H (l1_open H k ver) ut ct a wei basefee (recorded t) (st, []) =
      (Ok (), st', report_payments ut ct a wei basefee ?w)"
    using l1.report_run_recorded [OF assms(1-7), of wei basefee] by (metis append_Nil)
  have w: "w_total ?w = w_total v" "w_fees ?w = w_fees v" "set (w_posters ?w) = insert a (set (w_posters v))"
    "\<forall>b. b \<noteq> a \<longrightarrow> w_due ?w b = w_due v b" "w_recipient ?w = w_recipient v" "settled ut ct ?w = settled ut ct v" "w_reward ?w = w_reward v"
    by (auto simp: opened_def settled_def last_of_def)
  have books: "l1_books ?v' \<and> w_posters ?v' = w_posters ?w \<and> w_last ?v' = ut \<and> (\<forall>b. b \<noteq> a \<longrightarrow> w_due ?v' b = w_due ?w b) \<and>
    (w_fees ?v' = 0 \<or> w_due ?v' a = 0) \<and> unat (spending_accepted ut ct wei basefee ?w) \<le> unat wei \<and>
    unat (w_total ?v') + unat (poster_paid ut ct a wei basefee ?w) =
      unat (w_total ?w) + unat (spending_accepted ut ct wei basefee ?w) \<and>
    unat (w_fees ?v') + unat (reward_paid ut ct ?w) + unat (poster_paid ut ct a wei basefee ?w) = unat (w_fees ?w)"
    using books_opened [OF assms(8)] assms(9) by (intro report_books) (simp_all only: w insert_iff simp_thms)
  have reward: "reward_paid ut ct ?w = min (sat_mul (ucast (settled ut ct v)) (ucast (w_reward v))) (w_fees v)"
    by (simp only: reward_paid_def w)
  have pay: "poster_paid ut ct a wei basefee ?w =
      min (sat_add (w_due ?w a) (spending_accepted ut ct wei basefee ?w)) (sat_sub (w_fees v) (reward_paid ut ct ?w))"
    by (simp only: poster_paid_def w)
  have posters: "set (w_posters ?v') = insert a (set (w_posters v))" and others: "\<forall>b. b \<noteq> a \<longrightarrow> w_due ?v' b = w_due v b"
    using books w(3,4) by simp_all
  note rest = books [unfolded w(1,2)]
  show ?thesis
    by (rule exI [of _ st'], rule exI [of _ ?v'], intro exI, rule conjI [OF run], rule conjI [OF log [unfolded report_payments_def w(5)]],
      rule conjI [OF holds], rule conjI [OF conjunct1 [OF rest]], rule conjI [OF posters], rule conjI [OF reward], rule conjI [OF pay],
      use rest others in blast)
qed

lemma spending_report_keeps_books_witness:
  "\<exists>st' v' spent reward pay.
    update_for_batch_poster_spending (state_backend sample_revm sample_keccak) sample_keccak (l1_open sample_keccak 7 10)
       110 120 200 300 7 (\<lambda>a b x. ret ()) (sample_state sample_l1_cells) = (Ok (), st') \<and>
    update_for_batch_poster_spending (with_log (state_backend sample_revm sample_keccak)) sample_keccak (l1_open sample_keccak 7 10)
       110 120 200 300 7 (recorded (\<lambda>a b x. ret ())) (sample_state sample_l1_cells, []) =
       (Ok (), st', pool_payment (w_recipient sample_l1) reward @ pool_payment 200 pay) \<and>
    l1_holds sample_revm sample_keccak {} 7 {100, 200} v' st' \<and> l1_books v' \<and> set (w_posters v') = {100, 200} \<and>
    unat (spent :: u256) \<le> 300 \<and> unat (w_total v') + unat pay = 500 + unat spent \<and> unat (w_fees v') + unat reward + unat pay = 1000 \<and>
    w_due v' 100 = 500 \<and> (w_fees v' = 0 \<or> w_due v' 200 = 0)"
proof -
  have v: "length (w_posters sample_l1) + 2 < 2 ^ 64" "last_of 110 sample_l1 \<le> 110" "l1_books sample_l1"
    "unat (w_total sample_l1) + unat (300 :: u256) < 2 ^ 255" "w_posters sample_l1 = [100]" "w_due sample_l1 100 = 500"
    "unat (w_total sample_l1) = 500" "unat (w_fees sample_l1) = 1000" "w_pay (opened 200 sample_l1) 200 = 200"
    by (simp_all add: last_of_def sample_l1_def l1_books_def opened_def)
  have c: "200 \<in> {100, 200 :: address}" "(10 :: u64) \<le> 10" "(110 :: u64) \<le> 120" by simp_all
  obtain st' v' reward pay and spent :: u256
    where "update_for_batch_poster_spending (state_backend sample_revm sample_keccak) sample_keccak (l1_open sample_keccak 7 10)
       110 120 200 300 7 (\<lambda>a b x. ret ()) (sample_state sample_l1_cells) = (Ok (), st')"
    and "update_for_batch_poster_spending (with_log (state_backend sample_revm sample_keccak)) sample_keccak (l1_open sample_keccak 7 10)
       110 120 200 300 7 (recorded (\<lambda>a b x. ret ())) (sample_state sample_l1_cells, []) =
       (Ok (), st', pool_payment (w_recipient sample_l1) reward @ pool_payment 200 pay)"
    and "l1_holds sample_revm sample_keccak {} 7 {100, 200} v' st'" and "l1_books v'"
    and "set (w_posters v') = insert 200 (set (w_posters sample_l1))" and "unat spent \<le> unat (300 :: u256)"
    and "unat (w_total v') + unat pay = unat (w_total sample_l1) + unat spent"
    and "unat (w_fees v') + unat reward + unat pay = unat (w_fees sample_l1)"
    and "\<forall>b. b \<noteq> 200 \<longrightarrow> w_due v' b = w_due sample_l1 b" and "w_fees v' = 0 \<or> w_due v' 200 = 0"
    using spending_report_keeps_books [OF sample_l1_holds c(1) v(1) c(2) no_transfer_ok c(3) v(2-4), of 7, unfolded v(9)]
    by (elim exE conjE) (rule that; (intro conjI)?; assumption)
  then show ?thesis
    by (intro exI [of _ st'] exI [of _ v'] exI [of _ spent] exI [of _ reward] exI [of _ pay])
      (simp add: v insert_commute)
qed

end
