(* ===== verification/Messages.thy ===== *)
theory Messages
  imports Util
begin

text \<open>
  Messages that arrive from L1 (arbos_types/incoming_message.rs): their header, the serialised form, the
  message that starts the chain, and the fields of a batch posting report. Parsing runs over the bytes that are
  left; every \<open>io::Error\<close> of the source is a value of \<open>message_error\<close>.
\<close>

section \<open>Reading\<close>

datatype message_error = ME_Io io_error | ME_Invalid string

type_synonym 'a parser = "(bytes, 'a, message_error) comp"

definition reading :: "'a reader \<Rightarrow> 'a parser" where
  "reading rd r = (case rd r of Ok (x, r') \<Rightarrow> (Ok x, r') | Err e \<Rightarrow> (Err (ME_Io e), r) | Panic \<Rightarrow> (Panic, r))"

definition read_to_end :: "bytes parser" where
  "read_to_end r = (Ok r, [])"

text \<open>\<open>try_into\<close> to a \<open>u64\<close>.\<close>

definition to_u64 :: "string \<Rightarrow> u256 \<Rightarrow> u64 parser" where
  "to_u64 msg x = (if unat x < 2 ^ 64 then ret (ucast x) else throw (ME_Invalid msg))"

section \<open>Messages\<close>

record l1_header =
  kind :: u8
  poster :: address
  block_number :: u64
  timestamp :: u64
  request_id :: "u256 option"
  l1_base_fee :: "u256 option"

record batch_data_stats =
  bds_length :: u64
  non_zeros :: u64

record l1_message =
  header :: l1_header
  l2_msg :: bytes
  batch_gas_left :: "u64 option"

record parsed_init_message =
  chain_id :: u256
  initial_l1_base_fee :: u256
  serialized_chain_config :: bytes

record batch_report_fields =
  batch_timestamp :: u64
  batch_poster :: address
  data_hash :: u256
  batch_number :: u64
  l1_base_fee_estimate :: u256
  extra_gas :: u64

definition seq_num :: "l1_header \<Rightarrow> u64 option" where
  "seq_num h = map_option (\<lambda>i. from_be (drop 24 (be_bytes 32 i))) (request_id h)"

definition msg_serialize :: "l1_message \<Rightarrow> bytes" where
  "msg_serialize m =
     [kind (header m)] @ (replicate 12 0 @ be_bytes 20 (poster (header m))) @
     be_bytes 8 (block_number (header m)) @ be_bytes 8 (timestamp (header m)) @
     (case request_id (header m) of Some i \<Rightarrow> be_bytes 32 i | None \<Rightarrow> replicate 32 0) @
     (case l1_base_fee (header m) of Some fee \<Rightarrow> be_bytes 32 fee | None \<Rightarrow> replicate 32 0) @
     l2_msg m"

definition parse_incoming_l1_message :: "bytes \<Rightarrow> (l1_message, message_error) result" where
  "parse_incoming_l1_message data =
     (if data = [] then Err (ME_Invalid ''empty message'') else
      fst (bnd (reading (read_exact 1)) (\<lambda>kind_buf.
      bnd (reading address_from_256_from_reader) (\<lambda>pos.
      bnd (reading uint64_from_reader) (\<lambda>num.
      bnd (reading uint64_from_reader) (\<lambda>ts.
      bnd (reading hash_from_reader) (\<lambda>rid.
      bnd (reading uint256_from_reader) (\<lambda>fee.
      bnd read_to_end (\<lambda>msg.
      ret \<lparr>header = \<lparr>kind = hd kind_buf, poster = pos, block_number = num, timestamp = ts,
             request_id = (if rid = 0 then None else Some rid),
             l1_base_fee = (if fee = 0 then None else Some fee)\<rparr>,
           l2_msg = msg, batch_gas_left = None\<rparr>))))))) data))"

definition parse_init_message :: "bytes \<Rightarrow> (parsed_init_message, message_error) result" where
  "parse_init_message data =
     (if length data = 32 then
        Ok \<lparr>chain_id = from_be data, initial_l1_base_fee = 50000000000, serialized_chain_config = []\<rparr>
      else if length data < 33 then Err (ME_Invalid ''invalid init message length'')
      else if data ! 32 = 0 then
        Ok \<lparr>chain_id = from_be (take 32 data), initial_l1_base_fee = 50000000000, serialized_chain_config = drop 33 data\<rparr>
      else if data ! 32 = 1 then
        fst (bnd (reading uint256_from_reader) (\<lambda>fee.
             bnd read_to_end (\<lambda>config.
             ret \<lparr>chain_id = from_be (take 32 data), initial_l1_base_fee = fee, serialized_chain_config = config\<rparr>)) (drop 33 data))
      else Err (ME_Invalid ''unsupported init message version''))"

definition get_data_stats :: "bytes \<Rightarrow> batch_data_stats" where
  "get_data_stats data = \<lparr>bds_length = of_nat (length data), non_zeros = of_nat (length (filter (\<lambda>b. b \<noteq> 0) data))\<rparr>"

definition legacy_cost_for_stats :: "batch_data_stats \<Rightarrow> u64" where
  "legacy_cost_for_stats stats =
     (let zeros = sat_sub (bds_length stats) (non_zeros stats);
          gas = zeros * 4 + non_zeros stats * 16;
          keccak_words = bds_length stats div 32 + (if bds_length stats mod 32 = 0 then 0 else 1) in
      gas + (30 + keccak_words * 6) + 2 * 20000)"

text \<open>The last field may be missing: reading at the end of the data gives zero.\<close>

definition read_extra_gas :: "u64 parser" where
  "read_extra_gas r = (case uint64_from_reader r of
      Ok (v, r') \<Rightarrow> (Ok v, r')
    | Err e \<Rightarrow> (if e = UnexpectedEof then Ok 0 else Err (ME_Io e), r)
    | Panic \<Rightarrow> (Panic, r))"

definition parse_batch_posting_report_fields :: "bytes \<Rightarrow> (batch_report_fields, message_error) result" where
  "parse_batch_posting_report_fields data =
     fst (bnd (reading uint256_from_reader) (\<lambda>ts256.
     bnd (to_u64 ''batch timestamp too large'' ts256) (\<lambda>ts.
     bnd (reading address_from_reader) (\<lambda>pos.
     bnd (reading hash_from_reader) (\<lambda>hash.
     bnd (reading uint256_from_reader) (\<lambda>num256.
     bnd (to_u64 ''batch number too large'' num256) (\<lambda>num.
     bnd (reading uint256_from_reader) (\<lambda>fee.
     bnd read_extra_gas (\<lambda>gas.
     ret \<lparr>batch_timestamp = ts, batch_poster = pos, data_hash = hash, batch_number = num,
          l1_base_fee_estimate = fee, extra_gas = gas\<rparr>)))))))) data)"

definition past_batches_required :: "l1_message \<Rightarrow> (u64 list, message_error) result" where
  "past_batches_required m =
     (if kind (header m) \<noteq> 13 then Ok []
      else case parse_batch_posting_report_fields (l2_msg m) of
          Ok f \<Rightarrow> Ok [batch_number f] | Err e \<Rightarrow> Err e | Panic \<Rightarrow> Panic)"

section \<open>Reading what was written\<close>

lemma reading_be:
  "reading hash_from_reader (be_bytes 32 h @ r) = (Ok h, r)"
  "reading uint256_from_reader (be_bytes 32 h @ r) = (Ok h, r)"
  "reading address_from_reader (be_bytes 20 a @ r) = (Ok a, r)"
  "reading uint64_from_reader (be_bytes 8 n @ r) = (Ok n, r)"
  by (simp_all add: reading_def hash_from_reader_def uint256_from_reader_def address_from_reader_def uint64_from_reader_def
      map_reader_def read_exact_def from_be_bytes)

lemma reading_address_256: "reading address_from_256_from_reader (replicate 12 0 @ be_bytes 20 a @ r) = (Ok a, r)"
proof -
  have "from_be (drop 12 (be_bytes 32 v)) = (ucast v :: address)" for v :: u256
    using drop_be_bytes [of 12 20 v] by (simp add: from_be_truncated)
  moreover have "(from_be (replicate 12 0 @ be_bytes 20 a) :: u256) = ucast a"
    by (simp add: from_be_padded)
  ultimately show ?thesis
    by (simp add: reading_def address_from_256_from_reader_def hash_from_reader_def map_reader_def read_exact_def ucast_down_up)
qed

lemma reading_zero: "reading hash_from_reader (replicate 32 0 @ r) = (Ok 0, r)" "reading uint256_from_reader (replicate 32 0 @ r) = (Ok 0, r)"
  using reading_be(1,2) [of 0 r] by (simp_all add: be_bytes_zero)

lemmas reading_simps = reading_be reading_address_256 reading_zero read_to_end_def

section \<open>What a parser may return\<close>

text \<open>A parser never panics, and what it returns meets \<open>P\<close>.\<close>

definition yields :: "('a \<Rightarrow> bool) \<Rightarrow> 'a parser \<Rightarrow> bool" where
  "yields P m \<longleftrightarrow> (\<forall>r. fst (m r) \<noteq> Panic \<and> (\<forall>x. fst (m r) = Ok x \<longrightarrow> P x))"

named_theorems yields_rules

lemma yields_bnd [yields_rules]: "yields (\<lambda>_. True) m \<Longrightarrow> (\<And>x. yields P (f x)) \<Longrightarrow> yields P (bnd m f)"
  by (auto simp: yields_def bnd_def split: prod.splits result.splits) (metis fst_conv)+

lemma yields_steps [yields_rules]:
  "P x \<Longrightarrow> yields P (ret x)" "yields P (throw e)" "yields (\<lambda>_. True) read_to_end" "yields (\<lambda>_. True) (to_u64 msg y)"
  "yields (\<lambda>_. True) (reading hash_from_reader)" "yields (\<lambda>_. True) (reading uint256_from_reader)"
  "yields (\<lambda>_. True) (reading address_from_reader)" "yields (\<lambda>_. True) (reading address_from_256_from_reader)"
  "yields (\<lambda>_. True) (reading uint64_from_reader)" "yields (\<lambda>_. True) read_extra_gas"
  by (auto simp: yields_def ret_run throw_run read_to_end_def to_u64_def reading_def hash_from_reader_def uint256_from_reader_def
      address_from_reader_def address_from_256_from_reader_def uint64_from_reader_def read_extra_gas_def map_reader_def
      read_exact_def split: result.split)

lemma yieldsD: "yields P m \<Longrightarrow> fst (m r) \<noteq> Panic" "yields P m \<Longrightarrow> fst (m r) = Ok x \<Longrightarrow> P x"
  by (simp_all add: yields_def)

section \<open>The serialised form\<close>

lemma reading_split:
  "reading hash_from_reader r = (Ok h, r') \<Longrightarrow> r = be_bytes 32 h @ r'"
  "reading uint256_from_reader r = (Ok h, r') \<Longrightarrow> r = be_bytes 32 h @ r'"
  "reading uint64_from_reader r = (Ok n, r') \<Longrightarrow> r = be_bytes 8 n @ r'"
  using be_bytes_from_be [of "take 32 r", where 'a = 256] be_bytes_from_be [of "take 8 r", where 'a = 64]
  by (auto simp: reading_def hash_from_reader_def uint256_from_reader_def uint64_from_reader_def map_reader_def read_exact_def
      split: result.splits if_splits)

lemma reading_address_split:
  assumes "reading address_from_256_from_reader r = (Ok a, r')"
  shows "\<exists>pad. length pad = 12 \<and> r = pad @ be_bytes 20 a @ r'"
proof -
  obtain h where h: "reading hash_from_reader r = (Ok h, r')" and a: "a = from_be (drop 12 (be_bytes 32 h))"
    using assms by (auto simp: reading_def address_from_256_from_reader_def map_reader_def split: result.splits)
  have "be_bytes 20 a = drop 12 (be_bytes 32 h)"
    using be_bytes_from_be [of "drop 12 (be_bytes 32 h)", where 'a = 160] by (simp add: a)
  then have "be_bytes 32 h = take 12 (be_bytes 32 h) @ be_bytes 20 a"
    by simp
  then show ?thesis
    using reading_split(1) [OF h] by (intro exI [of _ "take 12 (be_bytes 32 h)"]) simp
qed

lemma bnd_fst_OkE:
  assumes "fst (bnd m f r) = Ok y"
  obtains x r' where "m r = (Ok x, r')" and "fst (f x r') = Ok y"
  using assms by (auto simp: bnd_def split: prod.splits result.splits)

lemma parse_incoming_split:
  assumes "parse_incoming_l1_message data = Ok m"
  shows "\<exists>pad. length pad = 12 \<and> batch_gas_left m = None \<and> request_id (header m) \<noteq> Some 0 \<and> l1_base_fee (header m) \<noteq> Some 0 \<and>
    data = [kind (header m)] @ pad @ drop 13 (msg_serialize m)"
proof -
  have ne: "data \<noteq> []" using assms by (auto simp: parse_incoming_l1_message_def)
  then have kind: "reading (read_exact 1) data = (Ok [hd data], tl data)"
    by (cases data) (simp_all add: reading_def read_exact_def)
  obtain pos num ts rid fee msg r1 r2 r3 r4 where
    pos: "reading address_from_256_from_reader (tl data) = (Ok pos, r1)" and num: "reading uint64_from_reader r1 = (Ok num, r2)"
    and ts: "reading uint64_from_reader r2 = (Ok ts, r3)" and rid: "reading hash_from_reader r3 = (Ok rid, r4)"
    and fee: "reading uint256_from_reader r4 = (Ok fee, msg)"
    and m: "m = \<lparr>header = \<lparr>kind = hd data, poster = pos, block_number = num, timestamp = ts,
        request_id = (if rid = 0 then None else Some rid), l1_base_fee = (if fee = 0 then None else Some fee)\<rparr>,
        l2_msg = msg, batch_gas_left = None\<rparr>"
    using assms ne kind unfolding parse_incoming_l1_message_def
    by (auto elim!: bnd_fst_OkE simp: read_to_end_def ret_run)
  obtain pad where pad: "length pad = 12" "tl data = pad @ be_bytes 20 pos @ r1" using reading_address_split [OF pos] by blast
  have "r1 = be_bytes 8 num @ be_bytes 8 ts @ be_bytes 32 rid @ be_bytes 32 fee @ msg"
    using reading_split(3) [OF num] reading_split(3) [OF ts] reading_split(1) [OF rid] reading_split(2) [OF fee] by simp
  then have "data = [kind (header m)] @ pad @ drop 13 (msg_serialize m)"
    using pad ne by (cases data) (simp_all add: m msg_serialize_def be_bytes_zero)
  then show ?thesis using pad(1) by (auto simp: m)
qed

text \<open>
  C17: a message that is written and read back is the same message, except that a request id or base fee of zero
  reads as none and the gas of the batch is not carried. What can be read is what was written, up to the twelve
  bytes before the poster's address, so no message is read from fewer than 113 bytes, and reading never panics.
\<close>

theorem incoming_message_round_trip:
  "parse_incoming_l1_message (msg_serialize m) =
     Ok (m\<lparr>header := (header m)\<lparr>request_id := (if request_id (header m) = Some 0 then None else request_id (header m)),
           l1_base_fee := (if l1_base_fee (header m) = Some 0 then None else l1_base_fee (header m))\<rparr>,
         batch_gas_left := None\<rparr>) \<and>
   (parse_incoming_l1_message data = Ok m' \<longrightarrow>
      msg_serialize m' = take 1 data @ replicate 12 0 @ drop 13 data \<and> 113 \<le> length data) \<and>
   parse_incoming_l1_message data \<noteq> Panic"
proof (intro conjI impI)
  have "reading (read_exact 1) (x # r) = (Ok [x], r)" for x r
    by (simp add: reading_def read_exact_def)
  then show "parse_incoming_l1_message (msg_serialize m) =
     Ok (m\<lparr>header := (header m)\<lparr>request_id := (if request_id (header m) = Some 0 then None else request_id (header m)),
           l1_base_fee := (if l1_base_fee (header m) = Some 0 then None else l1_base_fee (header m))\<rparr>,
         batch_gas_left := None\<rparr>)"
    by (cases "header m"; cases "request_id (header m)"; cases "l1_base_fee (header m)")
      (simp_all add: parse_incoming_l1_message_def msg_serialize_def bnd_def reading_simps ret_run)
  assume ok: "parse_incoming_l1_message data = Ok m'"
  obtain pad where pad: "length pad = 12" and data: "data = [kind (header m')] @ pad @ drop 13 (msg_serialize m')"
    using parse_incoming_split [OF ok] by blast
  have len: "113 \<le> length (msg_serialize m')"
    by (simp add: msg_serialize_def split: option.split)
  have "msg_serialize m' = [kind (header m')] @ replicate 12 0 @ drop 13 (msg_serialize m')"
    by (simp add: msg_serialize_def)
  moreover have "drop 13 data = drop 13 (msg_serialize m')" and "take 1 data = [kind (header m')]"
    using pad by (subst data; simp)+
  ultimately show "msg_serialize m' = take 1 data @ replicate 12 0 @ drop 13 data" by simp
  have "length data = 13 + (length (msg_serialize m') - 13)" by (subst data) (simp add: pad)
  then show "113 \<le> length data" using len by simp
next
  have "yields (\<lambda>_. True) (reading (read_exact 1))"
    by (simp add: yields_def reading_def read_exact_def)
  then show "parse_incoming_l1_message data \<noteq> Panic"
    unfolding parse_incoming_l1_message_def
    by (auto intro!: yieldsD(1) [of "\<lambda>_. True"] yields_rules)
qed

lemma incoming_message_round_trip_witness:
  "\<exists>m. parse_incoming_l1_message ([3] @ replicate 12 255 @ replicate 100 7 @ [1, 2]) = Ok m \<and>
     msg_serialize m = [3] @ replicate 12 0 @ replicate 100 7 @ [1, 2]"
proof -
  let ?data = "[3] @ replicate 12 255 @ replicate 100 7 @ [1, 2] :: bytes"
  have "\<exists>m. parse_incoming_l1_message ?data = Ok m"
    by (simp add: parse_incoming_l1_message_def bnd_def reading_def read_exact_def map_reader_def ret_run read_to_end_def
        address_from_256_from_reader_def uint64_from_reader_def hash_from_reader_def uint256_from_reader_def)
  then obtain m where m: "parse_incoming_l1_message ?data = Ok m" ..
  moreover have "take 1 ?data @ replicate 12 0 @ drop 13 ?data = [3] @ replicate 12 0 @ replicate 100 7 @ [1, 2]"
    by simp
  ultimately show ?thesis using incoming_message_round_trip [of m ?data m] by auto
qed

end
