(* ===== verification/Parse_L2.thy ===== *)
theory Parse_L2
  imports Messages
begin

text \<open>
  Parsing of L1 messages into transactions (parse_l2.rs). Nested batches are parsed by the recursion of the source:
  a message of kind 3 reads segments until no further one can be read and parses each of them one level deeper.
  Decoding a signed transaction envelope is a parameter: \<open>decode_2718\<close> of the transaction crate and the type
  byte of the result.
\<close>

section \<open>Transactions\<close>

record 'tx codec =
  decode_2718 :: "bytes \<Rightarrow> 'tx option"
  ty :: "'tx \<Rightarrow> u8"

datatype parsed_transaction =
    Signed bytes
  | UnsignedUserTx (pt_from: address) (pt_to: "address option") (pt_value: u256) (pt_gas: u64) (gas_fee_cap: u256)
      (pt_nonce: u64) (pt_data: bytes)
  | ContractTx (pt_from: address) (pt_to: "address option") (pt_value: u256) (pt_gas: u64) (gas_fee_cap: u256)
      (pt_data: bytes) (pt_request_id: u256)
  | EthDeposit (pt_from: address) (deposit_to: address) (pt_value: u256) (pt_request_id: u256)
  | SubmitRetryable (pt_request_id: u256) (pt_l1_base_fee: u256) (deposit: u256) (callvalue: u256)
      (gas_feature_cap: u256) (gas_limit: u64) (max_submission_fee: u256) (pt_from: address) (pt_to: "address option")
      (fee_refund_addr: address) (pt_beneficiary: address) (pt_data: bytes)
  | BatchPostingReport u64 address u256 u64 u256 u64
  | InternalStartBlock u64 u64

definition parse_unsigned_tx :: "bytes \<Rightarrow> address \<Rightarrow> u256 option \<Rightarrow> u8 \<Rightarrow> (parsed_transaction, message_error) result" where
  "parse_unsigned_tx data pos rid k =
     fst (bnd (reading uint256_from_reader) (\<lambda>gas256.
     bnd (to_u64 ''unsigned user tx gas limit >= 2^64'' gas256) (\<lambda>gas.
     bnd (reading uint256_from_reader) (\<lambda>max_fee.
     bnd (if k = 0 then bnd (reading uint256_from_reader) (to_u64 ''unsigned user tx nonce >= 2^64'') else ret 0) (\<lambda>nonce.
     bnd (reading address_from_256_from_reader) (\<lambda>to.
     let dest = (if to = 0 then None else Some to) in
     bnd (reading uint256_from_reader) (\<lambda>val.
     bnd read_to_end (\<lambda>calldata.
     if k = 0 then ret (UnsignedUserTx pos dest val gas max_fee nonce calldata)
     else if k = 1 then
       (case rid of
          None \<Rightarrow> throw (ME_Invalid ''cannot issue contract tx without L1 request id'')
        | Some req_id \<Rightarrow> ret (ContractTx pos dest val gas max_fee calldata req_id))
     else throw (ME_Invalid ''invalid L2 tx type in parseUnsignedTx'')))))))) data)"

definition sub_request_id :: "keccak \<Rightarrow> u64 \<Rightarrow> u256 \<Rightarrow> u256" where
  "sub_request_id H index parent_id = H (be_bytes 32 parent_id @ be_bytes 32 (ucast index :: u256))"

definition parse_signed_tx :: "'tx codec \<Rightarrow> bytes \<Rightarrow> (parsed_transaction list, message_error) result" where
  "parse_signed_tx C payload =
     (case decode_2718 C payload of
        Some tx \<Rightarrow> if 0x64 \<le> ty C tx \<or> ty C tx = 3 then Err (ME_Invalid ''unsupported tx type'') else Ok [Signed payload]
      | None \<Rightarrow> Err (ME_Invalid ''failed to decode signed transaction''))"

definition one_tx :: "(parsed_transaction, message_error) result \<Rightarrow> (parsed_transaction list, message_error) result" where
  "one_tx r = (case r of Ok tx \<Rightarrow> Ok [tx] | Err e \<Rightarrow> Err e | Panic \<Rightarrow> Panic)"

section \<open>Messages and batches\<close>

declare result.case_cong [fundef_cong] prod.case_cong [fundef_cong]

lemma bytestring_consumes:
  "bytestring_from_reader m r = Ok (seg, r') \<Longrightarrow> length r = 8 + length seg + length r'"
  by (auto simp: bytestring_from_reader_def uint64_from_reader_def map_reader_def read_exact_def split: result.splits if_splits)

function parse_l2_message :: "'tx codec \<Rightarrow> keccak \<Rightarrow> bytes \<Rightarrow> address \<Rightarrow> u256 option \<Rightarrow> u32
    \<Rightarrow> (parsed_transaction list, message_error) result"
  and parse_l2_batch :: "'tx codec \<Rightarrow> keccak \<Rightarrow> bytes \<Rightarrow> address \<Rightarrow> u256 option \<Rightarrow> u32 \<Rightarrow> u64 \<Rightarrow> parsed_transaction list
    \<Rightarrow> (parsed_transaction list, message_error) result" where
  "parse_l2_message C H data pos rid depth =
     (case data of
        [] \<Rightarrow> Err (ME_Io UnexpectedEof)
      | k # payload \<Rightarrow>
          if k = 7 then Err (ME_Invalid ''L2 message kind SignedCompressedTx is unimplemented'')
          else if k = 4 then parse_signed_tx C payload
          else if k = 0 then one_tx (parse_unsigned_tx payload pos rid k)
          else if k = 1 then one_tx (parse_unsigned_tx payload pos rid k)
          else if k = 3 then
            (if 16 \<le> depth then Err (ME_Invalid ''L2 message batches have a max depth of 16'')
             else parse_l2_batch C H payload pos rid depth 0 [])
          else if k = 6 then Ok []
          else if k = 2 then Err (ME_Invalid ''L2 message kind NonmutatingCall is unimplemented'')
          else Err (ME_Invalid ''unknown L2 message kind''))"
| "parse_l2_batch C H r pos rid depth index txs =
     (case bytestring_from_reader (256 * 1024) r of
        Ok (segment, r') \<Rightarrow>
          if 256 * 1024 < length segment then Ok txs else
          (case parse_l2_message C H segment pos (map_option (sub_request_id H index) rid) (depth + 1) of
             Ok sub_txs \<Rightarrow> parse_l2_batch C H r' pos rid depth (index + 1) (txs @ sub_txs)
           | Err e \<Rightarrow> Err e
           | Panic \<Rightarrow> Panic)
      | Err e \<Rightarrow> Ok txs
      | Panic \<Rightarrow> Panic)"
  by pat_completeness auto
termination
  by (relation "measure (case_sum (\<lambda>(C, H, d, _). length d) (\<lambda>(C, H, r, _). length r))")
    (auto dest: bytestring_consumes)

declare parse_l2_message.simps [simp del] parse_l2_batch.simps [simp del]

section \<open>Messages of the other kinds\<close>

definition parse_l2_funded_by_l1 :: "keccak \<Rightarrow> bytes \<Rightarrow> address \<Rightarrow> u256 \<Rightarrow> (parsed_transaction list, message_error) result" where
  "parse_l2_funded_by_l1 H data pos rid =
     (case data of
        [] \<Rightarrow> Err (ME_Invalid ''L2FundedByL1 message has no data'')
      | k # payload \<Rightarrow>
          let deposit_request_id = H (be_bytes 32 rid @ replicate 32 0);
              unsigned_request_id = H (be_bytes 32 rid @ replicate 31 0 @ [1]) in
          case parse_unsigned_tx payload pos (Some unsigned_request_id) k of
            Ok tx \<Rightarrow>
              let tx_value = (case tx of UnsignedUserTx _ _ v _ _ _ _ \<Rightarrow> v | ContractTx _ _ v _ _ _ _ \<Rightarrow> v | _ \<Rightarrow> 0) in
              Ok [EthDeposit 0 pos tx_value deposit_request_id, tx]
          | Err e \<Rightarrow> Err e
          | Panic \<Rightarrow> Panic)"

definition parse_eth_deposit_message :: "bytes \<Rightarrow> address \<Rightarrow> u256 \<Rightarrow> (parsed_transaction list, message_error) result" where
  "parse_eth_deposit_message data pos rid =
     fst (bnd (reading address_from_reader) (\<lambda>to.
     bnd (reading uint256_from_reader) (\<lambda>val.
     ret [EthDeposit pos to val rid])) data)"

text \<open>One call of \<open>read\<close> on a buffer of zeros: what is left of the data, up to the size of the buffer.\<close>

definition read_into :: "nat \<Rightarrow> bytes parser" where
  "read_into n r = (if 0 < n \<and> r = [] then (Err (ME_Io UnexpectedEof), r)
     else (Ok (take n r @ replicate (n - length r) 0), drop n r))"

definition parse_submit_retryable_message :: "bytes \<Rightarrow> address \<Rightarrow> u256 \<Rightarrow> u256 \<Rightarrow> (parsed_transaction list, message_error) result" where
  "parse_submit_retryable_message data pos rid base_fee =
     fst (bnd (reading address_from_256_from_reader) (\<lambda>retry_to.
     bnd (reading uint256_from_reader) (\<lambda>cv.
     bnd (reading uint256_from_reader) (\<lambda>dep.
     bnd (reading uint256_from_reader) (\<lambda>max_fee.
     bnd (reading address_from_256_from_reader) (\<lambda>refund.
     bnd (reading address_from_256_from_reader) (\<lambda>ben.
     bnd (reading uint256_from_reader) (\<lambda>gas256.
     bnd (to_u64 ''gas limit too large'' gas256) (\<lambda>gas.
     bnd (reading uint256_from_reader) (\<lambda>fee_cap.
     bnd (reading hash_from_reader) (\<lambda>len256.
     bnd (to_u64 ''data length too large'' len256) (\<lambda>data_length.
     if 256 * 1024 < unat data_length then throw (ME_Invalid ''data length exceeds MAX_L2_MESSAGE_SIZE'') else
     bnd (read_into (unat data_length)) (\<lambda>calldata.
     ret [SubmitRetryable rid base_fee dep cv fee_cap gas max_fee pos (if retry_to = 0 then None else Some retry_to)
            refund ben calldata])))))))))))) data)"

definition parse_batch_posting_report :: "bytes \<Rightarrow> (parsed_transaction list, message_error) result" where
  "parse_batch_posting_report data =
     fst (bnd (reading uint256_from_reader) (\<lambda>ts256.
     bnd (to_u64 ''batch timestamp too large'' ts256) (\<lambda>ts.
     bnd (reading address_from_reader) (\<lambda>pos.
     bnd (reading hash_from_reader) (\<lambda>hash.
     bnd (reading uint256_from_reader) (\<lambda>num256.
     bnd (to_u64 ''batch number too large'' num256) (\<lambda>num.
     bnd (reading uint256_from_reader) (\<lambda>fee.
     bnd read_extra_gas (\<lambda>gas.
     ret [BatchPostingReport ts pos hash num fee gas])))))))) data)"

definition parse_l2_transactions :: "'tx codec \<Rightarrow> keccak \<Rightarrow> u8 \<Rightarrow> address \<Rightarrow> bytes \<Rightarrow> u256 option \<Rightarrow> u256 option
    \<Rightarrow> (parsed_transaction list, message_error) result" where
  "parse_l2_transactions C H k pos msg rid base_fee =
     (if 256 * 1024 < length msg then Err (ME_Invalid ''message too large'')
      else if k = 3 then parse_l2_message C H msg pos rid 0
      else if k = 6 then Ok []
      else if k = 7 then
        (case rid of None \<Rightarrow> Err (ME_Invalid ''cannot issue L2 funded by L1 tx without L1 request id'')
         | Some i \<Rightarrow> parse_l2_funded_by_l1 H msg pos i)
      else if k = 9 then
        (case rid of None \<Rightarrow> Err (ME_Invalid ''cannot issue submit retryable tx without L1 request id'')
         | Some i \<Rightarrow> parse_submit_retryable_message msg pos i (case base_fee of Some f \<Rightarrow> f | None \<Rightarrow> 0))
      else if k = 12 then
        (case rid of None \<Rightarrow> Err (ME_Invalid ''cannot issue deposit tx without L1 request id'')
         | Some i \<Rightarrow> parse_eth_deposit_message msg pos i)
      else if k = 13 then parse_batch_posting_report msg
      else if k = 10 then Err (ME_Invalid ''L1 message type BatchForGasEstimation is unimplemented'')
      else Ok [])"

section \<open>Conversion to transactions of the executor\<close>

text \<open>The typed transactions of the transaction crate that the conversion builds; a decoded envelope is kept as it is.
  The signature of a built transaction is the zero signature.\<close>

datatype arb_typed_tx =
    ArbUnsignedTx (tx_chain_id: u256) (tx_from: address) (tx_nonce: u64) (tx_gas_fee_cap: u256) (tx_gas: u64)
      (tx_to: "address option") (tx_value: u256) (tx_data: bytes)
  | ArbContractTx (tx_chain_id: u256) (tx_request_id: u256) (tx_from: address) (tx_gas_fee_cap: u256) (tx_gas: u64)
      (tx_to: "address option") (tx_value: u256) (tx_data: bytes)
  | ArbDepositTx (tx_chain_id: u256) (tx_request_id: u256) (tx_from: address) (tx_deposit_to: address) (tx_value: u256)
  | ArbSubmitRetryableTx (tx_chain_id: u256) (tx_request_id: u256) (tx_from: address) (tx_l1_base_fee: u256)
      (deposit_value: u256) (tx_gas_fee_cap: u256) (tx_gas: u64) (tx_to: "address option") (retry_value: u256)
      (tx_beneficiary: address) (tx_max_submission_fee: u256) (tx_fee_refund_addr: address) (tx_data: bytes)

definition parsed_tx_to_signed :: "'tx codec \<Rightarrow> parsed_transaction \<Rightarrow> u64 \<Rightarrow> ('tx + arb_typed_tx) option" where
  "parsed_tx_to_signed C parsed chain =
     (case parsed of
        Signed rlp_bytes \<Rightarrow> map_option Inl (decode_2718 C rlp_bytes)
      | UnsignedUserTx from to val gas fee_cap n data \<Rightarrow>
          Some (Inr (ArbUnsignedTx (ucast chain) from n fee_cap gas to val data))
      | ContractTx from to val gas fee_cap data rid \<Rightarrow>
          Some (Inr (ArbContractTx (ucast chain) rid from fee_cap gas to val data))
      | EthDeposit from to val rid \<Rightarrow> Some (Inr (ArbDepositTx (ucast chain) rid from to val))
      | SubmitRetryable rid base_fee dep cv fee_cap gas max_fee from to refund ben data \<Rightarrow>
          Some (Inr (ArbSubmitRetryableTx (ucast chain) rid from base_fee dep fee_cap gas to cv ben max_fee refund data))
      | BatchPostingReport _ _ _ _ _ _ \<Rightarrow> None
      | InternalStartBlock _ _ \<Rightarrow> None)"

section \<open>The transactions of a message\<close>

text \<open>What a parsed transaction may be: a decodable envelope of an ordinary type, or a transaction from the poster,
  a deposit also from the zero address.\<close>

definition well_formed_tx :: "'tx codec \<Rightarrow> address \<Rightarrow> parsed_transaction \<Rightarrow> bool" where
  "well_formed_tx C pos tx \<longleftrightarrow>
     (case tx of
        Signed raw \<Rightarrow> (case decode_2718 C raw of Some t \<Rightarrow> ty C t < 0x64 \<and> ty C t \<noteq> 3 | None \<Rightarrow> False)
      | EthDeposit from _ _ _ \<Rightarrow> from = pos \<or> from = 0
      | BatchPostingReport _ _ _ _ _ _ \<Rightarrow> False
      | InternalStartBlock _ _ \<Rightarrow> False
      | _ \<Rightarrow> pt_from tx = pos)"

lemma well_formed_simps [simp]:
  "well_formed_tx C pos (UnsignedUserTx pos to val gas cap n d)" "well_formed_tx C pos (ContractTx pos to val gas cap d r)"
  "well_formed_tx C pos (EthDeposit from a val r) \<longleftrightarrow> from = pos \<or> from = 0"
  "well_formed_tx C pos (SubmitRetryable r b dep cv cap gas fee pos to ref ben d)"
  by (simp_all add: well_formed_tx_def)

lemma unsigned_yields:
  shows "parse_unsigned_tx data pos rid k \<noteq> Panic" and "parse_unsigned_tx data pos rid k = Ok tx \<Longrightarrow> well_formed_tx C pos tx"
proof -
  have "yields (\<lambda>tx. well_formed_tx C pos tx)
     (bnd (reading uint256_from_reader) (\<lambda>gas256.
     bnd (to_u64 ''unsigned user tx gas limit >= 2^64'' gas256) (\<lambda>gas.
     bnd (reading uint256_from_reader) (\<lambda>max_fee.
     bnd (if k = 0 then bnd (reading uint256_from_reader) (to_u64 ''unsigned user tx nonce >= 2^64'') else ret 0) (\<lambda>nonce.
     bnd (reading address_from_256_from_reader) (\<lambda>to.
     let dest = (if to = 0 then None else Some to) in
     bnd (reading uint256_from_reader) (\<lambda>val.
     bnd read_to_end (\<lambda>calldata.
     if k = 0 then ret (UnsignedUserTx pos dest val gas max_fee nonce calldata)
     else if k = 1 then
       (case rid of
          None \<Rightarrow> throw (ME_Invalid ''cannot issue contract tx without L1 request id'')
        | Some req_id \<Rightarrow> ret (ContractTx pos dest val gas max_fee calldata req_id))
     else throw (ME_Invalid ''invalid L2 tx type in parseUnsignedTx'')))))))))"
    unfolding Let_def
    by (cases "k = 0"; cases "k = 1"; cases rid; simp only: if_True if_False option.case one_neq_zero zero_neq_one simp_thms)
      (intro yields_rules; simp)+
  note y = yieldsD [OF this]
  show "parse_unsigned_tx data pos rid k \<noteq> Panic"
    unfolding parse_unsigned_tx_def by (rule y)
  show "parse_unsigned_tx data pos rid k = Ok tx \<Longrightarrow> well_formed_tx C pos tx"
    unfolding parse_unsigned_tx_def by (rule y)
qed

lemma signed_yields:
  "parse_signed_tx C payload \<noteq> Panic"
  "parse_signed_tx C payload = Ok txs \<Longrightarrow> length txs = 1 \<and> (\<forall>tx \<in> set txs. well_formed_tx C pos tx)"
  by (auto simp: parse_signed_tx_def well_formed_tx_def not_le split: option.splits if_splits)

lemma one_tx_yields:
  assumes "r \<noteq> Panic" and "\<And>tx. r = Ok tx \<Longrightarrow> P tx"
  shows "one_tx r \<noteq> Panic \<and> (\<forall>txs. one_tx r = Ok txs \<longrightarrow> length txs = 1 \<and> (\<forall>tx \<in> set txs. P tx))"
  using assms by (cases r) (auto simp: one_tx_def)

lemma bytestring_no_panic: "bytestring_from_reader m r \<noteq> Panic"
  by (auto simp: bytestring_from_reader_def uint64_from_reader_def map_reader_def read_exact_def split: result.splits)

lemma parse_l2_batch_step:
  assumes "bytestring_from_reader (256 * 1024) r = Ok (seg, r')" and "length seg \<le> 256 * 1024"
  shows "parse_l2_batch C H r pos rid depth index acc =
    (case parse_l2_message C H seg pos (map_option (sub_request_id H index) rid) (depth + 1) of
       Ok sub \<Rightarrow> parse_l2_batch C H r' pos rid depth (index + 1) (acc @ sub) | Err e \<Rightarrow> Err e | Panic \<Rightarrow> Panic)"
  using assms by (subst parse_l2_batch.simps) simp

lemma parse_l2_batch_stop: "bytestring_from_reader (256 * 1024) r = Err e \<Longrightarrow> parse_l2_batch C H r pos rid depth index acc = Ok acc"
  by (simp add: parse_l2_batch.simps)

lemma parse_l2_message_yields:
  "parse_l2_message C H data pos rid depth \<noteq> Panic \<and>
     (\<forall>txs. parse_l2_message C H data pos rid depth = Ok txs \<longrightarrow>
        length txs \<le> length data \<and> (\<forall>tx \<in> set txs. well_formed_tx C pos tx))"
  "parse_l2_batch C H r pos rid depth index acc \<noteq> Panic \<and>
     (\<forall>txs. parse_l2_batch C H r pos rid depth index acc = Ok txs \<longrightarrow>
        (\<exists>new. txs = acc @ new \<and> length new \<le> length r \<and> (\<forall>tx \<in> set new. well_formed_tx C pos tx)))"
proof (induction C H data pos rid depth and C H r pos rid depth index acc rule: parse_l2_message_parse_l2_batch.induct)
  case (1 C H data pos rid depth)
  show ?case
  proof (cases data)
    case Nil
    then show ?thesis by (simp add: parse_l2_message.simps)
  next
    case (Cons k payload)
    consider "k = 4" | "k = 0 \<or> k = 1" | "k = 3" "depth < 16" | "k \<noteq> 4" "k \<noteq> 0" "k \<noteq> 1" "\<not> (k = 3 \<and> depth < 16)"
      by blast
    then show ?thesis
    proof cases
      case 1
      then show ?thesis using Cons signed_yields [of C payload] by (auto simp: parse_l2_message.simps)
    next
      case 2
      then have "parse_l2_message C H data pos rid depth = one_tx (parse_unsigned_tx payload pos rid k)"
        using Cons by (auto simp: parse_l2_message.simps)
      then show ?thesis
        using Cons one_tx_yields [of "parse_unsigned_tx payload pos rid k" "well_formed_tx C pos", OF unsigned_yields(1) unsigned_yields(2)] by (auto simp: Suc_le_eq)
    next
      case 3
      then show ?thesis using 1 [OF Cons] Cons by (auto simp: parse_l2_message.simps not_le)
    next
      case 4
      then show ?thesis using Cons by (auto simp: parse_l2_message.simps)
    qed
  qed
next
  case (2 C H r pos rid depth index acc)
  show ?case
  proof (cases "bytestring_from_reader (256 * 1024) r")
    case (Ok p)
    obtain seg r' where p: "p = (seg, r')" by fastforce
    show ?thesis
    proof (cases "256 * 1024 < length seg")
      case True
      then show ?thesis using Ok p by (simp add: parse_l2_batch.simps)
    next
      case False
      note IH = 2 [OF Ok p False]
      have len: "length seg + length r' \<le> length r" using bytestring_consumes Ok p by fastforce
      note step = parse_l2_batch_step [OF Ok [unfolded p] leI [OF False], of C H pos rid depth index acc]
      show ?thesis
      proof (cases "parse_l2_message C H seg pos (map_option (sub_request_id H index) rid) (depth + 1)")
        case (Ok sub)
        then have s: "length sub \<le> length seg" "\<forall>tx \<in> set sub. well_formed_tx C pos tx" using IH(1) by auto
        have "\<exists>new. txs = acc @ new \<and> length new \<le> length r \<and> (\<forall>tx \<in> set new. well_formed_tx C pos tx)"
          if "parse_l2_batch C H r' pos rid depth (index + 1) (acc @ sub) = Ok txs" for txs
        proof -
          from that IH(2) [OF Ok] obtain new where "txs = (acc @ sub) @ new" "length new \<le> length r'"
            "\<forall>tx \<in> set new. well_formed_tx C pos tx" by blast
          then show ?thesis using s len by (intro exI [of _ "sub @ new"]) auto
        qed
        then show ?thesis using IH(2) [OF Ok] Ok unfolding step by simp
      next
        case (Err e)
        then show ?thesis unfolding step by simp
      next
        case Panic
        then show ?thesis using IH(1) by simp
      qed
    qed
  next
    case (Err e)
    then show ?thesis by (simp add: parse_l2_batch_stop)
  next
    case Panic
    then show ?thesis using bytestring_no_panic by metis
  qed
qed

lemma deposit_yields:
  "parse_eth_deposit_message data pos rid \<noteq> Panic"
  "parse_eth_deposit_message data pos rid = Ok txs \<Longrightarrow> length txs = 1 \<and> (\<forall>tx \<in> set txs. well_formed_tx C pos tx)"
proof -
  have y: "yields (\<lambda>txs. length txs = 1 \<and> (\<forall>tx \<in> set txs. well_formed_tx C pos tx))
     (bnd (reading address_from_reader) (\<lambda>to. bnd (reading uint256_from_reader) (\<lambda>val. ret [EthDeposit pos to val rid])))"
    by (intro yields_rules) simp
  show "parse_eth_deposit_message data pos rid \<noteq> Panic"
    "parse_eth_deposit_message data pos rid = Ok txs \<Longrightarrow> length txs = 1 \<and> (\<forall>tx \<in> set txs. well_formed_tx C pos tx)"
    unfolding parse_eth_deposit_message_def by (rule yieldsD [OF y])+
qed

lemma report_yields: "parse_batch_posting_report data \<noteq> Panic"
  and report_length: "parse_batch_posting_report data = Ok txs \<Longrightarrow> length txs = 1"
proof -
  have y: "yields (\<lambda>txs. length txs = 1)
     (bnd (reading uint256_from_reader) (\<lambda>ts256.
     bnd (to_u64 ''batch timestamp too large'' ts256) (\<lambda>ts.
     bnd (reading address_from_reader) (\<lambda>pos.
     bnd (reading hash_from_reader) (\<lambda>hash.
     bnd (reading uint256_from_reader) (\<lambda>num256.
     bnd (to_u64 ''batch number too large'' num256) (\<lambda>num.
     bnd (reading uint256_from_reader) (\<lambda>fee.
     bnd read_extra_gas (\<lambda>gas.
     ret [BatchPostingReport ts pos hash num fee gas])))))))))"
    by (intro yields_rules) simp
  show "parse_batch_posting_report data \<noteq> Panic" "parse_batch_posting_report data = Ok txs \<Longrightarrow> length txs = 1"
    unfolding parse_batch_posting_report_def by (rule yieldsD [OF y])+
qed

lemma read_into_yields [yields_rules]: "yields (\<lambda>_. True) (read_into n)"
  by (simp add: yields_def read_into_def)

lemma retryable_yields:
  "parse_submit_retryable_message data pos rid fee \<noteq> Panic"
  "parse_submit_retryable_message data pos rid fee = Ok txs \<Longrightarrow> length txs = 1 \<and> (\<forall>tx \<in> set txs. well_formed_tx C pos tx)"
proof -
  have if_yields: "(\<not> b \<Longrightarrow> yields P m) \<Longrightarrow> yields P (if b then throw e else m)" for P b e and m :: "'x parser"
    by (simp add: yields_rules)
  have y: "yields (\<lambda>txs. length txs = 1 \<and> (\<forall>tx \<in> set txs. well_formed_tx C pos tx))
     (bnd (reading address_from_256_from_reader) (\<lambda>retry_to.
     bnd (reading uint256_from_reader) (\<lambda>cv.
     bnd (reading uint256_from_reader) (\<lambda>dep.
     bnd (reading uint256_from_reader) (\<lambda>max_fee.
     bnd (reading address_from_256_from_reader) (\<lambda>refund.
     bnd (reading address_from_256_from_reader) (\<lambda>ben.
     bnd (reading uint256_from_reader) (\<lambda>gas256.
     bnd (to_u64 ''gas limit too large'' gas256) (\<lambda>gas.
     bnd (reading uint256_from_reader) (\<lambda>fee_cap.
     bnd (reading hash_from_reader) (\<lambda>len256.
     bnd (to_u64 ''data length too large'' len256) (\<lambda>data_length.
     if 256 * 1024 < unat data_length then throw (ME_Invalid ''data length exceeds MAX_L2_MESSAGE_SIZE'') else
     bnd (read_into (unat data_length)) (\<lambda>calldata.
     ret [SubmitRetryable rid fee dep cv fee_cap gas max_fee pos (if retry_to = 0 then None else Some retry_to)
            refund ben calldata])))))))))))))"
    by (intro yields_rules if_yields) simp
  show "parse_submit_retryable_message data pos rid fee \<noteq> Panic"
    "parse_submit_retryable_message data pos rid fee = Ok txs \<Longrightarrow> length txs = 1 \<and> (\<forall>tx \<in> set txs. well_formed_tx C pos tx)"
    unfolding parse_submit_retryable_message_def by (rule yieldsD [OF y])+
qed

lemma funded_yields:
  "parse_l2_funded_by_l1 H data pos rid \<noteq> Panic"
  "parse_l2_funded_by_l1 H data pos rid = Ok txs \<Longrightarrow> length txs = 2 \<and> (\<forall>tx \<in> set txs. well_formed_tx C pos tx)"
  using unsigned_yields(1) [where pos = pos] unsigned_yields(2) [where C = C and pos = pos]
  by (auto simp: parse_l2_funded_by_l1_def Let_def split: list.splits result.splits)

lemma parse_l2_transactions_yields:
  "parse_l2_transactions C H k pos msg rid fee \<noteq> Panic"
  "parse_l2_transactions C H k pos msg rid fee = Ok txs \<Longrightarrow> length txs \<le> max 2 (length msg)"
  "parse_l2_transactions C H k pos msg rid fee = Ok txs \<Longrightarrow> k \<noteq> 13 \<Longrightarrow> \<forall>tx \<in> set txs. well_formed_tx C pos tx"
  using parse_l2_message_yields(1) [of C H msg pos rid 0] funded_yields(1) [of H msg pos] funded_yields(2) [of H msg pos _ _ C]
    retryable_yields(1) [of msg pos] retryable_yields(2) [of msg pos _ _ _ C] deposit_yields(1) [of msg pos]
    deposit_yields(2) [of msg pos _ _ C] report_yields [of msg] report_length [of msg]
  by (auto simp: parse_l2_transactions_def split: option.splits if_splits)

section \<open>Properties\<close>

definition sample_codec :: "u8 codec" where
  "sample_codec = \<lparr>decode_2718 = (\<lambda>b. if b = [] then None else Some (hd b)), ty = (\<lambda>t. t)\<rparr>"

text \<open>
  C18: a transaction that a message yields, unless the message is a batch posting report, can be converted to a
  transaction of the executor. A converted envelope has an ordinary type (below 0x64 and not a blob transaction),
  and a transaction that is built comes from the poster of the message, or is a deposit from the zero address:
  no message can speak for another account.
\<close>

theorem parsed_transactions_convert:
  assumes "parse_l2_transactions C H k pos msg rid fee = Ok txs" and "k \<noteq> 13" and "tx \<in> set txs"
  shows "case parsed_tx_to_signed C tx chain of
      Some (Inl t) \<Rightarrow> ty C t < 0x64 \<and> ty C t \<noteq> 3
    | Some (Inr (ArbDepositTx c r from to val)) \<Rightarrow> c = ucast chain \<and> (from = pos \<or> from = 0)
    | Some (Inr t) \<Rightarrow> tx_chain_id t = ucast chain \<and> tx_from t = pos
    | None \<Rightarrow> False"
proof -
  have "well_formed_tx C pos tx"
    using parse_l2_transactions_yields(3) [OF assms(1,2)] assms(3) by blast
  then show ?thesis
    by (auto simp: well_formed_tx_def parsed_tx_to_signed_def split: parsed_transaction.splits option.splits)
qed

lemma parsed_transactions_convert_witness:
  "parse_l2_transactions sample_codec (\<lambda>_. 0) 3 7 [4, 2] None None = Ok [Signed [2]] \<and>
   parsed_tx_to_signed sample_codec (Signed [2]) 42161 = Some (Inl 2) \<and> (2 :: u8) < 0x64 \<and> (2 :: u8) \<noteq> 3"
proof -
  have p: "parse_l2_transactions sample_codec (\<lambda>_. 0) 3 7 [4, 2] None None = Ok [Signed [2]]"
    by (simp add: parse_l2_transactions_def parse_l2_message.simps parse_signed_tx_def sample_codec_def)
  show ?thesis
    using p parsed_transactions_convert [OF p, of "Signed [2]" 42161]
    by (simp add: parsed_tx_to_signed_def sample_codec_def)
qed

text \<open>
  C19: parsing ends with a list of transactions or an error on every message, whatever its nesting and contents,
  and a message of n bytes yields at most n transactions, or two.
\<close>

theorem parsing_ends:
  "(\<exists>e. parse_l2_transactions C H k pos msg rid fee = Err e) \<or>
   (\<exists>txs. parse_l2_transactions C H k pos msg rid fee = Ok txs \<and> length txs \<le> max 2 (length msg))"
  using parse_l2_transactions_yields(1,2) [of C H k pos msg rid fee]
  by (cases "parse_l2_transactions C H k pos msg rid fee") auto

text \<open>The segments of a batch, each one level deeper and with the request id derived from its place.\<close>

fun parse_each :: "'tx codec \<Rightarrow> keccak \<Rightarrow> address \<Rightarrow> u256 option \<Rightarrow> u32 \<Rightarrow> u64 \<Rightarrow> bytes list \<Rightarrow> (parsed_transaction list, message_error) result" where
  "parse_each C H pos rid depth i [] = Ok []"
| "parse_each C H pos rid depth i (seg # segs) =
     (case parse_l2_message C H seg pos (map_option (sub_request_id H i) rid) depth of
        Ok a \<Rightarrow> (case parse_each C H pos rid depth (i + 1) segs of Ok b \<Rightarrow> Ok (a @ b) | Err e \<Rightarrow> Err e | Panic \<Rightarrow> Panic)
      | Err e \<Rightarrow> Err e
      | Panic \<Rightarrow> Panic)"

lemma bytestring_round:
  assumes "length seg \<le> 256 * 1024"
  shows "bytestring_from_reader (256 * 1024) (bytestring_to_writer seg @ r) = Ok (seg, r)"
proof -
  have "uint64_from_reader (uint64_to_writer n @ r') = Ok (n, r')" for n r'
    by (simp add: uint64_from_reader_def uint64_to_writer_def map_reader_def read_exact_def from_be_bytes)
  then show ?thesis
    using assms by (simp add: bytestring_from_reader_def bytestring_to_writer_def read_exact_def word_less_nat_alt counter_simps)
qed

lemma parse_l2_batch_segments:
  assumes "\<forall>seg \<in> set segs. length seg \<le> 256 * 1024" and "bytestring_from_reader (256 * 1024) junk = Err e"
  shows "parse_l2_batch C H (concat (map bytestring_to_writer segs) @ junk) pos rid depth i acc =
    (case parse_each C H pos rid (depth + 1) i segs of Ok b \<Rightarrow> Ok (acc @ b) | Err e \<Rightarrow> Err e | Panic \<Rightarrow> Panic)"
  using assms(1)
proof (induction segs arbitrary: i acc)
  case Nil
  then show ?case using parse_l2_batch_stop [OF assms(2)] by simp
next
  case (Cons seg segs)
  have "bytestring_from_reader (256 * 1024) (concat (map bytestring_to_writer (seg # segs)) @ junk) =
      Ok (seg, concat (map bytestring_to_writer segs) @ junk)" and len: "length seg \<le> 256 * 1024"
    using bytestring_round [of seg] Cons.prems by simp_all
  note step = parse_l2_batch_step [OF this]
  show ?case unfolding step using Cons.IH Cons.prems by (simp split: result.split)
qed

text \<open>
  C10: a batch is parsed as its segments, in order, each with the request id hashed from the parent's id and the
  index of the segment; the first segment that fails decides the error, and bytes after the last whole segment
  are ignored. A batch inside sixteen others is refused.
\<close>

theorem batch_parses_segments:
  assumes "\<forall>seg \<in> set segs. length seg \<le> 256 * 1024" and "bytestring_from_reader (256 * 1024) junk = Err e"
  shows "parse_l2_message C H (3 # concat (map bytestring_to_writer segs) @ junk) pos rid depth =
    (if 16 \<le> depth then Err (ME_Invalid ''L2 message batches have a max depth of 16'')
     else parse_each C H pos rid (depth + 1) 0 segs)"
  using parse_l2_batch_segments [OF assms, of C H pos rid depth 0 "[]"]
  by (simp add: parse_l2_message.simps split: result.split)

lemma batch_parses_segments_witness:
  "parse_l2_message sample_codec (\<lambda>_. 0) (3 # concat (map bytestring_to_writer [[4, 2], [6], [4, 5]]) @ [0, 0]) 7 None 15 =
     Ok [Signed [2], Signed [5]]"
proof -
  have junk: "bytestring_from_reader (256 * 1024) [0, 0] = Err UnexpectedEof"
    by (simp add: bytestring_from_reader_def uint64_from_reader_def map_reader_def read_exact_def)
  have "\<forall>seg \<in> set [[4, 2], [6], [4, 5 :: u8]]. length seg \<le> 256 * 1024" by simp
  note batch_parses_segments [OF this junk, of sample_codec "\<lambda>_. 0" 7 None 15]
  moreover have "parse_each sample_codec (\<lambda>_. 0) 7 None (15 + 1) 0 [[4, 2], [6], [4, 5]] = Ok [Signed [2], Signed [5]]"
    by (simp add: parse_l2_message.simps parse_signed_tx_def sample_codec_def)
  ultimately show ?thesis by simp
qed

end
