(* ===== verification/Tx_Processor.thy ===== *)
theory Tx_Processor
  imports Retryables L1_Pricing
begin

text \<open>
  What ArbOS does around each transaction (tx_processor.rs, reverted_tx_gas.rs): charging for L1 data and holding
  back gas before it runs, distributing the fees after it, the refunds of a retryable redeem and the fees of a
  submission. Amounts are words; a balance operation is a callback, as in the source.
\<close>

section \<open>The processor\<close>

record tx_processor =
  poster_fee :: u256
  poster_gas :: u64
  compute_hold_gas :: u64
  delayed_inbox :: bool
  top_tx_type :: "u8 option"
  current_retryable :: "u256 option"
  current_refund_to :: "address option"
  scheduled_txs :: "bytes list"
  programs_depth :: "address \<Rightarrow> nat option"

definition tx_processor_new :: "address \<Rightarrow> tx_processor" where
  "tx_processor_new coinbase =
     \<lparr>poster_fee = 0, poster_gas = 0, compute_hold_gas = 0, delayed_inbox = (coinbase \<noteq> BATCH_POSTER_ADDRESS),
      top_tx_type = None, current_retryable = None, current_refund_to = None, scheduled_txs = [],
      programs_depth = Map.empty\<rparr>"

definition drop_tip_with_collect :: "tx_processor \<Rightarrow> u64 \<Rightarrow> bool \<Rightarrow> bool" where
  "drop_tip_with_collect self arbos_version collect_tips_enabled =
     (if delayed_inbox self then True
      else if arbos_version = 9 then False
      else if arbos_version < 60 then True
      else \<not> collect_tips_enabled)"

definition get_paid_gas_price_with_collect :: "tx_processor \<Rightarrow> u64 \<Rightarrow> u256 \<Rightarrow> u256 \<Rightarrow> bool \<Rightarrow> u256" where
  "get_paid_gas_price_with_collect self arbos_version base_fee gas_price collect_tips_enabled =
     (if \<not> drop_tip_with_collect self arbos_version collect_tips_enabled then gas_price else base_fee)"

definition gas_price_op_with_collect :: "tx_processor \<Rightarrow> u64 \<Rightarrow> u256 \<Rightarrow> u256 \<Rightarrow> bool \<Rightarrow> u256" where
  "gas_price_op_with_collect self arbos_version base_fee gas_price collect_tips_enabled =
     (if 3 \<le> arbos_version
      then get_paid_gas_price_with_collect self arbos_version base_fee gas_price collect_tips_enabled
      else gas_price)"

definition push_program :: "address \<Rightarrow> tx_processor \<Rightarrow> tx_processor" where
  "push_program a self = self\<lparr>programs_depth :=
     (programs_depth self)(a \<mapsto> (case programs_depth self a of Some n \<Rightarrow> n | None \<Rightarrow> 0) + 1)\<rparr>"

definition pop_program :: "address \<Rightarrow> tx_processor \<Rightarrow> tx_processor" where
  "pop_program a self =
     (case programs_depth self a of
        Some n \<Rightarrow> self\<lparr>programs_depth := (programs_depth self)(a := (if n - 1 = 0 then None else Some (n - 1)))\<rparr>
      | None \<Rightarrow> self)"

definition is_reentrant :: "tx_processor \<Rightarrow> address \<Rightarrow> bool" where
  "is_reentrant self a \<longleftrightarrow> 1 < (case programs_depth self a of Some n \<Rightarrow> n | None \<Rightarrow> 0)"

definition prepare_retry_tx :: "u256 \<Rightarrow> address \<Rightarrow> tx_processor \<Rightarrow> tx_processor" where
  "prepare_retry_tx ticket_id refund_to self = self\<lparr>current_retryable := Some ticket_id, current_refund_to := Some refund_to\<rparr>"

section \<open>Transactions known to revert\<close>

datatype reverted_tx_action = NoAction | PreRecordedRevert u64 | FilteredTx

definition reverted_tx_lookup :: "u256 \<Rightarrow> u64 option" where
  "reverted_tx_lookup tx_hash =
     (if tx_hash = 0x58df300a7f04fe31d41d24672786cbe1c58b4f3d8329d0d74392d814dd9f7e40 \<or>
         tx_hash = 0xe22b6570bd5e539adb0363602edfc2ceeb979802d7697dcd3b203d2d734176da
      then Some 45174 else None)"

definition reverted_tx_hook :: "u256 option \<Rightarrow> u64 option \<Rightarrow> bool \<Rightarrow> reverted_tx_action" where
  "reverted_tx_hook tx_hash pre_recorded_gas is_filtered =
     (case tx_hash of
        None \<Rightarrow> NoAction
      | Some hash \<Rightarrow>
          (case (case pre_recorded_gas of Some g \<Rightarrow> Some g | None \<Rightarrow> reverted_tx_lookup hash) of
             Some g \<Rightarrow> PreRecordedRevert (sat_sub g 21000)
           | None \<Rightarrow> if is_filtered then FilteredTx else NoAction))"

section \<open>Charging gas\<close>

record gas_charging_params =
  gc_base_fee :: u256
  gc_poster_cost :: u256
  gc_is_gas_estimation :: bool
  gc_is_eth_call :: bool
  gc_skip_l1_charging :: bool
  gc_min_base_fee :: u256
  gc_per_block_gas_limit :: u64
  gc_per_tx_gas_limit :: u64
  gc_arbos_version :: u64

datatype gas_charging_error = IntrinsicGasTooLow

text \<open>\<open>try_into().unwrap_or(u64::MAX)\<close>.\<close>

definition to_u64_or_max :: "u256 \<Rightarrow> u64" where
  "to_u64_or_max x = (if unat x < 2 ^ 64 then ucast x else - 1)"

definition compute_poster_gas :: "u256 \<Rightarrow> u256 \<Rightarrow> bool \<Rightarrow> u256 \<Rightarrow> u64" where
  "compute_poster_gas poster_cost base_fee is_gas_estimation min_gas_price =
     (if base_fee = 0 then 0 else
      let adjusted_base_fee =
            (if is_gas_estimation then
               let adjusted = base_fee * 7 div 8 in if adjusted < min_gas_price then min_gas_price else adjusted
             else base_fee);
          padded_cost = (if is_gas_estimation then poster_cost * 11000 div 10000 else poster_cost) in
      if adjusted_base_fee = 0 then 0 else to_u64_or_max (padded_cost div adjusted_base_fee))"

definition get_poster_gas :: "bytes \<Rightarrow> u256 \<Rightarrow> u256 \<Rightarrow> u64 \<times> u64" where
  "get_poster_gas data base_fee_l1 base_fee_l2 =
     (if base_fee_l2 = 0 \<or> base_fee_l1 = 0 then (0, 0) else
      let calldata_units = of_nat (length (filter (\<lambda>b. b \<noteq> 0) data)) * 16 + of_nat (length (filter (\<lambda>b. b = 0) data)) * 4 :: u64;
          l1_cost = ucast calldata_units * base_fee_l1 in
      (to_u64_or_max (l1_cost div base_fee_l2), calldata_units))"

text \<open>The hook changes the processor and the gas that remains.\<close>

definition gas_charging_hook :: "u64 \<Rightarrow> gas_charging_params \<Rightarrow> (tx_processor \<times> u64, unit, gas_charging_error) comp" where
  "gas_charging_hook intrinsic_gas params s =
     (case s of (self, gas_remaining) \<Rightarrow>
      let charged = (gc_base_fee params \<noteq> 0 \<and> \<not> gc_skip_l1_charging params);
          gas = compute_poster_gas (gc_poster_cost params) (gc_base_fee params) (gc_is_gas_estimation params) (gc_min_base_fee params);
          self = (if charged then self\<lparr>poster_gas := gas, poster_fee := sat_mul (gc_base_fee params) (ucast gas)\<rparr> else self);
          gas_needed = (if charged then poster_gas self else 0) in
      if gas_remaining < gas_needed then (Err IntrinsicGasTooLow, (self, gas_remaining)) else
      let gas_remaining = gas_remaining - gas_needed in
      if \<not> gc_is_eth_call params then
        let max = (if gc_arbos_version params < 50 then gc_per_block_gas_limit params
                   else sat_sub (gc_per_tx_gas_limit params) intrinsic_gas) in
        if max < gas_remaining then (Ok (), (self\<lparr>compute_hold_gas := gas_remaining - max\<rparr>, max))
        else (Ok (), (self, gas_remaining))
      else (Ok (), (self, gas_remaining)))"

section \<open>Fees of an ordinary transaction\<close>

record end_tx_normal_params =
  en_gas_used :: u64
  en_gas_price :: u256
  en_base_fee :: u256
  en_coinbase :: address
  en_network_fee_account :: address
  en_infra_fee_account :: address
  en_min_base_fee :: u256
  en_arbos_version :: u64

record end_tx_fee_distribution =
  fd_infra_fee_account :: address
  fd_infra_fee_amount :: u256
  fd_network_fee_account :: address
  fd_network_fee_amount :: u256
  fd_poster_fee_destination :: address
  fd_poster_fee_amount :: u256
  fd_l1_fees_to_add :: u256
  fd_compute_gas_for_backlog :: u64

definition compute_end_tx_fee_distribution :: "tx_processor \<Rightarrow> end_tx_normal_params \<Rightarrow> end_tx_fee_distribution" where
  "compute_end_tx_fee_distribution self params =
     (let gas_used = en_gas_used params;
          base_fee = en_base_fee params;
          compute_gas = sat_sub gas_used (poster_gas self);
          compute_cost = sat_mul base_fee (ucast compute_gas);
          with_infra = (4 < en_arbos_version params \<and> en_infra_fee_account params \<noteq> 0);
          infra_fee_amount = (if with_infra then sat_mul (min (en_min_base_fee params) base_fee) (ucast compute_gas) else 0);
          network = (if with_infra then sat_sub compute_cost infra_fee_amount else compute_cost) in
      \<lparr>fd_infra_fee_account = en_infra_fee_account params,
       fd_infra_fee_amount = infra_fee_amount,
       fd_network_fee_account = en_network_fee_account params,
       fd_network_fee_amount = network,
       fd_poster_fee_destination = (if en_arbos_version params < 2 then en_coinbase params else L1_PRICER_FUNDS_POOL_ADDRESS),
       fd_poster_fee_amount = poster_fee self,
       fd_l1_fees_to_add = (if 10 \<le> en_arbos_version params then poster_fee self else 0),
       fd_compute_gas_for_backlog =
         (if en_gas_price params \<noteq> 0 then (if poster_gas self < gas_used then gas_used - poster_gas self else gas_used) else 0)\<rparr>)"

section \<open>Refunds of a redeem\<close>

text \<open>What is left of the pool and what was taken.\<close>

definition take_funds :: "u256 \<Rightarrow> u256 \<Rightarrow> u256 \<times> u256" where
  "take_funds pool amount = (if pool < amount then (0, pool) else (pool - amount, amount))"

type_synonym 's transfer_fn = "address \<Rightarrow> address \<Rightarrow> u256 \<Rightarrow> ('s, unit, balance_error) comp"

text \<open>Returns what is left of \<open>max_refund\<close>.\<close>

definition refund_with_pool :: "'s transfer_fn \<Rightarrow> address \<Rightarrow> u256 \<Rightarrow> u256 \<Rightarrow> address \<Rightarrow> address \<Rightarrow> ('s, u256, unit) comp" where
  "refund_with_pool transfer_fn refund_from amount max_refund refund_to from =
     (let (max_refund, to_refund_addr) = take_funds max_refund amount in
      bnd (ignore (transfer_fn refund_from refund_to to_refund_addr)) (\<lambda>_.
      let remainder = sat_sub amount to_refund_addr in
      bnd (ignore (transfer_fn refund_from from remainder)) (\<lambda>_.
      ret max_refund)))"

record end_tx_retryable_params =
  er_gas_left :: u64
  er_gas_used :: u64
  er_effective_base_fee :: u256
  er_from :: address
  er_refund_to :: address
  er_max_refund :: u256
  er_submission_fee_refund :: u256
  er_ticket_id :: u256
  er_value :: u256
  er_success :: bool
  er_network_fee_account :: address
  er_infra_fee_account :: address
  er_min_base_fee :: u256
  er_arbos_version :: u64
  er_multi_dimensional_cost :: "u256 option"
  er_block_base_fee :: u256

record end_tx_retryable_result =
  rr_compute_gas_for_backlog :: u64
  rr_should_delete_retryable :: bool
  rr_should_return_value_to_escrow :: bool
  rr_escrow_address :: address

definition end_tx_retryable :: "keccak \<Rightarrow> end_tx_retryable_params \<Rightarrow> (address \<Rightarrow> u256 \<Rightarrow> 's \<Rightarrow> 's) \<Rightarrow> 's transfer_fn
    \<Rightarrow> ('s, end_tx_retryable_result, unit) comp" where
  "end_tx_retryable H params burn_fn transfer_fn =
     (let fee = er_effective_base_fee params;
          gas_refund_amount = sat_mul fee (ucast (er_gas_left params));
          single_gas_cost = sat_mul fee (ucast (er_gas_used params));
          refund = (\<lambda>acct amount pool. refund_with_pool transfer_fn acct amount pool (er_refund_to params) (er_from params)) in
      bnd (\<lambda>s. (Ok (), burn_fn (er_from params) gas_refund_amount s)) (\<lambda>_.
      bnd (if er_success params then refund (er_network_fee_account params) (er_submission_fee_refund params) (er_max_refund params)
           else ret (fst (take_funds (er_max_refund params) (er_submission_fee_refund params)))) (\<lambda>pool.
      let pool = fst (take_funds pool single_gas_cost) in
      bnd (if 11 \<le> er_arbos_version params \<and> er_infra_fee_account params \<noteq> 0 then
             (let infra_fee = min (er_min_base_fee params) fee;
                  (network_refund, infra_refund) = take_funds gas_refund_amount (sat_mul infra_fee (ucast (er_gas_left params))) in
              bnd (refund (er_infra_fee_account params) infra_refund pool) (\<lambda>pool. ret (pool, network_refund)))
           else ret (pool, gas_refund_amount)) (\<lambda>(pool, network_refund).
      bnd (refund (er_network_fee_account params) network_refund pool) (\<lambda>pool.
      bnd (case er_multi_dimensional_cost params of
             Some multi_cost \<Rightarrow>
               if multi_cost < single_gas_cost \<and> fee = er_block_base_fee params
               then refund (er_network_fee_account params) (sat_sub single_gas_cost multi_cost) pool else ret pool
           | None \<Rightarrow> ret pool) (\<lambda>_.
      ret \<lparr>rr_compute_gas_for_backlog = er_gas_used params, rr_should_delete_retryable = er_success params,
           rr_should_return_value_to_escrow = (\<not> er_success params),
           rr_escrow_address = retryable_escrow_address H (er_ticket_id params)\<rparr>))))))"

section \<open>Fees of a submission\<close>

definition compute_retryable_gas_split :: "u64 \<Rightarrow> u256 \<Rightarrow> address \<Rightarrow> u256 \<Rightarrow> u64 \<Rightarrow> u256 \<times> u256" where
  "compute_retryable_gas_split gas effective_base_fee infra_fee_account min_base_fee arbos_version =
     (let gas_cost = sat_mul effective_base_fee (ucast gas) in
      if 11 \<le> arbos_version \<and> infra_fee_account \<noteq> 0 then
        (let (network_cost, infra_cost) = take_funds gas_cost (sat_mul (min min_base_fee effective_base_fee) (ucast gas)) in
         (infra_cost, network_cost))
      else (0, gas_cost))"

record submit_retryable_params =
  sp_ticket_id :: u256
  sp_from :: address
  sp_fee_refund_addr :: address
  sp_deposit_value :: u256
  sp_retry_value :: u256
  sp_gas_fee_cap :: u256
  sp_gas :: u64
  sp_max_submission_fee :: u256
  sp_retry_data_len :: u64
  sp_l1_base_fee :: u256
  sp_effective_base_fee :: u256
  sp_current_time :: u64
  sp_balance_after_mint :: u256
  sp_infra_fee_account :: address
  sp_min_base_fee :: u256
  sp_arbos_version :: u64

datatype submit_retryable_error = InsufficientFundsForMaxSubmissionFee u256 u256 | MaxSubmissionFeeTooLow u256 u256

record submit_retryable_fees =
  sf_submission_fee :: u256
  sf_submission_fee_refund :: u256
  sf_escrow :: address
  sf_timeout :: u64
  sf_can_pay_for_gas :: bool
  sf_gas_cost :: u256
  sf_infra_cost :: u256
  sf_network_cost :: u256
  sf_gas_price_refund :: u256
  sf_gas_cost_refund :: u256
  sf_available_refund :: u256
  sf_withheld_submission_fee :: u256
  sf_error :: "submit_retryable_error option"

definition failed_submission :: "u256 \<Rightarrow> address \<Rightarrow> u64 \<Rightarrow> submit_retryable_error \<Rightarrow> submit_retryable_fees" where
  "failed_submission submission_fee escrow timeout e =
     \<lparr>sf_submission_fee = submission_fee, sf_submission_fee_refund = 0, sf_escrow = escrow, sf_timeout = timeout,
      sf_can_pay_for_gas = False, sf_gas_cost = 0, sf_infra_cost = 0, sf_network_cost = 0, sf_gas_price_refund = 0,
      sf_gas_cost_refund = 0, sf_available_refund = 0, sf_withheld_submission_fee = 0, sf_error = Some e\<rparr>"

text \<open>What the gas takes from the refundable funds: returns the funds left, the refund of the gas cost and the
  refund of the gas price.\<close>

definition settle_gas_funds :: "bool \<Rightarrow> u256 \<Rightarrow> u256 \<Rightarrow> u256 \<Rightarrow> u256 \<Rightarrow> u256 \<Rightarrow> u256 \<times> u256 \<times> u256" where
  "settle_gas_funds can_pay_for_gas available max_gas_cost gas_cost gas_price_refund withheld_submission_fee =
     (if \<not> can_pay_for_gas then
        let (available, gas_cost_refund) = take_funds available max_gas_cost in (available, gas_cost_refund, 0)
      else
        let (available, withheld_gas_funds) = take_funds available gas_cost;
            (available, gas_price_refund_actual) = take_funds available gas_price_refund in
        (sat_add (sat_add available withheld_gas_funds) withheld_submission_fee, 0, gas_price_refund_actual))"

definition compute_submit_retryable_fees :: "keccak \<Rightarrow> submit_retryable_params \<Rightarrow> submit_retryable_fees" where
  "compute_submit_retryable_fees H params =
     (let submission_fee = retryable_submission_fee (sp_retry_data_len params) (sp_l1_base_fee params);
          escrow = retryable_escrow_address H (sp_ticket_id params);
          timeout = sp_current_time params + RETRYABLE_LIFETIME_SECONDS in
      if sp_balance_after_mint params < sp_max_submission_fee params then
        failed_submission submission_fee escrow timeout
          (InsufficientFundsForMaxSubmissionFee (sp_balance_after_mint params) (sp_max_submission_fee params))
      else if sp_max_submission_fee params < submission_fee then
        failed_submission submission_fee escrow timeout (MaxSubmissionFeeTooLow (sp_max_submission_fee params) submission_fee)
      else
      let available = fst (take_funds (sp_deposit_value params) (sp_retry_value params));
          (available, withheld_submission_fee) = take_funds available submission_fee;
          (available, submission_fee_refund) = take_funds available (sat_sub (sp_max_submission_fee params) submission_fee);
          max_gas_cost = sat_mul (sp_gas_fee_cap params) (ucast (sp_gas params));
          fee_cap_too_low = (sp_gas_fee_cap params < sp_effective_base_fee params);
          left = sat_sub (sat_sub (sp_balance_after_mint params) submission_fee) (sp_retry_value params);
          left = (if sp_fee_refund_addr params \<noteq> sp_from params then sat_sub left submission_fee_refund else left);
          can_pay_for_gas = (\<not> fee_cap_too_low \<and> 21000 \<le> sp_gas params \<and> max_gas_cost \<le> left);
          (infra_cost, network_cost) = compute_retryable_gas_split (sp_gas params) (sp_effective_base_fee params)
            (sp_infra_fee_account params) (sp_min_base_fee params) (sp_arbos_version params);
          gas_cost = sat_mul (sp_effective_base_fee params) (ucast (sp_gas params));
          gas_price_refund = (if sp_effective_base_fee params < sp_gas_fee_cap params
            then sat_mul (sp_gas_fee_cap params - sp_effective_base_fee params) (ucast (sp_gas params)) else 0);
          (available, gas_cost_refund, gas_price_refund_actual) =
            settle_gas_funds can_pay_for_gas available max_gas_cost gas_cost gas_price_refund withheld_submission_fee in
      \<lparr>sf_submission_fee = submission_fee, sf_submission_fee_refund = submission_fee_refund, sf_escrow = escrow,
       sf_timeout = timeout, sf_can_pay_for_gas = can_pay_for_gas, sf_gas_cost = gas_cost, sf_infra_cost = infra_cost,
       sf_network_cost = network_cost, sf_gas_price_refund = gas_price_refund_actual, sf_gas_cost_refund = gas_cost_refund,
       sf_available_refund = available, sf_withheld_submission_fee = withheld_submission_fee, sf_error = None\<rparr>)"

section \<open>Funds are conserved\<close>

lemma take_funds_split:
  "unat (fst (take_funds pool amount)) = unat pool - unat amount" "unat (snd (take_funds pool amount)) = min (unat pool) (unat amount)"
  by (auto simp: take_funds_def unat_sub word_less_nat_alt word_le_nat_alt not_less min_def)

lemma take_funds_sum: "unat (fst (take_funds pool amount)) + unat (snd (take_funds pool amount)) = unat pool"
  by (simp add: take_funds_split)

lemma compute_retryable_gas_split_sum:
  "unat (fst (compute_retryable_gas_split gas fee acct min_fee ver)) + unat (snd (compute_retryable_gas_split gas fee acct min_fee ver)) =
     unat (sat_mul fee (ucast gas))"
  using take_funds_sum [of "sat_mul fee (ucast gas)" "sat_mul (min min_fee fee) (ucast gas)"]
  by (simp add: compute_retryable_gas_split_def Let_def case_prod_beta add.commute)

lemma settle_gas_funds_sum:
  assumes "unat avail + unat w < 2 ^ 256" and "settle_gas_funds can avail mx cost price w = (avail', c, q)"
  shows "unat c + unat q + unat avail' + (if can then 0 else unat w) = unat avail + unat w"
proof (cases can)
  case True
  let ?g = "take_funds avail cost" let ?p = "take_funds (fst ?g) price"
  have "unat (fst ?p) + unat (snd ?p) + unat (snd ?g) = unat avail"
    using take_funds_sum [of avail cost] take_funds_sum [of "fst ?g" price] by simp
  moreover from this have "unat (sat_add (sat_add (fst ?p) (snd ?g)) w) = unat (fst ?p) + unat (snd ?g) + unat w"
    using assms(1) by (simp add: unat_sat)
  ultimately show ?thesis
    using assms(2) True by (auto simp: settle_gas_funds_def Let_def case_prod_beta)
next
  case False
  then show ?thesis
    using assms(2) take_funds_sum [of avail mx] by (auto simp: settle_gas_funds_def case_prod_beta)
qed

text \<open>
  C3: a submission whose fees are computed without error gives back no more than was deposited: the value of the
  ticket as far as the deposit covers it, the refunds of the submission fee, of the gas and of the gas price, and
  what is left for refunds of the redeem add up to the deposit exactly, together with the submission fee withheld
  when no redeem is scheduled. The gas cost is split without loss between the two fee accounts. The computation fails
  exactly when the balance does not cover the maximal submission fee or that does not cover the fee.
\<close>

theorem submission_conserves_deposit:
  fixes H :: keccak and params :: submit_retryable_params
  defines "f \<equiv> compute_submit_retryable_fees H params"
  shows "(sf_error f = None \<longleftrightarrow>
      retryable_submission_fee (sp_retry_data_len params) (sp_l1_base_fee params) \<le> sp_max_submission_fee params \<and>
      sp_max_submission_fee params \<le> sp_balance_after_mint params) \<and>
    (sf_error f = None \<longrightarrow>
      unat (sf_submission_fee_refund f) + unat (sf_gas_cost_refund f) + unat (sf_gas_price_refund f) + unat (sf_available_refund f) +
        (if sf_can_pay_for_gas f then 0 else unat (sf_withheld_submission_fee f)) +
        min (unat (sp_deposit_value params)) (unat (sp_retry_value params)) = unat (sp_deposit_value params) \<and>
      unat (sf_infra_cost f) + unat (sf_network_cost f) = unat (sf_gas_cost f))"
proof (intro conjI impI)
  let ?fee = "retryable_submission_fee (sp_retry_data_len params) (sp_l1_base_fee params)"
  show err: "sf_error f = None \<longleftrightarrow> ?fee \<le> sp_max_submission_fee params \<and> sp_max_submission_fee params \<le> sp_balance_after_mint params"
    by (auto simp: f_def compute_submit_retryable_fees_def failed_submission_def Let_def case_prod_beta)
  assume ok: "sf_error f = None"
  note run = f_def compute_submit_retryable_fees_def
  have checks: "\<not> sp_balance_after_mint params < sp_max_submission_fee params" "\<not> sp_max_submission_fee params < ?fee"
    using ok err by (simp_all add: not_less)
  show "unat (sf_infra_cost f) + unat (sf_network_cost f) = unat (sf_gas_cost f)"
    using checks compute_retryable_gas_split_sum by (simp add: run Let_def case_prod_beta)
  let ?a1 = "fst (take_funds (sp_deposit_value params) (sp_retry_value params))"
  let ?a2 = "fst (take_funds ?a1 ?fee)" and ?w = "snd (take_funds ?a1 ?fee)"
  let ?a3 = "fst (take_funds ?a2 (sat_sub (sp_max_submission_fee params) ?fee))"
  let ?r = "snd (take_funds ?a2 (sat_sub (sp_max_submission_fee params) ?fee))"
  have parts: "unat ?a3 + unat ?w + unat ?r + min (unat (sp_deposit_value params)) (unat (sp_retry_value params)) = unat (sp_deposit_value params)"
    using take_funds_sum [of ?a1 ?fee] take_funds_sum [of ?a2 "sat_sub (sp_max_submission_fee params) ?fee"]
      take_funds_split [of "sp_deposit_value params" "sp_retry_value params"] by simp
  obtain mx cost price where settle: "settle_gas_funds (sf_can_pay_for_gas f) ?a3 mx cost price ?w =
      (sf_available_refund f, sf_gas_cost_refund f, sf_gas_price_refund f)"
    using checks by (simp add: run Let_def case_prod_beta)
  have fields: "sf_submission_fee_refund f = ?r" "sf_withheld_submission_fee f = ?w"
    using checks by (simp_all add: run Let_def case_prod_beta)
  have "unat ?a3 + unat ?w < 2 ^ 256" using parts unat_bound [of "sp_deposit_value params"] by simp
  from settle_gas_funds_sum [OF this settle] show "unat (sf_submission_fee_refund f) + unat (sf_gas_cost_refund f) + unat (sf_gas_price_refund f) + unat (sf_available_refund f) +
      (if sf_can_pay_for_gas f then 0 else unat (sf_withheld_submission_fee f)) +
      min (unat (sp_deposit_value params)) (unat (sp_retry_value params)) = unat (sp_deposit_value params)"
    using parts unfolding fields by linarith
qed

definition sample_submission :: submit_retryable_params where
  "sample_submission = \<lparr>sp_ticket_id = 1, sp_from = 2, sp_fee_refund_addr = 3, sp_deposit_value = 0x23e3dbb7b88ab8,
     sp_retry_value = 0x2386f26fc10000, sp_gas_fee_cap = 0x3b9aca00, sp_gas = 100000, sp_max_submission_fee = 0x1f6377d4ab8,
     sp_retry_data_len = 0, sp_l1_base_fee = 0x5bd57bd9, sp_effective_base_fee = 0x5f5e100, sp_current_time = 0,
     sp_balance_after_mint = 1000000000000000000, sp_infra_fee_account = 0, sp_min_base_fee = 0, sp_arbos_version = 10\<rparr>"

lemma submission_conserves_deposit_witness:
  "let f = compute_submit_retryable_fees (\<lambda>_. 0) sample_submission in
     sf_error f = None \<and>
     unat (sf_submission_fee_refund f) + unat (sf_gas_cost_refund f) + unat (sf_gas_price_refund f) + unat (sf_available_refund f) +
       (if sf_can_pay_for_gas f then 0 else unat (sf_withheld_submission_fee f)) + 0x2386f26fc10000 = 0x23e3dbb7b88ab8"
proof -
  have "retryable_submission_fee (sp_retry_data_len sample_submission) (sp_l1_base_fee sample_submission) \<le>
      sp_max_submission_fee sample_submission" "sp_max_submission_fee sample_submission \<le> sp_balance_after_mint sample_submission"
    by (simp_all add: sample_submission_def retryable_submission_fee_def sat_mul_def sat_add_def Let_def)
  moreover have "min (unat (sp_deposit_value sample_submission)) (unat (sp_retry_value sample_submission)) = 0x2386f26fc10000"
    "unat (sp_deposit_value sample_submission) = 0x23e3dbb7b88ab8"
    by (simp_all add: sample_submission_def)
  ultimately show ?thesis
    using submission_conserves_deposit [of "\<lambda>_. 0" sample_submission] by (simp add: Let_def)
qed

section \<open>Gas is conserved\<close>

lemma sat_mul_fits: "unat a * unat b < 2 ^ 256 \<Longrightarrow> unat (sat_mul a b :: u256) = unat a * unat b"
  by (simp add: unat_sat)

text \<open>The limit on the gas a transaction may compute with.\<close>

definition compute_limit :: "u64 \<Rightarrow> gas_charging_params \<Rightarrow> u64" where
  "compute_limit intrinsic_gas params =
     (if gc_arbos_version params < 50 then gc_per_block_gas_limit params else sat_sub (gc_per_tx_gas_limit params) intrinsic_gas)"

text \<open>
  C15: charging a fresh transaction for L1 data splits its gas without loss into the gas to run with, the gas of the
  poster and the gas held back; the gas to run with is within the limit of the block or transaction, except in an eth_call. The charge is
  refused exactly when the poster's gas exceeds the gas at hand, and then no gas is taken.
\<close>

theorem gas_charging_splits_gas:
  assumes "gas_charging_hook intrinsic params (tx_processor_new coinbase, gas) = (r, (self, gas'))"
  shows "(r = Err IntrinsicGasTooLow \<and> gas < poster_gas self \<and> gas' = gas) \<or>
    (r = Ok () \<and> poster_gas self \<le> gas \<and> unat gas' + unat (poster_gas self) + unat (compute_hold_gas self) = unat gas \<and>
     (\<not> gc_is_eth_call params \<longrightarrow> gas' \<le> compute_limit intrinsic params) \<and>
     (poster_gas self = 0 \<and> poster_fee self = 0 \<or> poster_fee self = sat_mul (gc_base_fee params) (ucast (poster_gas self))))"
  using assms
  by (auto simp: gas_charging_hook_def tx_processor_new_def compute_limit_def Let_def not_less unat_sub word_le_nat_alt
      word_less_nat_alt split: if_splits)

lemma gas_charging_splits_gas_witness:
  "\<exists>self gas'. gas_charging_hook 21000 \<lparr>gc_base_fee = 100, gc_poster_cost = 500000, gc_is_gas_estimation = False, gc_is_eth_call = False,
      gc_skip_l1_charging = False, gc_min_base_fee = 100, gc_per_block_gas_limit = 32000000, gc_per_tx_gas_limit = 32000,
      gc_arbos_version = 50\<rparr> (tx_processor_new 5, 79000) = (Ok (), (self, gas')) \<and>
     unat gas' + unat (poster_gas self) + unat (compute_hold_gas self) = 79000"
proof -
  let ?p = "\<lparr>gc_base_fee = 100, gc_poster_cost = 500000, gc_is_gas_estimation = False, gc_is_eth_call = False,
      gc_skip_l1_charging = False, gc_min_base_fee = 100, gc_per_block_gas_limit = 32000000, gc_per_tx_gas_limit = 32000,
      gc_arbos_version = 50\<rparr>"
  obtain r self gas' where run: "gas_charging_hook 21000 ?p (tx_processor_new 5, 79000) = (r, (self, gas'))" by (metis prod.collapse)
  have "fst (gas_charging_hook 21000 ?p (tx_processor_new 5, 79000)) = Ok ()"
    by (simp add: gas_charging_hook_def compute_poster_gas_def to_u64_or_max_def tx_processor_new_def sat_sub_def Let_def)
  then show ?thesis using gas_charging_splits_gas [OF run] run by auto
qed

section \<open>Fees are distributed in full\<close>

lemma fee_split_sum:
  assumes "unat b * unat used < 2 ^ 256" and "pg \<le> used" and "self = \<lparr>poster_fee = sat_mul b (ucast pg), poster_gas = pg,
      compute_hold_gas = h, delayed_inbox = d, top_tx_type = t, current_retryable = c, current_refund_to = rf,
      scheduled_txs = sc, programs_depth = pd\<rparr>" and "en_gas_used q = used" and "en_base_fee q = b"
  shows "unat (fd_infra_fee_amount (compute_end_tx_fee_distribution self q)) + unat (fd_network_fee_amount (compute_end_tx_fee_distribution self q)) +
    unat (fd_poster_fee_amount (compute_end_tx_fee_distribution self q)) = unat b * unat used"
proof -
  let ?cg = "sat_sub used pg" and ?i = "min (en_min_base_fee q) b"
  have cg: "unat ?cg = unat used - unat pg" and pg: "unat pg \<le> unat used"
    using assms(2) by (simp_all add: unat_sat word_le_nat_alt)
  have split: "unat b * unat ?cg + unat b * unat pg = unat b * unat used"
    using pg by (simp add: cg flip: distrib_left)
  have i: "unat ?i * unat ?cg \<le> unat b * unat ?cg"
    by (intro mult_right_mono) (simp_all add: min_def word_le_nat_alt)
  have u: "unat (ucast x :: u256) = unat x" for x :: u64 by simp
  have fits: "unat b * unat ?cg < 2 ^ 256" "unat b * unat pg < 2 ^ 256" "unat ?i * unat ?cg < 2 ^ 256"
    using assms(1) split i by linarith+
  have amounts: "unat (sat_mul b (ucast ?cg)) = unat b * unat ?cg" "unat (sat_mul b (ucast pg)) = unat b * unat pg"
    "unat (sat_mul ?i (ucast ?cg)) = unat ?i * unat ?cg"
    using fits by (simp_all only: sat_mul_fits u)
  show ?thesis
    using split i amounts
    by (simp add: compute_end_tx_fee_distribution_def Let_def assms unat_sat_sub)
qed

text \<open>
  C6: a transaction that was charged for its L1 data at the base fee and then used at least that gas pays exactly its
  gas at the base fee: the amounts for the infrastructure account, the network account and the poster add up to it.
  From ArbOS 10 on the poster's part goes to the pool of L1 fees and is recorded as available there.
\<close>

theorem fees_distributed_in_full:
  assumes "gas_charging_hook intrinsic params (tx_processor_new coinbase, gas) = (Ok (), (self, gas'))"
    and "gc_base_fee params \<noteq> 0" and "\<not> gc_skip_l1_charging params" and "en_base_fee q = gc_base_fee params"
    and "poster_gas self \<le> en_gas_used q" and "unat (en_base_fee q) * unat (en_gas_used q) < 2 ^ 256"
  shows "unat (fd_infra_fee_amount (compute_end_tx_fee_distribution self q)) + unat (fd_network_fee_amount (compute_end_tx_fee_distribution self q)) +
      unat (fd_poster_fee_amount (compute_end_tx_fee_distribution self q)) = unat (en_base_fee q) * unat (en_gas_used q) \<and>
    (10 \<le> en_arbos_version q \<longrightarrow>
      fd_l1_fees_to_add (compute_end_tx_fee_distribution self q) = fd_poster_fee_amount (compute_end_tx_fee_distribution self q) \<and>
      fd_poster_fee_destination (compute_end_tx_fee_distribution self q) = L1_PRICER_FUNDS_POOL_ADDRESS)"
proof (intro conjI impI)
  have "\<exists>h d t c rf sc pd. self = \<lparr>poster_fee = sat_mul (en_base_fee q) (ucast (poster_gas self)), poster_gas = poster_gas self,
      compute_hold_gas = h, delayed_inbox = d, top_tx_type = t, current_retryable = c, current_refund_to = rf,
      scheduled_txs = sc, programs_depth = pd\<rparr>"
    using assms(1-4) by (auto simp: gas_charging_hook_def tx_processor_new_def Let_def split: if_splits)
  then show "unat (fd_infra_fee_amount (compute_end_tx_fee_distribution self q)) + unat (fd_network_fee_amount (compute_end_tx_fee_distribution self q)) +
      unat (fd_poster_fee_amount (compute_end_tx_fee_distribution self q)) = unat (en_base_fee q) * unat (en_gas_used q)"
    using fee_split_sum [OF assms(6,5)] by blast
next
  assume v: "10 \<le> en_arbos_version q"
  then have "\<not> en_arbos_version q < 2" by (auto simp: not_less elim: order_trans [rotated])
  with v show "fd_l1_fees_to_add (compute_end_tx_fee_distribution self q) = fd_poster_fee_amount (compute_end_tx_fee_distribution self q)"
    and "fd_poster_fee_destination (compute_end_tx_fee_distribution self q) = L1_PRICER_FUNDS_POOL_ADDRESS"
    by (simp_all add: compute_end_tx_fee_distribution_def Let_def)
qed

definition sample_charging :: gas_charging_params where
  "sample_charging = \<lparr>gc_base_fee = 100, gc_poster_cost = 500000, gc_is_gas_estimation = False, gc_is_eth_call = False,
     gc_skip_l1_charging = False, gc_min_base_fee = 100, gc_per_block_gas_limit = 32000000, gc_per_tx_gas_limit = 32000,
     gc_arbos_version = 50\<rparr>"

definition sample_end_tx :: end_tx_normal_params where
  "sample_end_tx = \<lparr>en_gas_used = 30000, en_gas_price = 100, en_base_fee = 100, en_coinbase = 5, en_network_fee_account = 6,
     en_infra_fee_account = 7, en_min_base_fee = 40, en_arbos_version = 50\<rparr>"

lemma fees_distributed_in_full_witness:
  "\<exists>self gas'. gas_charging_hook 21000 sample_charging (tx_processor_new 5, 79000) = (Ok (), (self, gas')) \<and>
     unat (fd_infra_fee_amount (compute_end_tx_fee_distribution self sample_end_tx)) +
     unat (fd_network_fee_amount (compute_end_tx_fee_distribution self sample_end_tx)) +
     unat (fd_poster_fee_amount (compute_end_tx_fee_distribution self sample_end_tx)) = 3000000"
proof -
  let ?run = "gas_charging_hook 21000 sample_charging (tx_processor_new 5, 79000)"
  have ok: "fst ?run = Ok ()" and pg: "poster_gas (fst (snd ?run)) = 5000"
    by (simp_all add: gas_charging_hook_def compute_poster_gas_def to_u64_or_max_def tx_processor_new_def sat_sub_def Let_def
        sample_charging_def)
  obtain self gas' where run: "?run = (Ok (), (self, gas'))" using ok by (metis prod.collapse)
  have "gc_base_fee sample_charging \<noteq> 0" "\<not> gc_skip_l1_charging sample_charging" "en_base_fee sample_end_tx = gc_base_fee sample_charging"
    "poster_gas self \<le> en_gas_used sample_end_tx" "unat (en_base_fee sample_end_tx) * unat (en_gas_used sample_end_tx) < 2 ^ 256"
    using pg run by (simp_all add: sample_charging_def sample_end_tx_def)
  from fees_distributed_in_full [OF run this] run show ?thesis
    by (auto simp: sample_end_tx_def)
qed

section \<open>Refunds of a redeem are bounded\<close>

text \<open>The transfers that are attempted, in order; \<open>D\<close> decides which of them succeed.\<close>

type_synonym transfer_log = "(address \<times> address \<times> u256) list"

definition logged_transfer :: "(address \<Rightarrow> address \<Rightarrow> u256 \<Rightarrow> bool) \<Rightarrow> transfer_log transfer_fn" where
  "logged_transfer D a b x log = (if D a b x then Ok () else Err (InsufficientBalance a 0 x), log @ [(a, b, x)])"

definition sent_to :: "address \<Rightarrow> transfer_log \<Rightarrow> nat" where
  "sent_to a log = (\<Sum>(f, t, x) \<leftarrow> log. if t = a then unat x else 0)"

definition sent :: "transfer_log \<Rightarrow> nat" where
  "sent log = (\<Sum>(f, t, x) \<leftarrow> log. unat x)"

lemma sent_append [simp]: "sent_to a (l @ l') = sent_to a l + sent_to a l'" "sent (l @ l') = sent l + sent l'"
  "sent_to a [] = 0" "sent [] = 0"
  by (simp_all add: sent_to_def sent_def)

text \<open>
  A refund out of an account makes two transfers: a part goes to the refund address, the rest to the sender. A list of
  refunds is given by the account and the two parts of each.
\<close>

definition refund_log :: "address \<Rightarrow> address \<Rightarrow> (address \<times> u256 \<times> u256) list \<Rightarrow> transfer_log" where
  "refund_log rt sender rs = concat (map (\<lambda>(acct, x, y). [(acct, rt, x), (acct, sender, y)]) rs)"

definition refunded :: "(address \<times> u256 \<times> u256) list \<Rightarrow> nat" where
  "refunded rs = (\<Sum>(acct, x, y) \<leftarrow> rs. unat x)"

lemma refund_log_append [simp]: "refund_log rt sender (rs @ rs') = refund_log rt sender rs @ refund_log rt sender rs'"
  "refunded (rs @ rs') = refunded rs + refunded rs'" "refund_log rt sender [] = []" "refunded [] = 0"
  by (simp_all add: refund_log_def refunded_def)

lemma sent_to_refund_log: "rt \<noteq> sender \<Longrightarrow> sent_to rt (refund_log rt sender rs) = refunded rs"
  by (induction rs) (auto simp: refund_log_def refunded_def sent_to_def)

lemma refund_with_pool_log:
  "\<exists>pool' rs. refund_with_pool (logged_transfer D) acct amount pool rt sender log = (Ok pool', log @ refund_log rt sender rs) \<and>
    unat pool' + refunded rs = unat pool \<and> sent (refund_log rt sender rs) = unat amount"
proof -
  let ?t = "snd (take_funds pool amount)"
  let ?rs = "[(acct, ?t, sat_sub amount ?t)]"
  have "refund_with_pool (logged_transfer D) acct amount pool rt sender log = (Ok (fst (take_funds pool amount)), log @ refund_log rt sender ?rs)"
    by (simp add: refund_with_pool_def refund_log_def case_prod_beta bnd_def ignore_def logged_transfer_def ret_run Let_def)
  moreover have "unat (fst (take_funds pool amount)) + refunded ?rs = unat pool"
    using take_funds_sum [of pool amount] by (simp add: refunded_def)
  moreover have "sent (refund_log rt sender ?rs) = unat amount"
    by (simp add: sent_def refund_log_def take_funds_split unat_sat_sub)
  ultimately show ?thesis by blast
qed

definition multi_refund :: "end_tx_retryable_params \<Rightarrow> u256 \<Rightarrow> nat" where
  "multi_refund params cost =
     (case er_multi_dimensional_cost params of
        Some m \<Rightarrow> if m < cost \<and> er_effective_base_fee params = er_block_base_fee params then unat cost - unat m else 0
      | None \<Rightarrow> 0)"

text \<open>The refunds that depend on the outcome, on the infrastructure account and on the multi-dimensional price.\<close>

lemma success_refund_log:
  "\<exists>pool' rs. (if c then refund_with_pool (logged_transfer D) acct amount pool rt sender else ret (fst (take_funds pool amount))) log =
      (Ok pool', log @ refund_log rt sender rs) \<and>
    unat pool' + refunded rs \<le> unat pool \<and> sent (refund_log rt sender rs) = (if c then unat amount else 0)"
proof (cases c)
  case True
  obtain pool' rs where "refund_with_pool (logged_transfer D) acct amount pool rt sender log = (Ok pool', log @ refund_log rt sender rs)"
    "unat pool' + refunded rs = unat pool" "sent (refund_log rt sender rs) = unat amount"
    using refund_with_pool_log by blast
  then show ?thesis using True by (intro exI [of _ pool'] exI [of _ rs]) simp
next
  case False
  then show ?thesis by (intro exI [of _ "fst (take_funds pool amount)"] exI [of _ "[]"]) (simp add: ret_run take_funds_split)
qed

lemma infra_refund_log:
  "\<exists>pool' n rs. (if c then bnd (refund_with_pool (logged_transfer D) acct (snd (take_funds left_over x)) pool rt sender)
        (\<lambda>pool. ret (pool, fst (take_funds left_over x))) else ret (pool, left_over)) log = (Ok (pool', n), log @ refund_log rt sender rs) \<and>
    unat pool' + refunded rs = unat pool \<and> sent (refund_log rt sender rs) + unat n = unat left_over"
proof (cases c)
  case True
  obtain pool' rs where "refund_with_pool (logged_transfer D) acct (snd (take_funds left_over x)) pool rt sender log =
      (Ok pool', log @ refund_log rt sender rs)"
    "unat pool' + refunded rs = unat pool" "sent (refund_log rt sender rs) = unat (snd (take_funds left_over x))"
    using refund_with_pool_log by blast
  then show ?thesis
    using True take_funds_sum [of left_over x]
    by (intro exI [of _ pool'] exI [of _ "fst (take_funds left_over x)"] exI [of _ rs]) (simp add: bnd_def ret_run)
next
  case False
  then show ?thesis by (intro exI [of _ pool] exI [of _ left_over] exI [of _ "[]"]) (simp add: ret_run)
qed

lemma multi_refund_log:
  "\<exists>pool' rs. (case er_multi_dimensional_cost params of
        Some m \<Rightarrow> if m < cost \<and> er_effective_base_fee params = er_block_base_fee params
          then refund_with_pool (logged_transfer D) acct (sat_sub cost m) pool rt sender else ret pool
      | None \<Rightarrow> ret pool) log = (Ok pool', log @ refund_log rt sender rs) \<and>
    unat pool' + refunded rs = unat pool \<and> sent (refund_log rt sender rs) = multi_refund params cost"
proof (cases "\<exists>m. er_multi_dimensional_cost params = Some m \<and> m < cost \<and> er_effective_base_fee params = er_block_base_fee params")
  case True
  then obtain m where "er_multi_dimensional_cost params = Some m" "m < cost" "er_effective_base_fee params = er_block_base_fee params" by blast
  then show ?thesis
    using refund_with_pool_log [of D acct "sat_sub cost m" pool rt sender log] by (simp add: multi_refund_def unat_sat_sub)
next
  case False
  then show ?thesis
    by (intro exI [of _ pool] exI [of _ "[]"]) (auto simp: multi_refund_def ret_run split: option.split)
qed

text \<open>
  C11: after a redeem, whether or not the transfers succeed, a sequence of refunds is made, each a transfer to the refund
  address and one of the rest to the sender. The parts for the refund address add up, over all refunds together, to at most the
  refund the submission paid for; when the refund address is not the sender, this bounds all it is sent. What is sent in
  all is the submission fee when the redeem succeeded, the gas that is left, and what the multi-dimensional price saves. The
  ticket is to be deleted exactly when the redeem succeeded, and its value is to go back to escrow otherwise.
\<close>

theorem redeem_refunds_bounded:
  "\<exists>res refunds. end_tx_retryable H params (\<lambda>a x l. l) (logged_transfer D) [] =
      (Ok res, refund_log (er_refund_to params) (er_from params) refunds) \<and>
    refunded refunds \<le> unat (er_max_refund params) \<and>
    (er_refund_to params \<noteq> er_from params \<longrightarrow>
      sent_to (er_refund_to params) (refund_log (er_refund_to params) (er_from params) refunds) \<le> unat (er_max_refund params)) \<and>
    sent (refund_log (er_refund_to params) (er_from params) refunds) =
      (if er_success params then unat (er_submission_fee_refund params) else 0) +
      unat (sat_mul (er_effective_base_fee params) (ucast (er_gas_left params))) +
      multi_refund params (sat_mul (er_effective_base_fee params) (ucast (er_gas_used params))) \<and>
    rr_should_delete_retryable res = er_success params \<and> rr_should_return_value_to_escrow res = (\<not> er_success params)"
proof -
  let ?rt = "er_refund_to params" and ?fr = "er_from params" and ?net = "er_network_fee_account params"
  let ?left = "sat_mul (er_effective_base_fee params) (ucast (er_gas_left params))"
  let ?cost = "sat_mul (er_effective_base_fee params) (ucast (er_gas_used params))"
  let ?refund = "\<lambda>acct amount pool. refund_with_pool (logged_transfer D) acct amount pool ?rt ?fr" and ?log = "refund_log ?rt ?fr"
  obtain p1 l1 where s1: "(if er_success params then ?refund ?net (er_submission_fee_refund params) (er_max_refund params)
       else ret (fst (take_funds (er_max_refund params) (er_submission_fee_refund params)))) [] = (Ok p1, ?log l1)"
    and b1: "unat p1 + refunded l1 \<le> unat (er_max_refund params)"
    and t1: "sent (?log l1) = (if er_success params then unat (er_submission_fee_refund params) else 0)"
    using success_refund_log [of "er_success params" D ?net _ _ ?rt ?fr "[]", unfolded append_Nil] by blast
  let ?p1 = "fst (take_funds p1 ?cost)"
  have c1: "unat ?p1 \<le> unat p1" by (simp add: take_funds_split)
  let ?infra = "sat_mul (min (er_min_base_fee params) (er_effective_base_fee params)) (ucast (er_gas_left params))"
  obtain p2 n l2 where s2: "(if 11 \<le> er_arbos_version params \<and> er_infra_fee_account params \<noteq> 0 then
       bnd (?refund (er_infra_fee_account params) (snd (take_funds ?left ?infra)) ?p1) (\<lambda>pool. ret (pool, fst (take_funds ?left ?infra)))
       else ret (?p1, ?left)) (?log l1) = (Ok (p2, n), ?log l1 @ ?log l2)"
    and b2: "unat p2 + refunded l2 = unat ?p1" and t2: "sent (?log l2) + unat n = unat ?left"
    using infra_refund_log [of "11 \<le> er_arbos_version params \<and> er_infra_fee_account params \<noteq> 0" D "er_infra_fee_account params"
        ?left ?infra ?p1 ?rt ?fr "?log l1"] by blast
  obtain p3 l3 where s3: "?refund ?net n p2 (?log l1 @ ?log l2) = (Ok p3, (?log l1 @ ?log l2) @ ?log l3)"
    and b3: "unat p3 + refunded l3 = unat p2" and t3: "sent (?log l3) = unat n"
    using refund_with_pool_log by blast
  obtain p4 l4 where s4: "(case er_multi_dimensional_cost params of
        Some m \<Rightarrow> if m < ?cost \<and> er_effective_base_fee params = er_block_base_fee params
          then ?refund ?net (sat_sub ?cost m) p3 else ret p3
      | None \<Rightarrow> ret p3) ((?log l1 @ ?log l2) @ ?log l3) = (Ok p4, ((?log l1 @ ?log l2) @ ?log l3) @ ?log l4)"
    and b4: "unat p4 + refunded l4 = unat p3" and t4: "sent (?log l4) = multi_refund params ?cost"
    using multi_refund_log [where params = params and cost = ?cost and D = D and acct = ?net and pool = p3 and rt = ?rt and sender = ?fr] by blast
  have run: "end_tx_retryable H params (\<lambda>a x l. l) (logged_transfer D) [] =
      (Ok \<lparr>rr_compute_gas_for_backlog = er_gas_used params, rr_should_delete_retryable = er_success params,
           rr_should_return_value_to_escrow = (\<not> er_success params),
           rr_escrow_address = retryable_escrow_address H (er_ticket_id params)\<rparr>, ((?log l1 @ ?log l2) @ ?log l3) @ ?log l4)"
    unfolding end_tx_retryable_def Let_def case_prod_beta
    by (simp only: bnd_def s1 s2 s3 s4 prod.case result.case fst_conv snd_conv ret_run)
  have pool: "refunded (l1 @ l2 @ l3 @ l4) \<le> unat (er_max_refund params)"
    using b1 b2 b3 b4 c1 by simp
  moreover have "sent (?log (l1 @ l2 @ l3 @ l4)) = (if er_success params then unat (er_submission_fee_refund params) else 0) +
      unat ?left + multi_refund params ?cost"
    using t1 t2 t3 t4 by simp
  ultimately show ?thesis
    using run sent_to_refund_log [of ?rt ?fr "l1 @ l2 @ l3 @ l4"] by (intro exI [of _ "l1 @ l2 @ l3 @ l4"] exI) auto
qed

lemma redeem_refunds_bounded_witness:
  "\<exists>res refunds. end_tx_retryable (\<lambda>_. 0) \<lparr>er_gas_left = 50000, er_gas_used = 50000, er_effective_base_fee = 100, er_from = 2,
       er_refund_to = 3, er_max_refund = 6000000, er_submission_fee_refund = 700, er_ticket_id = 1, er_value = 10, er_success = True,
       er_network_fee_account = 6, er_infra_fee_account = 7, er_min_base_fee = 40, er_arbos_version = 60,
       er_multi_dimensional_cost = Some 4000000, er_block_base_fee = 100\<rparr> (\<lambda>a x l. l) (logged_transfer (\<lambda>a b x. a = 6)) [] = (Ok res, refund_log 3 2 refunds) \<and>
     refunded refunds \<le> 6000000 \<and> sent_to 3 (refund_log 3 2 refunds) \<le> 6000000 \<and> sent (refund_log 3 2 refunds) = 700 + 5000000 + 1000000 \<and> rr_should_delete_retryable res"
proof -
  let ?p = "\<lparr>er_gas_left = 50000, er_gas_used = 50000, er_effective_base_fee = 100, er_from = 2,
       er_refund_to = 3, er_max_refund = 6000000, er_submission_fee_refund = 700, er_ticket_id = 1, er_value = 10, er_success = True,
       er_network_fee_account = 6, er_infra_fee_account = 7, er_min_base_fee = 40, er_arbos_version = 60,
       er_multi_dimensional_cost = Some 4000000, er_block_base_fee = 100\<rparr>"
  have "sat_mul 100 50000 = (5000000 :: u256)" by (simp add: sat_mul_def)
  then show ?thesis
    using redeem_refunds_bounded [of "\<lambda>_. 0" ?p "\<lambda>a b x. a = 6"] by (simp add: multi_refund_def) blast
qed

end
