(* ===== verification/Programs.thy ===== *)
theory Programs
  imports Address_Set Multi_Gas Util
begin

text \<open>
  Stylus programs (arbos/src/programs): the parameters packed into a storage word, the record of each program, the
  price of the memory pages it opens and of the data it occupies, and its life: activation, calls, keepalive, caching.
  The compiler that activates a program is a parameter.
\<close>

section \<open>Parameters\<close>

datatype programs_error = PE_Storage storage_error | NotActivated | VersionMismatch u64 u64 | Expired
  | InvalidParamsUpgrade string | UpToDate | KeepaliveTooSoon | NeedsUpgrade | InsufficientGas u64 u64
  | ReturnDataOutOfGas | Activation string | Execution string

record stylus_params =
  stp_arbos_version :: u64
  stp_version :: u16
  stp_ink_price :: u32
  stp_max_stack_depth :: u32
  stp_free_pages :: u16
  stp_page_gas :: u16
  stp_page_ramp :: u64
  stp_page_limit :: u16
  stp_min_init_gas :: u8
  stp_min_cached_init_gas :: u8
  stp_init_cost_scalar :: u8
  stp_cached_cost_scalar :: u8
  stp_expiry_days :: u16
  stp_keepalive_days :: u16
  stp_block_cache_size :: u16
  stp_max_wasm_size :: u32
  stp_max_fragment_count :: u8

text \<open>Three bytes of a \<open>u32\<close>, and the \<open>u32\<close> of three bytes.\<close>

definition u24_bytes :: "u32 \<Rightarrow> bytes" where
  "u24_bytes w = [ucast (drop_bit 16 w), ucast (drop_bit 8 w), ucast w]"

definition u24_of :: "u8 \<Rightarrow> u8 \<Rightarrow> u8 \<Rightarrow> u32" where
  "u24_of a b c = or (or (push_bit 16 (ucast a)) (push_bit 8 (ucast b))) (ucast c)"

text \<open>A reader of packed storage words: the next slot, the word at hand and the position in it.\<close>

record packed_reader =
  pr_slot :: u64
  pr_buf :: bytes
  pr_pos :: nat

definition take_bytes :: "'s backend \<Rightarrow> keccak \<Rightarrow> storage_handle \<Rightarrow> nat \<Rightarrow> ('s \<times> packed_reader, bytes, programs_error) comp" where
  "take_bytes B H sto count = (\<lambda>(s, r).
     if 32 < pr_pos r + count then
       (case sload_system B (sto_account sto) (new_slot H sto (pr_slot r)) s of
          (Ok v, s') \<Rightarrow> (Ok (take count (be_bytes 32 v)), (s', \<lparr>pr_slot = pr_slot r + 1, pr_buf = be_bytes 32 v, pr_pos = count\<rparr>))
        | (Err e, s') \<Rightarrow> (Err (PE_Storage e), (s', r))
        | (Panic, s') \<Rightarrow> (Panic, (s', r)))
     else (Ok (take count (drop (pr_pos r) (pr_buf r))), (s, r\<lparr>pr_pos := pr_pos r + count\<rparr>)))"

definition take_word :: "'s backend \<Rightarrow> keccak \<Rightarrow> storage_handle \<Rightarrow> nat \<Rightarrow> ('s \<times> packed_reader, 'w::len word, programs_error) comp" where
  "take_word B H sto count = bnd (take_bytes B H sto count) (\<lambda>b. ret (from_be b))"

definition take_u24 :: "'s backend \<Rightarrow> keccak \<Rightarrow> storage_handle \<Rightarrow> ('s \<times> packed_reader, u32, programs_error) comp" where
  "take_u24 B H sto = bnd (take_bytes B H sto 3) (\<lambda>b. ret (u24_of (b ! 0) (b ! 1) (b ! 2)))"

definition load_from_reader :: "'s backend \<Rightarrow> keccak \<Rightarrow> u64 \<Rightarrow> storage_handle \<Rightarrow> ('s \<times> packed_reader, stylus_params, programs_error) comp" where
  "load_from_reader B H ver sto =
     bnd (take_word B H sto 2) (\<lambda>v.
     bnd (take_u24 B H sto) (\<lambda>ink.
     bnd (take_word B H sto 4) (\<lambda>depth.
     bnd (take_word B H sto 2) (\<lambda>free.
     bnd (take_word B H sto 2) (\<lambda>pg.
     bnd (take_word B H sto 2) (\<lambda>pl.
     bnd (take_word B H sto 1) (\<lambda>mi.
     bnd (take_word B H sto 1) (\<lambda>mc.
     bnd (take_word B H sto 1) (\<lambda>ic.
     bnd (take_word B H sto 1) (\<lambda>cc.
     bnd (take_word B H sto 2) (\<lambda>ed.
     bnd (take_word B H sto 2) (\<lambda>kd.
     bnd (take_word B H sto 2) (\<lambda>bc.
     bnd (if 40 \<le> ver then take_word B H sto 4 else ret (128 * 1024)) (\<lambda>wasm.
     bnd (if 60 \<le> ver then take_word B H sto 1 else ret 0) (\<lambda>frag.
     ret \<lparr>stp_arbos_version = ver, stp_version = v, stp_ink_price = ink, stp_max_stack_depth = depth, stp_free_pages = free,
          stp_page_gas = pg, stp_page_ramp = 620674314, stp_page_limit = pl, stp_min_init_gas = mi,
          stp_min_cached_init_gas = mc, stp_init_cost_scalar = ic, stp_cached_cost_scalar = cc, stp_expiry_days = ed,
          stp_keepalive_days = kd, stp_block_cache_size = bc, stp_max_wasm_size = wasm,
          stp_max_fragment_count = frag\<rparr>)))))))))))))))"

definition load_params :: "'s backend \<Rightarrow> keccak \<Rightarrow> u64 \<Rightarrow> storage_handle \<Rightarrow> ('s, stylus_params, programs_error) comp" where
  "load_params B H ver sto s =
     (case load_from_reader B H ver sto (s, \<lparr>pr_slot = 0, pr_buf = replicate 32 0, pr_pos = 32\<rparr>) of (r, (s', _)) \<Rightarrow> (r, s'))"

definition encode_params :: "stylus_params \<Rightarrow> bytes" where
  "encode_params p =
     be_bytes 2 (stp_version p) @
     u24_bytes (stp_ink_price p) @
     be_bytes 4 (stp_max_stack_depth p) @ be_bytes 2 (stp_free_pages p) @ be_bytes 2 (stp_page_gas p) @
     be_bytes 2 (stp_page_limit p) @
     [stp_min_init_gas p, stp_min_cached_init_gas p, stp_init_cost_scalar p, stp_cached_cost_scalar p] @
     be_bytes 2 (stp_expiry_days p) @ be_bytes 2 (stp_keepalive_days p) @ be_bytes 2 (stp_block_cache_size p) @
     (if 40 \<le> stp_arbos_version p then be_bytes 4 (stp_max_wasm_size p) else []) @
     (if 60 \<le> stp_arbos_version p then [stp_max_fragment_count p] else [])"

fun save_words :: "'s backend \<Rightarrow> keccak \<Rightarrow> storage_handle \<Rightarrow> u64 \<Rightarrow> bytes \<Rightarrow> ('s, unit, programs_error) comp" where
  "save_words B H sto sl data =
     (if data = [] then ret () else
      bnd (map_err PE_Storage (sstore B (sto_account sto) (new_slot H sto sl)
             (from_be (take 32 data @ replicate (32 - length data) 0)))) (\<lambda>_.
      save_words B H sto (sl + 1) (drop 32 data)))"

definition save_params_to :: "'s backend \<Rightarrow> keccak \<Rightarrow> stylus_params \<Rightarrow> storage_handle \<Rightarrow> ('s, unit, programs_error) comp" where
  "save_params_to B H p sto = save_words B H sto 0 (encode_params p)"

definition upgrade_to_version :: "u16 \<Rightarrow> stylus_params \<Rightarrow> (stylus_params, programs_error) result" where
  "upgrade_to_version v p =
     (if v = 2 then
        (if stp_version p \<noteq> 1 then Err (InvalidParamsUpgrade ''unexpected version for upgrade to 2'')
         else Ok (p\<lparr>stp_version := 2, stp_min_init_gas := 69\<rparr>))
      else if v = 3 then
        (if stp_version p \<noteq> 2 then Err (InvalidParamsUpgrade ''unexpected version for upgrade to 3'')
         else Ok (p\<lparr>stp_version := 3\<rparr>))
      else Err (InvalidParamsUpgrade ''unsupported version upgrade''))"

definition upgrade_to_arbos_version :: "u64 \<Rightarrow> stylus_params \<Rightarrow> (stylus_params, programs_error) result" where
  "upgrade_to_arbos_version v p =
     (if v \<le> stp_arbos_version p then Err (InvalidParamsUpgrade ''unexpected arbos version downgrade'')
      else if v = 50 then
        Ok ((if 22000 < stp_max_stack_depth p then p\<lparr>stp_max_stack_depth := 22000\<rparr> else p)\<lparr>stp_arbos_version := v\<rparr>)
      else if v = 40 then
        (if stp_version p \<noteq> 2 then Err (InvalidParamsUpgrade ''unexpected stylus version for arbos 40 upgrade'')
         else Ok (p\<lparr>stp_max_wasm_size := 128 * 1024, stp_arbos_version := v\<rparr>))
      else if v = 60 then
        Ok (p\<lparr>stp_max_wasm_size := 256 * 1024, stp_max_fragment_count := 4, stp_arbos_version := v\<rparr>)
      else Ok (p\<lparr>stp_arbos_version := v\<rparr>))"

definition initial_params :: "u64 \<Rightarrow> stylus_params" where
  "initial_params ver = \<lparr>stp_arbos_version = ver, stp_version = 1, stp_ink_price = 10000, stp_max_stack_depth = 4 * 65536,
     stp_free_pages = 2, stp_page_gas = 1000, stp_page_ramp = 620674314, stp_page_limit = 128, stp_min_init_gas = 72,
     stp_min_cached_init_gas = 11, stp_init_cost_scalar = 50, stp_cached_cost_scalar = 50, stp_expiry_days = 365,
     stp_keepalive_days = 31, stp_block_cache_size = 32,
     stp_max_wasm_size = (if 60 \<le> ver then 256 * 1024 else if 40 \<le> ver then 128 * 1024 else 0),
     stp_max_fragment_count = (if 60 \<le> ver then 4 else 0)\<rparr>"

definition init_stylus_params :: "'s backend \<Rightarrow> keccak \<Rightarrow> u64 \<Rightarrow> storage_handle \<Rightarrow> ('s, unit, programs_error) comp" where
  "init_stylus_params B H ver sto = save_params_to B H (initial_params ver) sto"

section \<open>Memory pages and words\<close>

record memory_model =
  mm_free_pages :: u16
  mm_page_gas :: u16

definition MEMORY_EXPONENTS :: "u32 list" where
  "MEMORY_EXPONENTS =
    [1, 1, 1, 1, 1, 1, 2, 2, 2, 3, 3, 4, 5, 5,
     6, 7, 8, 9, 11, 12, 14, 17, 19, 22, 25, 29, 33, 38,
     43, 50, 57, 65, 75, 85, 98, 112, 128, 147, 168, 193, 221, 253,
     289, 331, 379, 434, 497, 569, 651, 745, 853, 976, 1117, 1279, 1463, 1675,
     1917, 2194, 2511, 2874, 3290, 3765, 4309, 4932, 5645, 6461, 7395, 8464, 9687, 11087,
     12689, 14523, 16621, 19024, 21773, 24919, 28521, 32642, 37359, 42758, 48938, 56010, 64104, 73368,
     83971, 96106, 109994, 125890, 144082, 164904, 188735, 216010, 247226, 282953, 323844, 370643, 424206, 485509,
     555672, 635973, 727880, 833067, 953456, 1091243, 1248941, 1429429, 1636000, 1872423, 2143012, 2452704, 2807151, 3212820,
     3677113, 4208502, 4816684, 5512756, 6309419, 7221210, 8264766, 9459129, 10826093, 12390601, 14181199, 16230562, 18576084, 21260563,
     24332984, 27849408, 31873999]"

definition mm_exp :: "u16 \<Rightarrow> u64" where
  "mm_exp pages = (if unat pages < length MEMORY_EXPONENTS then ucast (MEMORY_EXPONENTS ! unat pages) else - 1)"

definition mm_gas_cost :: "memory_model \<Rightarrow> u16 \<Rightarrow> u16 \<Rightarrow> u16 \<Rightarrow> u64" where
  "mm_gas_cost self new_pages opn ever =
     (let new_open = sat_add opn new_pages;
          new_ever = max ever new_open;
          sub_free = (\<lambda>pages. sat_sub pages (mm_free_pages self));
          adding = sat_sub (sub_free new_open) (sub_free opn);
          linear = sat_mul (ucast adding) (ucast (mm_page_gas self));
          expand = sat_sub (mm_exp new_ever) (mm_exp ever)
      in if new_ever \<le> mm_free_pages self then 0 else sat_add linear expand)"

definition div_ceil :: "u64 \<Rightarrow> u64 \<Rightarrow> u64" where
  "div_ceil a b = (if a mod b = 0 then a div b else a div b + 1)"

definition to_word_size :: "u64 \<Rightarrow> u64" where
  "to_word_size sz = (if - 1 - 31 < sz then (- 1) div 32 + 1 else div_ceil sz 32)"

definition evm_memory_cost :: "u64 \<Rightarrow> u64" where
  "evm_memory_cost sz =
     (let words = to_word_size sz in sat_add (sat_mul words 3) (sat_mul words words div 512))"

section \<open>The price of data\<close>

abbreviation ARBITRUM_START_TIME :: u64 where "ARBITRUM_START_TIME \<equiv> 1421388000"

record data_pricer =
  dp_demand :: backed
  dp_bytes_per_second :: backed
  dp_last_update_time :: backed
  dp_min_price :: backed
  dp_inertia :: backed

definition open_data_pricer :: "keccak \<Rightarrow> storage_handle \<Rightarrow> data_pricer" where
  "open_data_pricer H sto =
     \<lparr>dp_demand = backed_new H (base_key sto) 0, dp_bytes_per_second = backed_new H (base_key sto) 1,
      dp_last_update_time = backed_new H (base_key sto) 2, dp_min_price = backed_new H (base_key sto) 3,
      dp_inertia = backed_new H (base_key sto) 4\<rparr>"

definition init_data_pricer :: "'s backend \<Rightarrow> keccak \<Rightarrow> storage_handle \<Rightarrow> ('s, unit, programs_error) comp" where
  "init_data_pricer B H sto =
     bnd (map_err PE_Storage (uint32_set B (backed_new H (base_key sto) 0) 0)) (\<lambda>_.
     bnd (map_err PE_Storage (uint32_set B (backed_new H (base_key sto) 1)
            (ucast (((2 ^ 40 :: u64) div (365 * 24)) div (60 * 60))))) (\<lambda>_.
     bnd (map_err PE_Storage (uint64_set B (backed_new H (base_key sto) 2) ARBITRUM_START_TIME)) (\<lambda>_.
     bnd (map_err PE_Storage (uint32_set B (backed_new H (base_key sto) 3) 82928201)) (\<lambda>_.
     map_err PE_Storage (uint32_set B (backed_new H (base_key sto) 4) 21360419)))))"

text \<open>\<open>get(backend).unwrap_or(0)\<close>.\<close>

definition or_zero :: "('s, 'w::len word, storage_error) comp \<Rightarrow> ('s, 'w word, programs_error) comp" where
  "or_zero m s = (case m s of (Ok v, s') \<Rightarrow> (Ok v, s') | (Err _, s') \<Rightarrow> (Ok 0, s') | (Panic, s') \<Rightarrow> (Panic, s'))"

definition saturating_mul_by_bips :: "u64 \<Rightarrow> u64 \<Rightarrow> u64" where
  "saturating_mul_by_bips val bips =
     ucast (min (ucast val * ucast bips div ucast ONE_IN_BIPS) (ucast (- 1 :: u64)) :: u128)"

definition update_model :: "'s backend \<Rightarrow> data_pricer \<Rightarrow> u32 \<Rightarrow> u64 \<Rightarrow> ('s, u256, programs_error) comp" where
  "update_model B self temp_bytes time =
     bnd (or_zero (uint32_get B (dp_demand self))) (\<lambda>demand.
     bnd (or_zero (uint32_get B (dp_bytes_per_second self))) (\<lambda>bytes_per_second.
     bnd (or_zero (uint64_get B (dp_last_update_time self))) (\<lambda>last_update_time.
     bnd (or_zero (uint32_get B (dp_min_price self))) (\<lambda>min_price.
     bnd (map_err PE_Storage (uint32_get B (dp_inertia self))) (\<lambda>inertia.
     if inertia = 0 then ret 0 else
     (let passed = ucast (sat_sub time last_update_time) :: u32;
          credit = sat_mul bytes_per_second passed;
          demand' = sat_add (sat_sub demand credit) temp_bytes in
      bnd (map_err PE_Storage (uint32_set B (dp_demand self) demand')) (\<lambda>_.
      bnd (map_err PE_Storage (uint64_set B (dp_last_update_time self) time)) (\<lambda>_.
      case approx_exp_basis_points (ONE_IN_BIPS * ucast demand' div ucast inertia) 12 of
        None \<Rightarrow> panic
      | Some multiplier \<Rightarrow>
          ret (ucast (sat_mul (saturating_mul_by_bips (ucast min_price) multiplier) (ucast temp_bytes)))))))))))"

section \<open>Programs\<close>

record program =
  pg_version :: u16
  pg_init_cost :: u16
  pg_cached_cost :: u16
  pg_footprint :: u16
  pg_asm_estimate_kb :: u32
  pg_activated_at :: u32
  pg_age_seconds :: u64
  pg_cached :: bool

definition hours_since_arbitrum :: "u64 \<Rightarrow> u32" where
  "hours_since_arbitrum time = ucast (min (sat_sub time ARBITRUM_START_TIME div 3600) (ucast (- 1 :: u32)))"

definition hours_to_age :: "u64 \<Rightarrow> u32 \<Rightarrow> u64" where
  "hours_to_age time hours = sat_sub time (sat_add ARBITRUM_START_TIME (sat_mul (ucast hours) 3600))"

definition days_to_seconds :: "u16 \<Rightarrow> u64" where
  "days_to_seconds days = ucast days * 24 * 3600"

definition from_storage :: "bytes \<Rightarrow> u64 \<Rightarrow> program" where
  "from_storage b time =
     \<lparr>pg_version = from_be [b ! 0, b ! 1], pg_init_cost = from_be [b ! 2, b ! 3],
      pg_cached_cost = from_be [b ! 4, b ! 5], pg_footprint = from_be [b ! 6, b ! 7],
      pg_asm_estimate_kb = u24_of (b ! 11) (b ! 12) (b ! 13),
      pg_activated_at = u24_of (b ! 8) (b ! 9) (b ! 10),
      pg_age_seconds = hours_to_age time (u24_of (b ! 8) (b ! 9) (b ! 10)),
      pg_cached = (b ! 14 \<noteq> 0)\<rparr>"

definition to_storage :: "program \<Rightarrow> bytes" where
  "to_storage p =
     be_bytes 2 (pg_version p) @ be_bytes 2 (pg_init_cost p) @ be_bytes 2 (pg_cached_cost p) @
     be_bytes 2 (pg_footprint p) @ u24_bytes (pg_activated_at p) @ u24_bytes (pg_asm_estimate_kb p) @
     [if pg_cached p then 1 else 0] @ replicate 17 0"

definition asm_size :: "program \<Rightarrow> u32" where
  "asm_size p = sat_mul (pg_asm_estimate_kb p) 1024"

definition pg_init_gas :: "program \<Rightarrow> stylus_params \<Rightarrow> u64" where
  "pg_init_gas p params =
     sat_add (sat_mul (ucast (stp_min_init_gas params)) 128)
       (div_ceil (sat_mul (ucast (pg_init_cost p)) (ucast (stp_init_cost_scalar params) * 2)) 100)"

definition pg_cached_gas :: "program \<Rightarrow> stylus_params \<Rightarrow> u64" where
  "pg_cached_gas p params =
     sat_add (sat_mul (ucast (stp_min_cached_init_gas params)) 32)
       (div_ceil (sat_mul (ucast (pg_cached_cost p)) (ucast (stp_cached_cost_scalar params) * 2)) 100)"

record programs =
  ps_arbos_version :: u64
  ps_backing :: storage_handle
  ps_programs :: storage_handle
  ps_module_hashes :: storage_handle
  ps_data_pricer :: data_pricer
  ps_cache_managers :: address_set
  ps_activation_gas :: backed

definition open_programs :: "keccak \<Rightarrow> u64 \<Rightarrow> storage_handle \<Rightarrow> programs" where
  "open_programs H ver sto =
     \<lparr>ps_arbos_version = ver, ps_backing = sto, ps_programs = open_sub_storage H sto [1],
      ps_module_hashes = open_sub_storage H sto [2],
      ps_data_pricer = open_data_pricer H (open_sub_storage H sto [3]),
      ps_cache_managers = open_address_set H (open_sub_storage H sto [4]),
      ps_activation_gas = backed_new H (base_key (open_sub_storage H sto [5])) 0\<rparr>"

definition programs_initialize :: "'s backend \<Rightarrow> keccak \<Rightarrow> u64 \<Rightarrow> storage_handle \<Rightarrow> ('s, unit, programs_error) comp" where
  "programs_initialize B H ver sto =
     bnd (init_stylus_params B H ver (open_sub_storage H sto [0])) (\<lambda>_.
     init_data_pricer B H (open_sub_storage H sto [3]))"

definition programs_params :: "'s backend \<Rightarrow> keccak \<Rightarrow> programs \<Rightarrow> ('s, stylus_params, programs_error) comp" where
  "programs_params B H self = load_params B H (ps_arbos_version self) (open_sub_storage H (ps_backing self) [0])"

definition save_params :: "'s backend \<Rightarrow> keccak \<Rightarrow> programs \<Rightarrow> stylus_params \<Rightarrow> ('s, unit, programs_error) comp" where
  "save_params B H self p = save_params_to B H p (open_sub_storage H (ps_backing self) [0])"

definition get_activation_gas :: "'s backend \<Rightarrow> programs \<Rightarrow> ('s, u64, programs_error) comp" where
  "get_activation_gas B self = map_err PE_Storage (uint64_get B (ps_activation_gas self))"

definition set_activation_gas :: "'s backend \<Rightarrow> programs \<Rightarrow> u64 \<Rightarrow> ('s, unit, programs_error) comp" where
  "set_activation_gas B self v = map_err PE_Storage (uint64_set B (ps_activation_gas self) v)"

definition get_program :: "'s backend \<Rightarrow> keccak \<Rightarrow> programs \<Rightarrow> u256 \<Rightarrow> u64 \<Rightarrow> ('s, program, programs_error) comp" where
  "get_program B H self chash time =
     bnd (map_err PE_Storage (sload_system B (sto_account (ps_programs self)) (slot_for_key H (ps_programs self) chash)))
       (\<lambda>v. ret (from_storage (be_bytes 32 v) time))"

definition set_program :: "'s backend \<Rightarrow> keccak \<Rightarrow> programs \<Rightarrow> u256 \<Rightarrow> program \<Rightarrow> ('s, unit, programs_error) comp" where
  "set_program B H self chash p =
     map_err PE_Storage (sstore B (sto_account (ps_programs self)) (slot_for_key H (ps_programs self) chash)
       (from_be (to_storage p)))"

definition set_module_hash :: "'s backend \<Rightarrow> keccak \<Rightarrow> programs \<Rightarrow> u256 \<Rightarrow> u256 \<Rightarrow> ('s, unit, programs_error) comp" where
  "set_module_hash B H self chash module_hash =
     map_err PE_Storage (sstore B (sto_account (ps_module_hashes self))
       (slot_for_key H (ps_module_hashes self) chash) module_hash)"

definition get_module_hash :: "'s backend \<Rightarrow> keccak \<Rightarrow> programs \<Rightarrow> u256 \<Rightarrow> ('s, u256, programs_error) comp" where
  "get_module_hash B H self chash =
     map_err PE_Storage (sload_system B (sto_account (ps_module_hashes self))
       (slot_for_key H (ps_module_hashes self) chash))"

definition get_active_program ::
  "'s backend \<Rightarrow> keccak \<Rightarrow> programs \<Rightarrow> u256 \<Rightarrow> u64 \<Rightarrow> stylus_params \<Rightarrow> ('s, program, programs_error) comp" where
  "get_active_program B H self chash time params =
     bnd (get_program B H self chash time) (\<lambda>p.
     if pg_version p = 0 then throw NotActivated
     else if pg_version p \<noteq> stp_version params then
       throw (VersionMismatch (ucast (pg_version p)) (ucast (stp_version params)))
     else if days_to_seconds (stp_expiry_days params) < pg_age_seconds p then throw Expired
     else ret p)"

definition program_exists ::
  "'s backend \<Rightarrow> keccak \<Rightarrow> programs \<Rightarrow> u256 \<Rightarrow> u64 \<Rightarrow> stylus_params \<Rightarrow> ('s, u16 \<times> bool \<times> bool, programs_error) comp" where
  "program_exists B H self chash time params =
     bnd (get_program B H self chash time) (\<lambda>p.
     ret (pg_version p,
          pg_activated_at p = 0 \<or> days_to_seconds (stp_expiry_days params) < hours_to_age time (pg_activated_at p),
          pg_cached p))"

record prog_params =
  pp_version :: u16
  pp_max_depth :: u32
  pp_ink_price :: u32
  pp_debug_mode :: bool

definition make_prog_params :: "u16 \<Rightarrow> bool \<Rightarrow> stylus_params \<Rightarrow> prog_params" where
  "make_prog_params v debug params = \<lparr>pp_version = v, pp_max_depth = stp_max_stack_depth params,
     pp_ink_price = stp_ink_price params, pp_debug_mode = debug\<rparr>"

record activation_result =
  ar_module_hash :: u256
  ar_init_gas :: u16
  ar_cached_init_gas :: u16
  ar_asm_estimate :: u32
  ar_footprint :: u16

text \<open>The compiler: the WASM, the Stylus version, the ArbOS version, the page limit and the debug flag.\<close>

type_synonym activate_fn = "bytes \<Rightarrow> u16 \<Rightarrow> u64 \<Rightarrow> u16 \<Rightarrow> bool \<Rightarrow> (activation_result, programs_error) result"

definition activate_program ::
  "'s backend \<Rightarrow> keccak \<Rightarrow> programs \<Rightarrow> u256 \<Rightarrow> bytes \<Rightarrow> u64 \<Rightarrow> u16 \<Rightarrow> bool \<Rightarrow> activate_fn
    \<Rightarrow> ('s, u16 \<times> u256 \<times> u256, programs_error) comp" where
  "activate_program B H self chash wasm time page_limit debug activate =
     bnd (programs_params B H self) (\<lambda>params.
     bnd (program_exists B H self chash time params) (\<lambda>(current_version, expired, cached).
     if current_version = stp_version params \<and> \<not> expired then throw UpToDate else
     bnd (\<lambda>s. (activate wasm (stp_version params) (ps_arbos_version self) page_limit debug, s)) (\<lambda>info.
     bnd (set_module_hash B H self chash (ar_module_hash info)) (\<lambda>_.
     bnd (update_model B (ps_data_pricer self) (ar_asm_estimate info) time) (\<lambda>data_fee.
     bnd (set_program B H self chash
            \<lparr>pg_version = stp_version params, pg_init_cost = ar_init_gas info,
             pg_cached_cost = ar_cached_init_gas info, pg_footprint = ar_footprint info,
             pg_asm_estimate_kb = min (ucast (div_ceil (ucast (ar_asm_estimate info)) 1024)) 0xFFFFFF,
             pg_activated_at = hours_since_arbitrum time, pg_age_seconds = 0, pg_cached = cached\<rparr>) (\<lambda>_.
     ret (stp_version params, ar_module_hash info, data_fee)))))))"

definition call_gas_cost ::
  "'s backend \<Rightarrow> keccak \<Rightarrow> programs \<Rightarrow> u256 \<Rightarrow> u64 \<Rightarrow> u16 \<Rightarrow> bool
    \<Rightarrow> ('s, u64 \<times> program \<times> memory_model, programs_error) comp" where
  "call_gas_cost B H self chash time pages_open recent_cache_hit =
     bnd (programs_params B H self) (\<lambda>params.
     bnd (get_active_program B H self chash time params) (\<lambda>p.
     let model = \<lparr>mm_free_pages = stp_free_pages params, mm_page_gas = stp_page_gas params\<rparr>;
         cost = mm_gas_cost model (pg_footprint p) pages_open pages_open;
         cached = (pg_cached p \<or> recent_cache_hit);
         cost = (if cached \<or> 1 < pg_version p then sat_add cost (pg_cached_gas p params) else cost);
         cost = (if \<not> cached then sat_add cost (pg_init_gas p params) else cost)
     in ret (cost, p, model)))"

definition program_keepalive ::
  "'s backend \<Rightarrow> keccak \<Rightarrow> programs \<Rightarrow> u256 \<Rightarrow> u64 \<Rightarrow> ('s, u256, programs_error) comp" where
  "program_keepalive B H self chash time =
     bnd (programs_params B H self) (\<lambda>params.
     bnd (get_active_program B H self chash time params) (\<lambda>p.
     if pg_age_seconds p < days_to_seconds (stp_keepalive_days params) then throw KeepaliveTooSoon
     else if pg_version p \<noteq> stp_version params then throw NeedsUpgrade else
     bnd (update_model B (ps_data_pricer self) (asm_size p) time) (\<lambda>data_fee.
     bnd (set_program B H self chash (p\<lparr>pg_activated_at := hours_since_arbitrum time\<rparr>)) (\<lambda>_.
     ret data_fee))))"

definition set_program_cached ::
  "'s backend \<Rightarrow> keccak \<Rightarrow> programs \<Rightarrow> u256 \<Rightarrow> bool \<Rightarrow> u64 \<Rightarrow> ('s, unit, programs_error) comp" where
  "set_program_cached B H self chash to_cache time =
     bnd (programs_params B H self) (\<lambda>params.
     bnd (get_program B H self chash time) (\<lambda>p.
     if pg_version p \<noteq> stp_version params \<and> to_cache then throw NeedsUpgrade
     else if days_to_seconds (stp_expiry_days params) < pg_age_seconds p \<and> to_cache then throw Expired
     else if pg_cached p = to_cache then ret ()
     else set_program B H self chash (p\<lparr>pg_cached := to_cache\<rparr>)))"

definition attribute_wasm_computation :: "multi_gas \<Rightarrow> u64 \<Rightarrow> u64 \<Rightarrow> multi_gas" where
  "attribute_wasm_computation used starting_gas gas_left =
     (let used_gas = sat_sub starting_gas gas_left;
          accounted = single_gas used;
          residual = (if used_gas < accounted then 0 else used_gas - accounted)
      in fst (safe_increment used WasmComputation residual))"

section \<open>Packing\<close>

lemma u24_round_trip: "u24_of (ucast (drop_bit 16 w)) (ucast (drop_bit 8 w)) (ucast w) = take_bit 24 w"
proof (rule bit_word_eqI)
  fix n assume "n < LENGTH(32)"
  consider "n < 8" | "8 \<le> n \<and> n < 16" | "16 \<le> n \<and> n < 24" | "24 \<le> n" by linarith
  then show "bit (u24_of (ucast (drop_bit 16 w)) (ucast (drop_bit 8 w)) (ucast w)) n = bit (take_bit 24 w) n"
    using \<open>n < LENGTH(32)\<close>
    by cases (auto simp: u24_of_def bit_or_iff bit_push_bit_iff bit_ucast_iff bit_drop_bit_eq bit_take_bit_iff)
qed

lemma u24_small: "unat w < 2 ^ 24 \<Longrightarrow> take_bit 24 (w :: u32) = w"
  by (simp add: word_unat_eq_iff unsigned_take_bit_eq take_bit_nat_eq_self)

lemma u24_bound: "unat (u24_of a b c) < 2 ^ 24"
proof -
  have "take_bit 24 (u24_of a b c) = u24_of a b c"
  proof (rule bit_word_eqI)
    fix n assume "n < LENGTH(32)"
    then show "bit (take_bit 24 (u24_of a b c)) n = bit (u24_of a b c) n"
      by (cases "n < 24") (auto simp: u24_of_def bit_or_iff bit_push_bit_iff bit_ucast_iff bit_take_bit_iff dest: bit_imp_le_length)
  qed
  then have "unat (u24_of a b c) = take_bit 24 (unat (u24_of a b c))"
    by (metis unsigned_take_bit_eq)
  then show ?thesis
    by (metis take_bit_nat_less_exp)
qed

text \<open>What the reader makes of the word at hand.\<close>

definition decode_params :: "u64 \<Rightarrow> bytes \<Rightarrow> stylus_params" where
  "decode_params ver b =
     \<lparr>stp_arbos_version = ver, stp_version = from_be (take 2 b),
      stp_ink_price = u24_of (b ! 2) (b ! 3) (b ! 4), stp_max_stack_depth = from_be (take 4 (drop 5 b)),
      stp_free_pages = from_be (take 2 (drop 9 b)), stp_page_gas = from_be (take 2 (drop 11 b)),
      stp_page_ramp = 620674314, stp_page_limit = from_be (take 2 (drop 13 b)),
      stp_min_init_gas = from_be (take 1 (drop 15 b)), stp_min_cached_init_gas = from_be (take 1 (drop 16 b)),
      stp_init_cost_scalar = from_be (take 1 (drop 17 b)), stp_cached_cost_scalar = from_be (take 1 (drop 18 b)),
      stp_expiry_days = from_be (take 2 (drop 19 b)), stp_keepalive_days = from_be (take 2 (drop 21 b)),
      stp_block_cache_size = from_be (take 2 (drop 23 b)),
      stp_max_wasm_size = (if 40 \<le> ver then from_be (take 4 (drop 25 b)) else 128 * 1024),
      stp_max_fragment_count = (if 60 \<le> ver then from_be (take 1 (drop 29 b)) else 0)\<rparr>"

text \<open>The parameters a store can hold: what is not stored has its fixed value, and the ink price has 24 bits.\<close>

definition params_ok :: "stylus_params \<Rightarrow> bool" where
  "params_ok p \<longleftrightarrow> unat (stp_ink_price p) < 2 ^ 24 \<and> stp_page_ramp p = 620674314 \<and>
     (stp_arbos_version p < 40 \<longrightarrow> stp_max_wasm_size p = 128 * 1024) \<and>
     (stp_arbos_version p < 60 \<longrightarrow> stp_max_fragment_count p = 0)"

lemma length_encode_params: "length (encode_params p) \<le> 32" "encode_params p \<noteq> []"
  by (simp_all add: encode_params_def u24_bytes_def)

lemma u24_bytes_length [simp]: "length (u24_bytes w) = 3"
  by (simp add: u24_bytes_def)

lemma from_be_one [simp]: "from_be [b] = (b :: u8)"
  by (simp add: from_be_def)

lemma later_version: "60 \<le> (v :: u64) \<Longrightarrow> 40 \<le> v"
  by (simp add: word_le_nat_alt)

lemma decode_encode_params:
  assumes "params_ok p"
  shows "decode_params (stp_arbos_version p) (encode_params p @ z) = p"
proof -
  show ?thesis
    using assms later_version [of "stp_arbos_version p"]
    by (cases p) (auto simp: decode_params_def encode_params_def params_ok_def from_be_bytes nth_append
        u24_bytes_def u24_round_trip u24_small not_le)
qed

lemma program_round_trip:
  assumes "unat (pg_activated_at p) < 2 ^ 24" and "unat (pg_asm_estimate_kb p) < 2 ^ 24"
  shows "from_storage (be_bytes 32 (from_be (to_storage p) :: u256)) t =
    p\<lparr>pg_age_seconds := hours_to_age t (pg_activated_at p)\<rparr>"
proof -
  have len: "length (to_storage p) = 32" by (simp add: to_storage_def)
  then have "be_bytes 32 (from_be (to_storage p) :: u256) = to_storage p"
    using be_bytes_from_be [where 'a = 256, of "to_storage p"] by simp
  moreover have two: "from_be [ucast (drop_bit 8 w), ucast w] = w" for w :: u16
    using from_be_bytes [of 2 w] by (simp add: numeral_2_eq_2)
  have "be_bytes 2 w = [ucast (drop_bit 8 w), ucast w]" for w :: u16
    by (simp add: numeral_2_eq_2)
  ultimately show ?thesis
    using assms by (cases p) (simp add: from_storage_def to_storage_def u24_bytes_def u24_round_trip u24_small two)
qed

lemma approx_exp_12: "\<exists>m. approx_exp_basis_points x 12 = Some m"
  by (rule approx_exp_mono [of 12 x x]) auto

section \<open>Time\<close>

lemma unat_hours_since:
  "unat (hours_since_arbitrum t) = min ((unat t - 1421388000) div 3600) (2 ^ 32 - 1)"
proof -
  let ?m = "min (sat_sub t ARBITRUM_START_TIME div 3600) (ucast (- 1 :: u32))"
  have "unat (ucast (- 1 :: u32) :: u64) = 2 ^ 32 - 1"
    by (simp add: unat_ucast_up unsigned_minus_1_eq_mask mask_eq_exp_minus_1)
  then have "unat ?m = min ((unat t - 1421388000) div 3600) (2 ^ 32 - 1)"
    by (simp add: min_def word_le_nat_alt unat_div unat_sat_sub)
  then show ?thesis
    by (simp add: hours_since_arbitrum_def unsigned_ucast_eq take_bit_nat_eq_self)
qed

lemma unat_hours_to_age: "unat (hours_to_age t h) = unat t - (1421388000 + unat h * 3600)"
  using unat_bound [of h]
  by (simp add: hours_to_age_def unat_sat_sub unat_sat unat_ucast_up)

lemma unat_days_to_seconds: "unat (days_to_seconds d) = unat d * 86400"
  using unat_bound [of d] by (simp add: days_to_seconds_def unat_word_ariths unat_ucast_up)

text \<open>Whole hours are kept, so the age of a program started at \<open>t\<close> is over by less than an hour.\<close>

lemma age_since:
  assumes "1421388000 \<le> unat t" and "(unat t - 1421388000) div 3600 < 2 ^ 24" and "t \<le> t'"
  shows "unat t' - unat t \<le> unat (hours_to_age t' (hours_since_arbitrum t))"
    and "unat (hours_to_age t' (hours_since_arbitrum t)) < unat t' - unat t + 3600"
proof -
  have "unat t \<le> unat t'" using assms(3) by (simp add: word_le_nat_alt)
  moreover have "unat (hours_since_arbitrum t) = (unat t - 1421388000) div 3600"
    using assms(2) by (simp add: unat_hours_since)
  then have "unat (hours_since_arbitrum t) * 3600 \<le> unat t - 1421388000"
    and "unat t - 1421388000 < unat (hours_since_arbitrum t) * 3600 + 3600"
    using div_mult_mod_eq [of "unat t - 1421388000" 3600] mod_less_divisor [of 3600 "unat t - 1421388000"]
    by linarith+
  ultimately show "unat t' - unat t \<le> unat (hours_to_age t' (hours_since_arbitrum t))"
    and "unat (hours_to_age t' (hours_since_arbitrum t)) < unat t' - unat t + 3600"
    using assms(1) unfolding unat_hours_to_age by linarith+
qed

section \<open>Programs in a store\<close>

definition params_key :: "keccak \<Rightarrow> u256 \<Rightarrow> u256" where "params_key H k = derive_sub_key H k [0]"
definition data_key :: "keccak \<Rightarrow> u256 \<Rightarrow> u256" where "data_key H k = derive_sub_key H k [1]"
definition module_key :: "keccak \<Rightarrow> u256 \<Rightarrow> u256" where "module_key H k = derive_sub_key H k [2]"
definition pricer_key :: "keccak \<Rightarrow> u256 \<Rightarrow> u256" where "pricer_key H k = derive_sub_key H k [3]"

lemmas program_keys = params_key_def data_key_def module_key_def pricer_key_def

definition program_cells :: "keccak \<Rightarrow> u256 \<Rightarrow> u256 set \<Rightarrow> cell_id set" where
  "program_cells H k U = {at (params_key H k) 0} \<union> range (at (pricer_key H k)) \<union>
     (\<lambda>c. (ARBOS_STATE_ADDRESS, data_key H k, c)) ` U \<union> (\<lambda>c. (ARBOS_STATE_ADDRESS, module_key H k, c)) ` U"

definition program_keys_ok :: "keccak \<Rightarrow> u256 \<Rightarrow> bool" where
  "program_keys_ok H k \<longleftrightarrow> distinct [params_key H k, data_key H k, module_key H k, pricer_key H k]"

text \<open>The program record a store keeps for a code hash, and its parameters.\<close>

definition stored_program :: "keccak \<Rightarrow> (cell_id \<Rightarrow> u256) \<Rightarrow> u256 \<Rightarrow> u256 \<Rightarrow> u64 \<Rightarrow> program" where
  "stored_program H cell k c t = from_storage (be_bytes 32 (cell (ARBOS_STATE_ADDRESS, data_key H k, c))) t"

definition stored_params :: "keccak \<Rightarrow> (cell_id \<Rightarrow> u256) \<Rightarrow> u64 \<Rightarrow> u256 \<Rightarrow> stylus_params" where
  "stored_params H cell ver k = decode_params ver (be_bytes 32 (cell (at (params_key H k) 0)))"

text \<open>
  A program is usable from the time \<open>t\<close> it was started at until its expiry, up to the hour its age is rounded by,
  and from its expiry on it is rejected as expired.
\<close>

definition active_from :: "'s backend \<Rightarrow> keccak \<Rightarrow> programs \<Rightarrow> u256 \<Rightarrow> u64 \<Rightarrow> stylus_params \<Rightarrow> 's \<Rightarrow> bool" where
  "active_from B H self c t q s \<longleftrightarrow> (\<forall>t'. t \<le> t' \<longrightarrow>
     (unat t' - unat t + 3600 \<le> unat (stp_expiry_days q) * 86400 \<longrightarrow>
        (\<exists>p. get_active_program B H self c t' q s = (Ok p, s) \<and> pg_version p = stp_version q)) \<and>
     (unat (stp_expiry_days q) * 86400 < unat t' - unat t \<longrightarrow>
        get_active_program B H self c t' q s = (Err Expired, s)))"

locale program_store = arb_store B H F ok cell poke
  for B :: "'s backend" and H F ok cell poke +
  fixes k :: u256 and U :: "u256 set" and ver :: u64
  assumes ok_keys: "ok s \<Longrightarrow> program_keys_ok H k" and program_footprint: "program_cells H k U \<subseteq> F"
begin

abbreviation ps :: programs where
  "ps \<equiv> open_programs H ver (storage_new k)"

abbreviation prm :: "'s \<Rightarrow> stylus_params" where
  "prm s \<equiv> stored_params H (cell s) ver k"

abbreviation prog :: "'s \<Rightarrow> u256 \<Rightarrow> u64 \<Rightarrow> program" where
  "prog s c t \<equiv> stored_program H (cell s) k c t"

lemma in_F:
  "at (params_key H k) 0 \<in> F" "at (pricer_key H k) off \<in> F"
  "c \<in> U \<Longrightarrow> (ARBOS_STATE_ADDRESS, data_key H k, c) \<in> F"
  "c \<in> U \<Longrightarrow> (ARBOS_STATE_ADDRESS, module_key H k, c) \<in> F"
  using program_footprint by (auto simp: program_cells_def)

lemmas handles = open_programs_def open_data_pricer_def open_sub_storage_def storage_new_def new_slot_slot slot_for_key_slot

lemma ps_version [simp]: "ps_arbos_version ps = ver"
  by (simp add: open_programs_def)

lemma at_other [simp]: "j \<noteq> k' \<Longrightarrow> at j off \<noteq> (a, k', c)" "j \<noteq> k' \<Longrightarrow> (a, k', c) \<noteq> at j off"
  by (auto simp: at_def)

lemma params_run: "ok s \<Longrightarrow> programs_params B H ps s = (Ok (prm s), s)"
  using later_version [of ver]
  by (simp add: programs_params_def load_params_def load_from_reader_def take_word_def take_u24_def take_bytes_def
      handles sload_system_cell run_simps stored_params_def decode_params_def at_def params_key_def)

lemma save_run: "ok s \<Longrightarrow> save_params B H ps p s =
    (Ok (), poke s (at (params_key H k) 0) (from_be (encode_params p @ replicate (32 - length (encode_params p)) 0)))"
  using length_encode_params [of p]
  by (subst save_params_def)
    (simp add: save_params_to_def handles sstore_cell run_simps at_def params_key_def)

lemma save_load:
  assumes "ok s" and "params_ok p" and "stp_arbos_version p = ver"
  obtains s' where "ok s'" and "save_params B H ps p s = (Ok (), s')" and "programs_params B H ps s' = (Ok p, s')"
proof -
  let ?w = "encode_params p @ replicate (32 - length (encode_params p)) 0"
  have "length ?w = 32" using length_encode_params [of p] by simp
  then have "be_bytes 32 (from_be ?w :: u256) = ?w"
    using be_bytes_from_be [where 'a = 256, of ?w] by simp
  then have "prm (poke s (at (params_key H k) 0) (from_be ?w)) = p"
    using assms decode_encode_params [OF assms(2)] by (simp add: stored_params_def cell_poke in_F)
  then show thesis
    using that [OF ok_poke save_run] assms(1) by (simp add: params_run ok_poke)
qed

lemma get_program_run: "ok s \<Longrightarrow> get_program B H ps c t s = (Ok (prog s c t), s)"
  by (simp add: get_program_def handles sload_system_cell run_simps stored_program_def data_key_def)

lemma get_module_hash_run:
  "ok s \<Longrightarrow> get_module_hash B H ps c s = (Ok (cell s (ARBOS_STATE_ADDRESS, module_key H k, c)), s)"
  by (simp add: get_module_hash_def handles sload_system_cell run_simps module_key_def)

lemma set_program_run: "ok s \<Longrightarrow> set_program B H ps c p s =
    (Ok (), poke s (ARBOS_STATE_ADDRESS, data_key H k, c) (from_be (to_storage p)))"
  by (simp add: set_program_def handles sstore_cell run_simps data_key_def)

lemma set_module_hash_run: "ok s \<Longrightarrow> set_module_hash B H ps c h s =
    (Ok (), poke s (ARBOS_STATE_ADDRESS, module_key H k, c) h)"
  by (simp add: set_module_hash_def handles sstore_cell run_simps module_key_def)

lemma get_active_run: "ok s \<Longrightarrow> get_active_program B H ps c t q s =
    (let p = prog s c t in
     if pg_version p = 0 then Err NotActivated
     else if pg_version p \<noteq> stp_version q then Err (VersionMismatch (ucast (pg_version p)) (ucast (stp_version q)))
     else if days_to_seconds (stp_expiry_days q) < pg_age_seconds p then Err Expired else Ok p, s)"
  by (simp add: get_active_program_def get_program_run run_simps Let_def)

text \<open>The price model only touches its own cells.\<close>

lemma update_model_run:
  assumes "ok s"
  obtains fee s' where "update_model B (ps_data_pricer ps) n t s = (Ok fee, s')" and "ok s'"
    and "\<And>l. l \<in> F \<Longrightarrow> l \<notin> range (at (pricer_key H k)) \<Longrightarrow> cell s' l = cell s l"
proof -
  let ?q = "pricer_key H k"
  let ?g = "\<lambda>off. narrow_or_zero (cell s (at ?q off)) :: u32"
  let ?d = "sat_add (sat_sub (?g 0) (sat_mul (?g 1) (ucast (sat_sub t (narrow_or_zero (cell s (at ?q 2))))))) n"
  let ?s = "poke (poke s (at ?q 0) (ucast ?d)) (at ?q 2) (ucast t)"
  obtain m where m: "approx_exp_basis_points (ONE_IN_BIPS * ucast ?d div ucast (?g 4)) 12 = Some m"
    using approx_exp_12 by blast
  note run = update_model_def or_zero_def run_simps handles uint32_get_run uint64_get_run uint32_set_run uint64_set_run
    ok_poke Let_def
  show thesis
  proof (cases "?g 4 = 0")
    case True
    then have "update_model B (ps_data_pricer ps) n t s = (Ok 0, s)"
      using assms by (simp add: run pricer_key_def)
    then show thesis using that assms by blast
  next
    case False
    then have "\<exists>fee. update_model B (ps_data_pricer ps) n t s = (Ok fee, ?s)"
      using assms m by (simp add: run pricer_key_def)
    moreover have "cell ?s l = cell s l" if "l \<in> F" and "l \<notin> range (at ?q)" for l
      using assms that by (auto simp: cell_poke ok_poke in_F)
    ultimately show thesis using that assms ok_poke by blast
  qed
qed

text \<open>A program written with the current version and the current hour is active.\<close>

lemma started_active:
  assumes "ok s" and c: "c \<in> U" and ver: "pg_version p = stp_version (prm s)" "stp_version (prm s) \<noteq> 0"
    and hours: "pg_activated_at p = hours_since_arbitrum t" and asm: "unat (pg_asm_estimate_kb p) < 2 ^ 24"
    and t: "1421388000 \<le> unat t" "(unat t - 1421388000) div 3600 < 2 ^ 24"
    and s': "s' = poke s (ARBOS_STATE_ADDRESS, data_key H k, c) (from_be (to_storage p))"
  shows "ok s'" and "prm s' = prm s" and "active_from B H ps c t (prm s') s'"
    and "cell s' (ARBOS_STATE_ADDRESS, module_key H k, c) = cell s (ARBOS_STATE_ADDRESS, module_key H k, c)"
proof -
  note keys = ok_keys [OF assms(1), unfolded program_keys_ok_def]
  show ok': "ok s'" using assms(1) s' ok_poke by simp
  show params: "prm s' = prm s"
    using keys assms(1) c s' by (auto simp: stored_params_def cell_poke in_F)
  show "cell s' (ARBOS_STATE_ADDRESS, module_key H k, c) = cell s (ARBOS_STATE_ADDRESS, module_key H k, c)"
    using keys assms(1) c s' by (auto simp: cell_poke in_F)
  have "unat (pg_activated_at p) < 2 ^ 24"
    using hours t(2) by (simp add: unat_hours_since)
  then have prog: "prog s' c t' = p\<lparr>pg_age_seconds := hours_to_age t' (hours_since_arbitrum t)\<rparr>" for t'
    using program_round_trip [OF _ asm] assms(1) c s' hours by (simp add: stored_program_def cell_poke in_F)
  show "active_from B H ps c t (prm s') s'"
    unfolding active_from_def
  proof (intro allI impI)
    fix t' assume "t \<le> t'"
    from age_since [OF t this] show
     "(unat t' - unat t + 3600 \<le> unat (stp_expiry_days (prm s')) * 86400 \<longrightarrow>
        (\<exists>p. get_active_program B H ps c t' (prm s') s' = (Ok p, s') \<and> pg_version p = stp_version (prm s'))) \<and>
      (unat (stp_expiry_days (prm s')) * 86400 < unat t' - unat t \<longrightarrow>
        get_active_program B H ps c t' (prm s') s' = (Err Expired, s'))"
      using ver params by (simp add: get_active_run [OF ok'] prog word_less_nat_alt unat_days_to_seconds Let_def)
  qed
qed

lemma activate_start:
  assumes "ok s" and "c \<in> U" and run: "activate_program B H ps c wasm t pl dbg act s = (Ok (v, mh, fee), s')"
  obtains s1 p where "ok s1" and "prm s1 = prm s" and "v = stp_version (prm s)"
    and "cell s1 (ARBOS_STATE_ADDRESS, module_key H k, c) = mh"
    and "pg_version p = v" and "pg_activated_at p = hours_since_arbitrum t" and "unat (pg_asm_estimate_kb p) < 2 ^ 24"
    and "s' = poke s1 (ARBOS_STATE_ADDRESS, data_key H k, c) (from_be (to_storage p))"
proof -
  note keys = ok_keys [OF assms(1), unfolded program_keys_ok_def]
  obtain info where info: "act wasm (stp_version (prm s)) ver pl dbg = Ok info"
    and new: "\<not> (pg_version (prog s c t) = stp_version (prm s) \<and> \<not> (pg_activated_at (prog s c t) = 0 \<or>
       days_to_seconds (stp_expiry_days (prm s)) < hours_to_age t (pg_activated_at (prog s c t))))"
    using run assms(1)
    by (auto simp: activate_program_def program_exists_def params_run get_program_run bnd_def ret_run throw_run
        split: result.splits if_splits)
  define s0 where "s0 = poke s (ARBOS_STATE_ADDRESS, module_key H k, c) (ar_module_hash info)"
  have ok0: "ok s0" using assms(1) ok_poke by (simp add: s0_def)
  obtain fee' s1 where upd: "update_model B (ps_data_pricer ps) (ar_asm_estimate info) t s0 = (Ok fee', s1)" and ok1: "ok s1"
    and same: "\<And>l. l \<in> F \<Longrightarrow> l \<notin> range (at (pricer_key H k)) \<Longrightarrow> cell s1 l = cell s0 l"
    by (rule update_model_run [OF ok0, of "ar_asm_estimate info" t]) (rule that)
  let ?p = "\<lparr>pg_version = stp_version (prm s), pg_init_cost = ar_init_gas info,
     pg_cached_cost = ar_cached_init_gas info, pg_footprint = ar_footprint info,
     pg_asm_estimate_kb = min (ucast (div_ceil (ucast (ar_asm_estimate info)) 1024)) 0xFFFFFF,
     pg_activated_at = hours_since_arbitrum t, pg_age_seconds = 0, pg_cached = pg_cached (prog s c t)\<rparr>"
  have res: "v = stp_version (prm s)" "mh = ar_module_hash info"
    "s' = poke s1 (ARBOS_STATE_ADDRESS, data_key H k, c) (from_be (to_storage ?p))"
    using run new info upd assms(1)
    by (auto simp: activate_program_def program_exists_def params_run get_program_run bnd_def ret_run
        set_module_hash_run set_program_run [OF ok1] simp flip: s0_def)
  have "prm s1 = prm s" and "cell s1 (ARBOS_STATE_ADDRESS, module_key H k, c) = mh"
    using keys assms(1,2) by (auto simp: stored_params_def same in_F s0_def cell_poke res(2) image_iff)
  moreover have "unat (pg_asm_estimate_kb ?p) < 2 ^ 24"
    by (simp add: min_def word_le_nat_alt)
  ultimately show thesis
    using that [OF ok1 _ res(1) _ _ _ _ res(3)] res(1) by simp
qed

lemma keepalive_start:
  assumes "ok s" and "c \<in> U" and run: "program_keepalive B H ps c t s = (Ok fee, s')"
  obtains s1 p where "ok s1" and "prm s1 = prm s" and "stp_version (prm s) \<noteq> 0"
    and "pg_version p = stp_version (prm s)" and "pg_activated_at p = hours_since_arbitrum t"
    and "unat (pg_asm_estimate_kb p) < 2 ^ 24"
    and "s' = poke s1 (ARBOS_STATE_ADDRESS, data_key H k, c) (from_be (to_storage p))"
proof -
  note keys = ok_keys [OF assms(1), unfolded program_keys_ok_def]
  let ?p = "prog s c t"
  obtain fee' s1 where upd: "update_model B (ps_data_pricer ps) (asm_size ?p) t s = (Ok fee', s1)" and ok1: "ok s1"
    and same: "\<And>l. l \<in> F \<Longrightarrow> l \<notin> range (at (pricer_key H k)) \<Longrightarrow> cell s1 l = cell s l"
    by (rule update_model_run [OF assms(1), of "asm_size ?p" t]) (rule that)
  have res: "pg_version ?p = stp_version (prm s)" "stp_version (prm s) \<noteq> 0"
    "s' = poke s1 (ARBOS_STATE_ADDRESS, data_key H k, c) (from_be (to_storage (?p\<lparr>pg_activated_at := hours_since_arbitrum t\<rparr>)))"
    using run upd assms(1)
    by (auto simp: program_keepalive_def params_run get_active_run bnd_def throw_run ret_run set_program_run [OF ok1] Let_def
        split: if_splits)
  have "prm s1 = prm s"
    using keys by (auto simp: stored_params_def same in_F image_iff)
  moreover have "unat (pg_asm_estimate_kb ?p) < 2 ^ 24"
    by (simp add: stored_program_def from_storage_def u24_bound [simplified])
  ultimately show thesis
    using that [OF ok1 _ res(2) _ _ _ res(3)] res(1) by simp
qed

lemma restarted_active:
  assumes "ok s" and "c \<in> U" and t: "1421388000 \<le> unat t" "(unat t - 1421388000) div 3600 < 2 ^ 24"
    and ver: "stp_version (prm s) \<noteq> 0"
    and run: "(\<exists>v mh fee. activate_program B H ps c wasm t pl dbg act s = (Ok (v, mh, fee), s')) \<or>
      (\<exists>fee. program_keepalive B H ps c t s = (Ok fee, s'))"
  shows "programs_params B H ps s' = (Ok (prm s), s') \<and> active_from B H ps c t (prm s) s'"
proof -
  obtain s1 p where "ok s1" and "prm s1 = prm s" and "pg_version p = stp_version (prm s)"
    and "pg_activated_at p = hours_since_arbitrum t" and "unat (pg_asm_estimate_kb p) < 2 ^ 24"
    and "s' = poke s1 (ARBOS_STATE_ADDRESS, data_key H k, c) (from_be (to_storage p))"
    using run activate_start [OF assms(1,2)] keepalive_start [OF assms(1,2)] by metis
  then show ?thesis
    using started_active [of s1 c p t s'] assms(2) t ver params_run [of s'] by simp
qed

text \<open>Activation succeeds where the compiler does and the program is not in use.\<close>

lemma activate_ok:
  assumes "ok s" and "act wasm (stp_version (prm s)) ver pl dbg = Ok ai"
    and "pg_version (prog s c t) \<noteq> stp_version (prm s)"
  shows "\<exists>v mh fee s'. activate_program B H ps c wasm t pl dbg act s = (Ok (v, mh, fee), s')"
proof -
  define s0 where "s0 = poke s (ARBOS_STATE_ADDRESS, module_key H k, c) (ar_module_hash ai)"
  have ok0: "ok s0" using assms(1) ok_poke by (simp add: s0_def)
  obtain fee s1 where "update_model B (ps_data_pricer ps) (ar_asm_estimate ai) t s0 = (Ok fee, s1)" and "ok s1"
    by (rule update_model_run [OF ok0, of "ar_asm_estimate ai" t]) (rule that)
  then show ?thesis
    using assms
    by (auto simp: activate_program_def program_exists_def params_run get_program_run bnd_def ret_run
        set_module_hash_run set_program_run simp flip: s0_def)
qed

end

interpretation pst: program_store "state_backend E H" H "F \<union> program_cells H k U"
    "\<lambda>s. state_ok E H (F \<union> program_cells H k U) s \<and> program_keys_ok H k" "state_cell H" "state_poke E H" k U ver
  for E H F k U ver
proof
  fix s l l' v
  assume "state_ok E H (F \<union> program_cells H k U) s \<and> program_keys_ok H k"
    and "l \<in> F \<union> program_cells H k U" and "l' \<in> F \<union> program_cells H k U"
  then show "state_cell H (state_poke E H s l v) l' = (if l' = l then v else state_cell H s l')"
    by (intro st.cell_poke) blast+
qed (auto simp: st.sload_system_cell st.sload_cell st.sstore_cell st.ok_poke)

section \<open>Properties\<close>

text \<open>
  C20: Stylus parameters read back as they were saved: whatever parameters a store can represent, saving them succeeds and
  loading them from the resulting state, under the same ArbOS version, gives the same parameters; and an upgrade of
  the ArbOS version that succeeds leaves parameters that a store can represent.
\<close>

theorem stylus_params_round_trip:
  assumes "state_ok E H (F \<union> program_cells H k U) st" and "program_keys_ok H k"
    and "params_ok p" and "stp_arbos_version p = ver"
  shows "(\<exists>st'. save_params (state_backend E H) H (open_programs H ver (storage_new k)) p st = (Ok (), st') \<and>
      programs_params (state_backend E H) H (open_programs H ver (storage_new k)) st' = (Ok p, st')) \<and>
    (upgrade_to_arbos_version v p = Ok q \<longrightarrow> params_ok q \<and> stp_arbos_version q = v)"
proof
  show "\<exists>st'. save_params (state_backend E H) H (open_programs H ver (storage_new k)) p st = (Ok (), st') \<and>
      programs_params (state_backend E H) H (open_programs H ver (storage_new k)) st' = (Ok p, st')"
    using pst.save_load [of E H F k U st p ver] assms by blast
  have "stp_arbos_version p < v \<Longrightarrow> v < n \<Longrightarrow> stp_arbos_version p < n" for n
    by (rule less_trans)
  then show "upgrade_to_arbos_version v p = Ok q \<longrightarrow> params_ok q \<and> stp_arbos_version q = v"
    using assms(3) by (auto simp: upgrade_to_arbos_version_def params_ok_def not_le split: if_splits)
qed

lemma sample_program_keys:
  "params_key sample_keccak 7 = 1793" "data_key sample_keccak 7 = 1794"
  "module_key sample_keccak 7 = 1795" "pricer_key sample_keccak 7 = 1796"
  by (simp_all add: program_keys word_unat_eq_iff unat_sub_key_sample)

lemma sample_programs_ok:
  "state_ok sample_revm sample_keccak ({} \<union> program_cells sample_keccak 7 {9}) (sample_state c)"
  "program_keys_ok sample_keccak 7"
  by (rule state_ok_sample) (auto simp: program_cells_def sample_program_keys program_keys_ok_def)

lemma initial_params_ok: "params_ok (initial_params 40)" "stp_arbos_version (initial_params 40) = 40"
  by (simp_all add: params_ok_def initial_params_def)

lemma stylus_params_round_trip_witness:
  "(\<exists>st'. save_params (state_backend sample_revm sample_keccak) sample_keccak
        (open_programs sample_keccak 40 (storage_new 7)) (initial_params 40) (sample_state (\<lambda>_ _. 0)) = (Ok (), st') \<and>
      programs_params (state_backend sample_revm sample_keccak) sample_keccak
        (open_programs sample_keccak 40 (storage_new 7)) st' = (Ok (initial_params 40), st')) \<and>
   upgrade_to_arbos_version 50 (initial_params 40) =
     Ok ((initial_params 40)\<lparr>stp_max_stack_depth := 22000, stp_arbos_version := 50\<rparr>)"
  using stylus_params_round_trip [OF sample_programs_ok initial_params_ok]
  by (simp add: upgrade_to_arbos_version_def initial_params_def)

text \<open>
  C7: An activated program can be called until it expires. After an activation or a keepalive at time \<open>t\<close> has
  succeeded, under a nonzero Stylus version and at a time the 24-bit
  hour count holds, the parameters are unchanged and, at every later time, the program is active with the current version as long
  as the expiry is at least an hour away, and rejected as expired once more than the expiry has passed since \<open>t\<close>.
\<close>

theorem program_active_until_expiry:
  assumes "state_ok E H (F \<union> program_cells H k U) st" and "program_keys_ok H k" and "c \<in> U"
    and "1421388000 \<le> unat t" and "(unat t - 1421388000) div 3600 < 2 ^ 24"
    and "programs_params (state_backend E H) H (open_programs H ver (storage_new k)) st = (Ok q, st)"
    and "stp_version q \<noteq> 0"
    and "(\<exists>v mh fee. activate_program (state_backend E H) H (open_programs H ver (storage_new k)) c wasm t pl dbg act st =
            (Ok (v, mh, fee), st')) \<or>
         (\<exists>fee. program_keepalive (state_backend E H) H (open_programs H ver (storage_new k)) c t st = (Ok fee, st'))"
  shows "programs_params (state_backend E H) H (open_programs H ver (storage_new k)) st' = (Ok q, st') \<and>
    (\<forall>t'. t \<le> t' \<longrightarrow>
       (unat t' - unat t + 3600 \<le> unat (stp_expiry_days q) * 86400 \<longrightarrow>
          (\<exists>p. get_active_program (state_backend E H) H (open_programs H ver (storage_new k)) c t' q st' = (Ok p, st') \<and>
               pg_version p = stp_version q)) \<and>
       (unat (stp_expiry_days q) * 86400 < unat t' - unat t \<longrightarrow>
          get_active_program (state_backend E H) H (open_programs H ver (storage_new k)) c t' q st' = (Err Expired, st')))"
proof -
  have ok: "state_ok E H (F \<union> program_cells H k U) st \<and> program_keys_ok H k" using assms(1,2) by simp
  have q: "q = stored_params H (state_cell H st) ver k"
    using pst.params_run [OF ok, of ver] assms(6) by simp
  show ?thesis
    using pst.restarted_active [OF ok assms(3,4,5) assms(7) [unfolded q] assms(8)]
    unfolding q active_from_def .
qed

definition sample_params_word :: u256 where
  "sample_params_word = from_be (encode_params (initial_params 40) @ replicate (32 - length (encode_params (initial_params 40))) 0)"

definition sample_programs :: state where
  "sample_programs = sample_state (\<lambda>k key. if k = 1793 then sample_params_word else 0)"

lemma sample_programs_store_ok:
  "state_ok sample_revm sample_keccak ({} \<union> program_cells sample_keccak 7 {9}) sample_programs"
  "program_keys_ok sample_keccak 7"
  by (simp_all only: sample_programs_def sample_programs_ok)

lemma sample_programs_params: "stored_params sample_keccak (state_cell sample_keccak sample_programs) 40 7 = initial_params 40"
proof -
  let ?w = "encode_params (initial_params 40) @ replicate (32 - length (encode_params (initial_params 40))) 0"
  have "length ?w = 32" using length_encode_params [of "initial_params 40"] by simp
  then have "be_bytes 32 sample_params_word = ?w"
    using be_bytes_from_be [where 'a = 256, of ?w] by (simp add: sample_params_word_def)
  then show ?thesis
    using decode_encode_params [OF initial_params_ok(1)]
    by (simp add: stored_params_def sample_programs_def sample_program_keys at_sample initial_params_ok)
qed

definition sample_compiler :: activate_fn where
  "sample_compiler wasm v ver pl dbg = Ok \<lparr>ar_module_hash = 11, ar_init_gas = 3, ar_cached_init_gas = 2,
     ar_asm_estimate = 5000, ar_footprint = 1\<rparr>"

lemma sample_activates:
  "\<exists>v mh fee st'. activate_program (state_backend sample_revm sample_keccak) sample_keccak
     (open_programs sample_keccak 40 (storage_new 7)) 9 [] 1700000000 128 False sample_compiler sample_programs =
     (Ok (v, mh, fee), st')"
proof -
  have "pg_version (stored_program sample_keccak (state_cell sample_keccak sample_programs) 7 9 1700000000) = 0"
    by (simp add: stored_program_def from_storage_def sample_program_keys sample_programs_def state_cell_sample be_bytes_zero from_be_def)
  then show ?thesis
    using pst.activate_ok [where act = sample_compiler and wasm = "[]" and pl = 128 and dbg = False and c = 9 and
        t = 1700000000 and ver = 40, OF conjI [OF sample_programs_store_ok]]
    by (simp add: sample_programs_params sample_compiler_def initial_params_def)
qed

lemma program_active_until_expiry_witness:
  "\<exists>v mh fee st' p. activate_program (state_backend sample_revm sample_keccak) sample_keccak
     (open_programs sample_keccak 40 (storage_new 7)) 9 [] 1700000000 128 False sample_compiler sample_programs =
     (Ok (v, mh, fee), st') \<and>
   get_active_program (state_backend sample_revm sample_keccak) sample_keccak
     (open_programs sample_keccak 40 (storage_new 7)) 9 1710000000 (initial_params 40) st' = (Ok p, st') \<and>
   get_active_program (state_backend sample_revm sample_keccak) sample_keccak
     (open_programs sample_keccak 40 (storage_new 7)) 9 1800000000 (initial_params 40) st' = (Err Expired, st')"
proof -
  let ?B = "state_backend sample_revm sample_keccak" and ?P = "open_programs sample_keccak 40 (storage_new 7)"
  note ok = sample_programs_store_ok
  obtain v mh fee st' where run: "activate_program ?B sample_keccak ?P 9 [] 1700000000 128 False sample_compiler sample_programs =
      (Ok (v, mh, fee), st')"
    using sample_activates by blast
  have q: "programs_params ?B sample_keccak ?P sample_programs = (Ok (initial_params 40), sample_programs)"
    using pst.params_run [OF conjI [OF ok], of 40] by (simp add: sample_programs_params)
  have days: "unat (stp_expiry_days (initial_params 40)) * 86400 = 31536000" by (simp add: initial_params_def)
  have "\<exists>v mh fee. activate_program ?B sample_keccak ?P 9 [] 1700000000 128 False sample_compiler sample_programs =
      (Ok (v, mh, fee), st')"
    using run by blast
  note act = program_active_until_expiry [OF ok _ _ _ q _ disjI1 [OF this]]
  have "\<forall>t'. 1700000000 \<le> t' \<longrightarrow>
       (unat t' - unat (1700000000 :: u64) + 3600 \<le> 31536000 \<longrightarrow>
          (\<exists>p. get_active_program ?B sample_keccak ?P 9 t' (initial_params 40) st' = (Ok p, st') \<and>
               pg_version p = stp_version (initial_params 40))) \<and>
       (31536000 < unat t' - unat (1700000000 :: u64) \<longrightarrow>
          get_active_program ?B sample_keccak ?P 9 t' (initial_params 40) st' = (Err Expired, st'))"
    unfolding days [symmetric] by (rule conjunct2 [OF act]) (simp_all add: initial_params_def)
  from this [rule_format, of 1710000000] this [rule_format, of 1800000000] run show ?thesis
    by auto
qed

end
