(* ===== verification/Internal_Tx.thy ===== *)
theory Internal_Tx
  imports L1_System Messages
begin

text \<open>
  Internal transactions (arbos/src/internal_tx.rs): the calldata of the three kinds, written and read back, and
  the two kinds of batch posting report, which turn the size of a batch into a spending report to L1 pricing.
\<close>

section \<open>Calldata\<close>

datatype internal_tx_error = TooShort nat nat | U256Overflow string

record start_block_data =
  sb_l1_base_fee :: u256
  sb_l1_block_number :: u64
  sb_l2_block_number :: u64
  sb_time_passed :: u64

record batch_posting_report_data =
  br_batch_timestamp :: u64
  br_batch_poster :: address
  br_batch_data_gas :: u64
  br_l1_base_fee :: u256

record batch_posting_report_v2_data =
  b2_batch_timestamp :: u64
  b2_batch_poster :: address
  b2_batch_calldata_length :: u64
  b2_batch_calldata_non_zeros :: u64
  b2_batch_extra_gas :: u64
  b2_l1_base_fee :: u256

text \<open>\<open>B256::left_padding_from\<close> of a big-endian value.\<close>

definition left_padded :: "bytes \<Rightarrow> bytes" where
  "left_padded b = replicate (32 - length b) 0 @ b"

definition encode_start_block :: "u256 \<Rightarrow> u64 \<Rightarrow> u64 \<Rightarrow> u64 \<Rightarrow> bytes" where
  "encode_start_block base_fee l1_number l2_number time_passed =
     [0x6b, 0xf6, 0xa4, 0x2d] @ be_bytes 32 base_fee @ left_padded (be_bytes 8 l1_number) @
     left_padded (be_bytes 8 l2_number) @ left_padded (be_bytes 8 time_passed)"

definition encode_batch_posting_report :: "u64 \<Rightarrow> address \<Rightarrow> u64 \<Rightarrow> u64 \<Rightarrow> u256 \<Rightarrow> bytes" where
  "encode_batch_posting_report ts addr number data_gas base_fee =
     [0xb6, 0x69, 0x37, 0x71] @ left_padded (be_bytes 8 ts) @ left_padded (be_bytes 20 addr) @
     left_padded (be_bytes 8 number) @ left_padded (be_bytes 8 data_gas) @ be_bytes 32 base_fee"

definition encode_batch_posting_report_v2 :: "u64 \<Rightarrow> address \<Rightarrow> u64 \<Rightarrow> u64 \<Rightarrow> u64 \<Rightarrow> u64 \<Rightarrow> u256 \<Rightarrow> bytes" where
  "encode_batch_posting_report_v2 ts addr number len nz extra base_fee =
     [0x99, 0x98, 0x26, 0x9e] @ left_padded (be_bytes 8 ts) @ left_padded (be_bytes 20 addr) @
     left_padded (be_bytes 8 number) @ left_padded (be_bytes 8 len) @ left_padded (be_bytes 8 nz) @
     left_padded (be_bytes 8 extra) @ be_bytes 32 base_fee"

text \<open>The bytes \<open>i..j\<close> of a slice, and the question mark operator.\<close>

definition range_of :: "nat \<Rightarrow> nat \<Rightarrow> bytes \<Rightarrow> bytes" where
  "range_of i j b = take (j - i) (drop i b)"

fun try_ok :: "('a, 'e) result \<Rightarrow> ('a \<Rightarrow> ('b, 'e) result) \<Rightarrow> ('b, 'e) result" where
  "try_ok (Ok a) f = f a"
| "try_ok (Err e) f = Err e"
| "try_ok Panic f = Panic"

definition u256_to_u64 :: "bytes \<Rightarrow> string \<Rightarrow> (u64, internal_tx_error) result" where
  "u256_to_u64 bs field =
     (let v = from_be bs :: u256 in if unat v < 2 ^ 64 then Ok (ucast v) else Err (U256Overflow field))"

definition decode_start_block_data :: "bytes \<Rightarrow> (start_block_data, internal_tx_error) result" where
  "decode_start_block_data data =
     (if length data < 4 + 32 * 4 then Err (TooShort (4 + 32 * 4) (length data)) else
      let args = drop 4 data in
      try_ok (u256_to_u64 (range_of 32 64 args) ''l1_block_number'') (\<lambda>l1_number.
      try_ok (u256_to_u64 (range_of 64 96 args) ''l2_block_number'') (\<lambda>l2_number.
      try_ok (u256_to_u64 (range_of 96 128 args) ''time_passed'') (\<lambda>time_passed.
      Ok \<lparr>sb_l1_base_fee = from_be (range_of 0 32 args), sb_l1_block_number = l1_number,
          sb_l2_block_number = l2_number, sb_time_passed = time_passed\<rparr>))))"

definition decode_batch_posting_report :: "bytes \<Rightarrow> (batch_posting_report_data, internal_tx_error) result" where
  "decode_batch_posting_report data =
     (if length data < 4 + 32 * 5 then Err (TooShort (4 + 32 * 5) (length data)) else
      let args = drop 4 data in
      try_ok (u256_to_u64 (range_of 0 32 args) ''batch_timestamp'') (\<lambda>ts.
      try_ok (u256_to_u64 (range_of 96 128 args) ''batch_data_gas'') (\<lambda>data_gas.
      Ok \<lparr>br_batch_timestamp = ts, br_batch_poster = from_be (range_of 44 64 args),
          br_batch_data_gas = data_gas, br_l1_base_fee = from_be (range_of 128 160 args)\<rparr>)))"

definition decode_batch_posting_report_v2 :: "bytes \<Rightarrow> (batch_posting_report_v2_data, internal_tx_error) result" where
  "decode_batch_posting_report_v2 data =
     (if length data < 4 + 32 * 7 then Err (TooShort (4 + 32 * 7) (length data)) else
      let args = drop 4 data in
      try_ok (u256_to_u64 (range_of 0 32 args) ''batch_timestamp'') (\<lambda>ts.
      try_ok (u256_to_u64 (range_of 96 128 args) ''batch_calldata_length'') (\<lambda>len.
      try_ok (u256_to_u64 (range_of 128 160 args) ''batch_calldata_non_zeros'') (\<lambda>nz.
      try_ok (u256_to_u64 (range_of 160 192 args) ''batch_extra_gas'') (\<lambda>extra.
      Ok \<lparr>b2_batch_timestamp = ts, b2_batch_poster = from_be (range_of 44 64 args),
          b2_batch_calldata_length = len, b2_batch_calldata_non_zeros = nz,
          b2_batch_extra_gas = extra, b2_l1_base_fee = from_be (range_of 192 224 args)\<rparr>)))))"

section \<open>Batch posting reports\<close>

text \<open>\<open>unwrap_or(0)\<close> on an accessor of L1 pricing.\<close>

definition l1_or_zero :: "('s, u64, l1_pricing_error) comp \<Rightarrow> ('s, u64, internal_tx_error) comp" where
  "l1_or_zero m s = (case m s of (Ok v, s') \<Rightarrow> (Ok v, s') | (Err _, s') \<Rightarrow> (Ok 0, s') | (Panic, s') \<Rightarrow> (Panic, s'))"

text \<open>The cost of a batch is an \<open>i64\<close> kept in 64 bits; its sum with the gas of the data saturates.\<close>

definition report_gas :: "u64 \<Rightarrow> u64 \<Rightarrow> u64" where
  "report_gas per_batch_gas data_gas =
     of_int (max 0 (max (- (2 ^ 63)) (min (2 ^ 63 - 1) (sint per_batch_gas + min (uint data_gas) (2 ^ 63 - 1)))))"

definition apply_batch_posting_report :: "'s backend \<Rightarrow> keccak \<Rightarrow> l1_pricing \<Rightarrow> batch_posting_report_data \<Rightarrow> u64
    \<Rightarrow> (address \<Rightarrow> address \<Rightarrow> u256 \<Rightarrow> ('s, unit, balance_error) comp) \<Rightarrow> ('s, unit, internal_tx_error) comp" where
  "apply_batch_posting_report B H l1p inputs current_time transfer_fn =
     bnd (l1_or_zero (per_batch_gas_cost B l1p)) (\<lambda>per_batch_gas.
     let gas_spent = report_gas per_batch_gas (br_batch_data_gas inputs);
         wei_spent = sat_mul (br_l1_base_fee inputs) (ucast gas_spent) in
     ignore (update_for_batch_poster_spending B H l1p (br_batch_timestamp inputs) current_time (br_batch_poster inputs)
       wei_spent (br_l1_base_fee inputs) transfer_fn))"

definition floor_gas :: "u64 \<Rightarrow> u64 \<Rightarrow> u64 \<Rightarrow> u64" where
  "floor_gas len nz per_token = sat_add (sat_mul per_token (sat_add (sat_add len (sat_mul nz 3)) 172)) 21000"

definition apply_batch_posting_report_v2 ::
  "'s backend \<Rightarrow> keccak \<Rightarrow> u64 \<Rightarrow> l1_pricing \<Rightarrow> batch_posting_report_v2_data \<Rightarrow> u64
    \<Rightarrow> (address \<Rightarrow> address \<Rightarrow> u256 \<Rightarrow> ('s, unit, balance_error) comp) \<Rightarrow> ('s, unit, internal_tx_error) comp" where
  "apply_batch_posting_report_v2 B H arbos_version l1p inputs current_time transfer_fn =
     (let len = b2_batch_calldata_length inputs; nz = b2_batch_calldata_non_zeros inputs;
          gas_spent = sat_add (legacy_cost_for_stats \<lparr>bds_length = len, non_zeros = nz\<rparr>) (b2_batch_extra_gas inputs) in
      bnd (l1_or_zero (per_batch_gas_cost B l1p)) (\<lambda>per_batch_gas.
      let gas_spent = sat_add gas_spent (of_int (max (sint per_batch_gas) 0)) in
      bnd (if 50 \<le> arbos_version then
             bnd (l1_or_zero (parent_gas_floor_per_token B l1p)) (\<lambda>per_token.
             let floor_gas_spent = floor_gas len nz per_token in
             ret (if gas_spent < floor_gas_spent then floor_gas_spent else gas_spent))
           else ret gas_spent) (\<lambda>gas_spent.
      let wei_spent = sat_mul (b2_l1_base_fee inputs) (ucast gas_spent) in
      ignore (update_for_batch_poster_spending B H l1p (b2_batch_timestamp inputs) current_time (b2_batch_poster inputs)
        wei_spent (b2_l1_base_fee inputs) transfer_fn))))"

section \<open>Calldata is read back\<close>

lemma left_padded_length [simp]: "length b \<le> 32 \<Longrightarrow> length (left_padded b) = 32"
  by (simp add: left_padded_def)

lemma left_padded_u64 [simp]: "u256_to_u64 (left_padded (be_bytes 8 (x :: u64))) n = Ok x"
proof -
  have "(from_be (left_padded (be_bytes 8 x)) :: u256) = ucast x"
    using from_be_padded [where 'b = 256, of 8 24 x] by (simp add: left_padded_def)
  then show ?thesis
    using unat_bound [of x] by (simp add: u256_to_u64_def unat_ucast_up ucast_down_up)
qed

lemma left_padded_poster: "drop 12 (left_padded (be_bytes 20 a)) = be_bytes 20 a"
  by (simp add: left_padded_def)

lemma decode_encode_start_block:
  "decode_start_block_data (encode_start_block fee n1 n2 t) =
     Ok \<lparr>sb_l1_base_fee = fee, sb_l1_block_number = n1, sb_l2_block_number = n2, sb_time_passed = t\<rparr>"
  by (simp add: decode_start_block_data_def encode_start_block_def range_of_def from_be_bytes)

lemma decode_encode_report:
  "decode_batch_posting_report (encode_batch_posting_report ts addr n gas fee) =
     Ok \<lparr>br_batch_timestamp = ts, br_batch_poster = addr, br_batch_data_gas = gas, br_l1_base_fee = fee\<rparr>"
  by (simp add: decode_batch_posting_report_def encode_batch_posting_report_def range_of_def from_be_bytes left_padded_poster)

lemma decode_encode_report_v2:
  "decode_batch_posting_report_v2 (encode_batch_posting_report_v2 ts addr n len nz extra fee) =
     Ok \<lparr>b2_batch_timestamp = ts, b2_batch_poster = addr, b2_batch_calldata_length = len,
         b2_batch_calldata_non_zeros = nz, b2_batch_extra_gas = extra, b2_l1_base_fee = fee\<rparr>"
  by (simp add: decode_batch_posting_report_v2_def encode_batch_posting_report_v2_def range_of_def from_be_bytes left_padded_poster)

section \<open>Reports reach L1 pricing\<close>

text \<open>The views of the two reads, and of a report whose refusal is only logged.\<close>

lemma l1_batch_reads:
  assumes "l1_holds E H F k U v st"
  shows "l1_or_zero (per_batch_gas_cost (state_backend E H) (l1_open H k ver)) st = (Ok (w_batch_cost v), st)"
    and "50 \<le> ver \<Longrightarrow> l1_or_zero (parent_gas_floor_per_token (state_backend E H) (l1_open H k ver)) st = (Ok (w_floor v), st)"
proof -
  note reads = l1.int64_get_run [OF conjunct1 [OF assms]] l1.uint64_get_run [OF conjunct1 [OF assms]]
  show "l1_or_zero (per_batch_gas_cost (state_backend E H) (l1_open H k ver)) st = (Ok (w_batch_cost v), st)"
    using assms by (simp add: l1_or_zero_def per_batch_gas_cost_def l1_open_fields map_err_def reads l1_at_def Let_def ucast_down_up)
  assume "50 \<le> ver"
  then have "\<not> ver < 50" by (simp add: not_less)
  then show "l1_or_zero (parent_gas_floor_per_token (state_backend E H) (l1_open H k ver)) st = (Ok (w_floor v), st)"
    using assms
    by (simp add: l1_or_zero_def parent_gas_floor_per_token_def l1_open_fields map_err_def reads l1_at_def Let_def ucast_down_up)
qed

lemma larger: "(if g < f then f else g) = max g (f :: u64)"
  by (auto simp: max_def)

definition after_report :: "u64 \<Rightarrow> u64 \<Rightarrow> address \<Rightarrow> u256 \<Rightarrow> u256 \<Rightarrow> l1_view \<Rightarrow> l1_view" where
  "after_report ut ct a wei fee v =
     (if ct < ut \<or> ut < last_of ut v then opened a v else report ut ct a wei fee (opened a v))"

lemma ignored_report:
  assumes "l1_holds E H F k U v st" and "a \<in> U" and "length (w_posters v) + 2 < 2 ^ 64" and "10 \<le> ver"
    and "l1_transfer_ok E H F k U t"
  obtains st' where "(ignore (update_for_batch_poster_spending (state_backend E H) H (l1_open H k ver) ut ct a wei fee t)
      :: (_, _, internal_tx_error) comp) st = (Ok (), st')"
    and "l1_holds E H F k U (after_report ut ct a wei fee v) st'"
    and "\<forall>l \<in> F - l1_cells H k U. state_cell H st' l = state_cell H st l"
proof (cases "ct < ut \<or> ut < last_of ut v")
  case True
  from l1.report_rejected_run [OF assms(1-4) True, of wei fee t] that show thesis
    by (auto simp: ignore_def after_report_def True)
next
  case False
  then have "ut \<le> ct" and "last_of ut v \<le> ut" by (simp_all add: not_less)
  from l1.report_run [OF assms this, of wei fee] that False show thesis
    by (auto simp: ignore_def after_report_def)
qed

text \<open>The gas of a report of the second kind: the cost of its data, or the floor price from ArbOS 50 on.\<close>

definition report_v2_gas :: "u64 \<Rightarrow> l1_view \<Rightarrow> u64 \<Rightarrow> u64 \<Rightarrow> u64 \<Rightarrow> u64" where
  "report_v2_gas ver v len nz extra =
     (let gas = sat_add (sat_add (legacy_cost_for_stats \<lparr>bds_length = len, non_zeros = nz\<rparr>) extra)
                  (of_int (max (sint (w_batch_cost v)) 0))
      in if 50 \<le> ver then max gas (floor_gas len nz (w_floor v)) else gas)"

text \<open>
  C12: From ArbOS 10 on, an internal transaction that was encoded as a batch posting report of either kind is decoded to the report, and
  applying it always succeeds and is one spending report of the poster to L1 pricing: for the gas of the batch at the
  L1 base fee, where that gas includes the cost per batch and, for the second kind from ArbOS 50 on, is at
  least the floor price of the calldata. A report out of time only opens the poster's entry.
\<close>

theorem batch_reports_reach_l1_pricing:
  assumes "l1_holds E H F k U v st" and "a \<in> U" and "length (w_posters v) + 2 < 2 ^ 64" and "10 \<le> ver"
    and "l1_transfer_ok E H F k U t"
  shows "(\<exists>inputs st'. decode_batch_posting_report (encode_batch_posting_report ts a n gas fee) = Ok inputs \<and>
        apply_batch_posting_report (state_backend E H) H (l1_open H k ver) inputs now t st = (Ok (), st') \<and>
        l1_holds E H F k U (after_report ts now a (sat_mul fee (ucast (report_gas (w_batch_cost v) gas))) fee v) st' \<and>
        (\<forall>l \<in> F - l1_cells H k U. state_cell H st' l = state_cell H st l)) \<and>
     (\<exists>inputs st'. decode_batch_posting_report_v2 (encode_batch_posting_report_v2 ts a n len nz extra fee) = Ok inputs \<and>
        apply_batch_posting_report_v2 (state_backend E H) H ver (l1_open H k ver) inputs now t st = (Ok (), st') \<and>
        l1_holds E H F k U (after_report ts now a (sat_mul fee (ucast (report_v2_gas ver v len nz extra))) fee v) st' \<and>
        (\<forall>l \<in> F - l1_cells H k U. state_cell H st' l = state_cell H st l))"
proof
  obtain st' where st': "(ignore (update_for_batch_poster_spending (state_backend E H) H (l1_open H k ver) ts now a
        (sat_mul fee (ucast (report_gas (w_batch_cost v) gas))) fee t) :: (_, _, internal_tx_error) comp) st = (Ok (), st')"
    and rest: "l1_holds E H F k U (after_report ts now a (sat_mul fee (ucast (report_gas (w_batch_cost v) gas))) fee v) st'"
      "\<forall>l \<in> F - l1_cells H k U. state_cell H st' l = state_cell H st l"
    by (rule ignored_report [OF assms])
  have run: "apply_batch_posting_report (state_backend E H) H (l1_open H k ver)
      \<lparr>br_batch_timestamp = ts, br_batch_poster = a, br_batch_data_gas = gas, br_l1_base_fee = fee\<rparr> now t st = (Ok (), st')"
    by (simp add: apply_batch_posting_report_def bnd_def l1_batch_reads [OF assms(1)] st' Let_def)
  show "\<exists>inputs st'. decode_batch_posting_report (encode_batch_posting_report ts a n gas fee) = Ok inputs \<and>
        apply_batch_posting_report (state_backend E H) H (l1_open H k ver) inputs now t st = (Ok (), st') \<and>
        l1_holds E H F k U (after_report ts now a (sat_mul fee (ucast (report_gas (w_batch_cost v) gas))) fee v) st' \<and>
        (\<forall>l \<in> F - l1_cells H k U. state_cell H st' l = state_cell H st l)"
    by (intro exI conjI) (rule decode_encode_report, rule run, (use rest in blast)+)
next
  let ?g = "report_v2_gas ver v len nz extra"
  obtain st' where st': "(ignore (update_for_batch_poster_spending (state_backend E H) H (l1_open H k ver) ts now a
        (sat_mul fee (ucast ?g)) fee t) :: (_, _, internal_tx_error) comp) st = (Ok (), st')"
    and rest: "l1_holds E H F k U (after_report ts now a (sat_mul fee (ucast ?g)) fee v) st'"
      "\<forall>l \<in> F - l1_cells H k U. state_cell H st' l = state_cell H st l"
    by (rule ignored_report [OF assms])
  have run: "apply_batch_posting_report_v2 (state_backend E H) H ver (l1_open H k ver)
      \<lparr>b2_batch_timestamp = ts, b2_batch_poster = a, b2_batch_calldata_length = len,
       b2_batch_calldata_non_zeros = nz, b2_batch_extra_gas = extra, b2_l1_base_fee = fee\<rparr> now t st = (Ok (), st')"
    using st'
    by (simp add: apply_batch_posting_report_v2_def bnd_def l1_batch_reads [OF assms(1)] ret_run Let_def
        report_v2_gas_def larger split: if_splits)
  show "\<exists>inputs st'. decode_batch_posting_report_v2 (encode_batch_posting_report_v2 ts a n len nz extra fee) = Ok inputs \<and>
        apply_batch_posting_report_v2 (state_backend E H) H ver (l1_open H k ver) inputs now t st = (Ok (), st') \<and>
        l1_holds E H F k U (after_report ts now a (sat_mul fee (ucast ?g)) fee v) st' \<and>
        (\<forall>l \<in> F - l1_cells H k U. state_cell H st' l = state_cell H st l)"
    by (intro exI conjI) (rule decode_encode_report_v2, rule run, (use rest in blast)+)
qed

lemma batch_reports_reach_l1_pricing_witness:
  "\<exists>inputs st'. decode_batch_posting_report (encode_batch_posting_report 110 200 3 5 7) = Ok inputs \<and>
     apply_batch_posting_report (state_backend sample_revm sample_keccak) sample_keccak (l1_open sample_keccak 7 10)
       inputs 120 (\<lambda>a b x. ret ()) (sample_state sample_l1_cells) = (Ok (), st') \<and>
     l1_holds sample_revm sample_keccak {} 7 {100, 200} (report 110 120 200 35 7 (opened 200 sample_l1)) st'"
proof -
  have "after_report 110 120 200 35 7 sample_l1 = report 110 120 200 35 7 (opened 200 sample_l1)"
    and "length (w_posters sample_l1) + 2 < 2 ^ 64"
    and "sat_mul 7 (ucast (report_gas (w_batch_cost sample_l1) 5)) = (35 :: u256)"
    by (simp_all add: after_report_def last_of_def sample_l1_def report_gas_def sat_mul_def)
  then show ?thesis
    using batch_reports_reach_l1_pricing [OF sample_l1_holds _ _ _ no_transfer_ok, of 200 10 110 3 5 7 120] by auto
qed

end
