(* ===== verification/Spec2Isabelle.thy ===== *)
theory Spec2Isabelle
  imports Queue Bytes_Storage Address_Set Address_Table Blockhashes Merkle Exp_Bounds Multi_Gas
    Retryable_System L2_System L1_System Parse_L2 Tx_Processor Programs Internal_Tx
begin

text \<open>
  Verification of ArbOS, the state machine of an Arbitrum chain, as implemented in the crates arbos, arb-storage,
  arb-primitives and arb-math.

  \<^bold>\<open>The program.\<close> ArbOS keeps its state in the storage of one account. A subspace is named by a key derived by
  hashing, and a field of a subspace is a storage slot. On this layer stand data structures (a queue, byte strings, an
  address set, an address table, Merkle accumulators, a ring of block hashes), on these the parts of the protocol:
  retryable tickets, the L2 gas price, the L1 data price with its batch posters, and the Stylus programs. Messages from
  L1 are parsed into transactions; the transaction processor charges their gas and distributes their fees; internal
  transactions report the cost of posted batches to L1 pricing.

  \<^bold>\<open>Conventions.\<close> An operation is a function from a state to a result and a new state; \<open>Ok\<close>, \<open>Err\<close> and \<open>Panic\<close> are
  the outcomes of the Rust code, and \<open>bnd\<close> is the question mark operator. Machine integers are words, and saturating,
  checked and wrapping arithmetic is written out (Prelude). Code from outside the repository is an argument of
  the definitions: the hash \<open>H\<close>, the parts \<open>E\<close> of revm, the RLP codec, the compressor, the codec of signed
  envelopes, the compiler of Stylus programs and the transfer of balances. What is assumed of it is a named
  hypothesis (\<open>revm_ok\<close>, \<open>slots_sep\<close>, \<open>nonzero_hash\<close>, \<open>rlp_ok\<close>, \<open>balances_only\<close>, \<open>transfer_ok\<close>), which a concrete
  instance meets in Sample_Env and beside the witnesses that use it. The transfers of L1 pricing may fail; those of
  deleting a ticket do not, as the executor's closures never return an error.

  \<^bold>\<open>Theories and sources\<close> (under src/crates).
  \<^item> Prelude: results, the state monad, arithmetic on words, big-endian bytes.
  \<^item> State_Ops: arb-storage/src/state_ops.rs and arb-storage-errors; reading and writing cached account state.
  \<^item> Storage: slot.rs, layout.rs, storage.rs, backend.rs, gas.rs, backed_types.rs and extra_types.rs of arb-storage.
    The locale \<open>arb_store\<close> is the interface all other parts use: separate cells that keep what was written.
    The interpretation \<open>st\<close> proves it for the executor's state.
  \<^item> Queue, Bytes_Storage, Address_Set, Address_Table, Blockhashes, Merkle: queue.rs, bytes_storage.rs and
    vector.rs of arb-storage, and the modules address_set, address_table, blockhash and merkle_accumulator of
    arbos. The locales \<open>fifo\<close> and \<open>address_set_contract\<close> are the contracts of the queue and of the set.
  \<^item> Util and Exp_Bounds: arb-math/src/lib.rs and arbos/src/util; Multi_Gas: arb-primitives/src/multigas.rs.
  \<^item> Retryables and Retryable_System: arbos/src/retryables (locale \<open>ticket_store\<close>).
  \<^item> L2_Pricing, L2_Store, L2_Models and L2_System: arbos/src/l2_pricing (locale \<open>l2_store\<close>).
  \<^item> L1_Pricing, L1_Recording, L1_Store and L1_System: arbos/src/l1_pricing (locale \<open>l1_store\<close>); L1_Recording runs the
    operations with a transfer callback that records its calls.
  \<^item> Messages and Parse_L2: arbos/src/arbos_types/incoming_message.rs and arbos/src/parse_l2.rs.
  \<^item> Tx_Processor: arbos/src/tx_processor.rs and arbos/src/reverted_tx_gas.rs.
  \<^item> Programs: arbos/src/programs (locale \<open>program_store\<close>).
  \<^item> Internal_Tx: arbos/src/internal_tx.rs, the calldata and the batch posting reports.

  A struct is a record with the fields of the source, a storage-backed field is its slot, and each method is one
  definition with the name of the source, prefixed where two methods share a name. A function of the source
  that does several things in sequence is split at the marked lines.

  \<^bold>\<open>What is shown.\<close>
  \<^item> The data structures refine their abstract types: any sequence of operations on the queue and on the set answers
    as the deque and the set do, the accumulator has the root of the Merkle tree over its leaves, byte strings and
    the address table read back what was stored, an exported accumulator is restored, and the ring holds the recorded
    hashes and derived ones for skipped blocks, except the first skipped one, which keeps a stale hash. Other cells never change.
  \<^item> Retryable tickets: every existing ticket is in the timeout queue once for each window it has left and once more, along
    any sequence of operations, and reaping empties the store; tickets read back, only the beneficiary cancels.
  \<^item> L2 pricing on storage is the pricing model on an abstract view; the base fee never falls below the minimum;
    the upgrades between constraint sets keep the price.
  \<^item> L1 pricing: a spending report is a function on the view of the state, keeps the books of what is owed, transfers
    exactly what it takes from the fees, and its new price is the formula over the integers.
    Batch posting reports of both kinds reach it unchanged.
  \<^item> Messages: writing and reading are inverse; parsing ends on every input, nested batches are parsed in order
    up to sixteen levels, and what was parsed converts to typed transactions.
  \<^item> Transactions: gas is split in full, fees add up to what was charged, a submission never refunds more than
    its deposit, the refunds of a redeem give the refund address at most the maximum.
  \<^item> Stylus: stored parameters read back and stay storable under upgrades; a program is active from an activation
    or keepalive until its expiry.

  \<^bold>\<open>Bounds.\<close> All functions are total, so no fuel is used: loops recurse over lists or over a measure (the
  distance to a counter's bound, the length of the input). Where a counter of 64 bits could overflow, the properties ask for
  room: fewer than \<open>2 ^ 64\<close> members or entries after the operations, and fewer than \<open>2 ^ 63\<close> leaves. Start times of
  programs lie within \<open>2 ^ 24\<close> hours of the start of the chain, which is what the three stored bytes hold. The footprint
  \<open>F\<close> of a property is any set of cells that the hash keeps apart.

  \<^bold>\<open>Not modelled.\<close> The record that opens all parts (arbos_state), genesis and the upgrades of the ArbOS version, and with
  them the internal transaction that starts a block; the block processor, headers, feature flags, filtered transactions and
  burners of arbos. The crates arb-evm, arb-precompiles, arb-stylus, arb-node, arb-rpc, arb-payload and arb-txpool drive
  libraries outside the repository (revm, reth, alloy, wasmer) or dispatch through generated bindings to the
  operations modelled here. Tests, benchmarks and fuzz targets are not part of the node. Gas that the EVM charges
  for storage access, logging and tracing are left out of the operations; the prices that the operations
  themselves return are kept.
\<close>

end
